(* ===== verification/Hathor_Prelude.thy ===== *)
theory Hathor_Prelude
  imports Main "HOL-Library.Word"
begin

text \<open>
  Shared vocabulary of the development: bytes, the exceptions the code raises and the
  result type they are values of, the fragments of Python's standard library that the
  wire formats use (\<^verbatim>\<open>int.to_bytes\<close>, \<^verbatim>\<open>struct\<close>, slices, \<^verbatim>\<open>for _ in range(n)\<close> loops
  over a buffer), and the interface of a wire format: a locale \<open>wire_codec\<close> with an encoder,
  a decoder and the laws that relate them, in which the facts about repeated fields are
  proved once.
\<close>

named_theorems result_iff \<open>when a computation returns a value\<close>
named_theorems py_eval \<open>evaluation of the library functions on literals\<close>

subsection \<open>Bytes\<close>

type_synonym byte = "8 word"
type_synonym bytes = "byte list"

text \<open>A Python \<^verbatim>\<open>float\<close>, by its IEEE-754 bit pattern.\<close>

type_synonym float64 = "64 word"

text \<open>\<open>byte_of n\<close> is the byte of value \<open>n\<close>, for the literals and lengths below 256 that the code writes.\<close>

definition byte_of :: "nat \<Rightarrow> byte" where
  "byte_of n = word_of_nat n"

lemma unat_byte_less [simp]: "unat (b :: byte) < 256"
  using unsigned_less [of b, where ?'a = nat] by simp

lemma unat_byte_of: "unat (byte_of n) = n mod 256"
  by (simp add: byte_of_def unat_of_nat)

lemma unat_byte_of_less [simp]: "n < 256 \<Longrightarrow> unat (byte_of n) = n"
  by (simp add: unat_byte_of)

lemma byte_of_unat [simp]: "byte_of (unat b) = b"
  by (simp add: byte_of_def)

lemma byte_of_inject: "m < 256 \<Longrightarrow> n < 256 \<Longrightarrow> byte_of m = byte_of n \<longleftrightarrow> m = n"
  using unat_byte_of_less by metis

subsection \<open>Exceptions and results\<close>

text \<open>
  The exceptions the modelled code raises, along the class tree of
  \<^verbatim>\<open>hathor/transaction/exceptions.py\<close>: the subclasses of \<^verbatim>\<open>TxValidationError\<close>, those of
  \<^verbatim>\<open>ScriptError\<close>, the other exceptions of Hathor, and those of Python. An \<^verbatim>\<open>except\<close> clause
  that names a base class selects on the outer constructor.
\<close>

datatype tx_error =
    ParentDoesNotExist | IncorrectParents | TimestampError | InputOutputMismatch
  | InvalidInputData | NoInputError | TooManyInputs | InexistentInput
  | ConflictingInputs | TooManyOutputs | InvalidOutputValue | PowError | AuxPowError
  | WeightError | DuplicatedParents | InvalidToken | TransactionDataError
  | RewardLocked | BlockWithInputs | BlockWithTokensError

datatype script_error =
    ScriptError | OutOfData | MissingStackItems | EqualVerifyFailed
  | FinalStackInvalid | OracleChecksigFailed | DataIndexError | InvalidStackData
  | VerifyFailed | TimeLocked

datatype hathor_error =
    TransactionDoesNotExist | TransactionIsNotABlock | InvalidNewTransaction
  | InvalidAddress | WalletOutOfSync | PrivateKeyNotFound | WalletLocked | IncorrectPassword
  | InsufficientFunds | OutOfUnusedAddresses | InvalidWords | InputDuplicated

datatype py_error =
    StructError | ValueError | UnicodeEncodeError | UnicodeDecodeError | OverflowError
  | AssertionError | NotImplementedError | UnboundLocalError
  | IndexError | KeyError | TypeError | AttributeError | ZeroDivisionError

datatype exn =
    TxE tx_error | ScriptE script_error | HathorE hathor_error | PyE py_error

text \<open>\<^verbatim>\<open>except ValueError\<close> also catches its subclasses, the two Unicode errors.\<close>

fun is_ValueError :: "exn \<Rightarrow> bool" where
  "is_ValueError (PyE e) = (e \<in> {ValueError, UnicodeEncodeError, UnicodeDecodeError})"
| "is_ValueError _ = False"

fun is_ScriptError :: "exn \<Rightarrow> bool" where
  "is_ScriptError (ScriptE e) = True"
| "is_ScriptError _ = False"

type_synonym 'a result = "exn + 'a"

definition bindE :: "'a result \<Rightarrow> ('a \<Rightarrow> 'b result) \<Rightarrow> 'b result" where
  "bindE m f = (case m of Inl e \<Rightarrow> Inl e | Inr x \<Rightarrow> f x)"

definition guardE :: "bool \<Rightarrow> exn \<Rightarrow> unit result" where
  "guardE c e = (if c then Inr () else Inl e)"

definition catchE :: "'a result \<Rightarrow> (exn \<Rightarrow> 'a result) \<Rightarrow> 'a result" where
  "catchE m h = (case m of Inl e \<Rightarrow> h e | Inr x \<Rightarrow> Inr x)"

definition of_option :: "exn \<Rightarrow> 'a option \<Rightarrow> 'a result" where
  "of_option e m = (case m of None \<Rightarrow> Inl e | Some x \<Rightarrow> Inr x)"

lemma bindE_Inr [simp]: "bindE (Inr x) f = f x"
  and bindE_Inl [simp]: "bindE (Inl e) f = Inl e"
  by (simp_all add: bindE_def)

lemma bindE_return [simp]: "bindE m Inr = m"
  by (simp add: bindE_def split: sum.splits)

lemma bindE_assoc: "bindE (bindE m f) g = bindE m (\<lambda>x. bindE (f x) g)"
  by (simp add: bindE_def split: sum.splits)

lemma bindE_eq_Inr [result_iff]: "bindE m f = Inr y \<longleftrightarrow> (\<exists>x. m = Inr x \<and> f x = Inr y)"
  by (simp add: bindE_def split: sum.splits)

lemma bindE_eq_Inl: "bindE m f = Inl e \<longleftrightarrow> m = Inl e \<or> (\<exists>x. m = Inr x \<and> f x = Inl e)"
  by (auto simp add: bindE_def split: sum.splits)

lemma bindE_split: "P (bindE m f) \<longleftrightarrow> (\<forall>e. m = Inl e \<longrightarrow> P (Inl e)) \<and> (\<forall>x. m = Inr x \<longrightarrow> P (f x))"
  by (simp add: bindE_def split: sum.splits)

lemma bindE_cong [fundef_cong]:
  assumes "m = m'" and "\<And>x. m' = Inr x \<Longrightarrow> f x = f' x"
  shows "bindE m f = bindE m' f'"
  using assms by (simp add: bindE_def split: sum.splits)

lemma guardE_simps [simp]: "guardE True e = Inr ()" "guardE False e = Inl e"
  by (simp_all add: guardE_def)

lemma guardE_eq_Inr [result_iff]: "guardE c e = Inr u \<longleftrightarrow> c"
  by (simp add: guardE_def)

lemma guardE_eq_Inl: "guardE c e = Inl e' \<longleftrightarrow> \<not> c \<and> e' = e"
  by (auto simp add: guardE_def)

lemma bindE_guardE_eq_Inr [result_iff]: "bindE (guardE c e) f = Inr y \<longleftrightarrow> c \<and> f () = Inr y"
  by (auto simp add: bindE_def guardE_def)

lemma catchE_simps [simp]: "catchE (Inr x) h = Inr x" "catchE (Inl e) h = h e"
  by (simp_all add: catchE_def)

lemma of_option_simps [simp]: "of_option e None = Inl e" "of_option e (Some x) = Inr x"
  by (simp_all add: of_option_def)

lemma of_option_eq_Inr [result_iff]: "of_option e m = Inr x \<longleftrightarrow> m = Some x"
  by (simp add: of_option_def split: option.splits)

text \<open>A loop that runs a fallible body for each element, in order, and stops at the first error.\<close>

fun forE :: "('a \<Rightarrow> unit result) \<Rightarrow> 'a list \<Rightarrow> unit result" where
  "forE f [] = Inr ()"
| "forE f (x # xs) = bindE (f x) (\<lambda>_. forE f xs)"

fun mapE :: "('a \<Rightarrow> 'b result) \<Rightarrow> 'a list \<Rightarrow> 'b list result" where
  "mapE f [] = Inr []"
| "mapE f (x # xs) = bindE (f x) (\<lambda>y. bindE (mapE f xs) (\<lambda>ys. Inr (y # ys)))"

fun foldE :: "('s \<Rightarrow> 'a \<Rightarrow> 's result) \<Rightarrow> 's \<Rightarrow> 'a list \<Rightarrow> 's result" where
  "foldE f s [] = Inr s"
| "foldE f s (x # xs) = bindE (f s x) (\<lambda>s'. foldE f s' xs)"

lemma forE_eq_Inr [result_iff]: "forE f xs = Inr u \<longleftrightarrow> (\<forall>x \<in> set xs. f x = Inr ())"
  by (induction xs) (auto simp: result_iff)

lemma mapE_eq_Inr_length: "mapE f xs = Inr ys \<Longrightarrow> length ys = length xs"
  by (induction xs arbitrary: ys) (auto simp: result_iff)

text \<open>Sequencing of computations that may not end.\<close>

definition bindR :: "'a result option \<Rightarrow> ('a \<Rightarrow> 'b result option) \<Rightarrow> 'b result option" where
  "bindR m f = (case m of None \<Rightarrow> None | Some (Inl e) \<Rightarrow> Some (Inl e) | Some (Inr x) \<Rightarrow> f x)"

fun foldR :: "('s \<Rightarrow> 'a \<Rightarrow> 's result option) \<Rightarrow> 's \<Rightarrow> 'a list \<Rightarrow> 's result option" where
  "foldR f s [] = Some (Inr s)"
| "foldR f s (x # xs) = bindR (f s x) (\<lambda>s'. foldR f s' xs)"

lemma bindR_simps [simp]:
  "bindR None f = None" "bindR (Some (Inl e)) f = Some (Inl e)" "bindR (Some (Inr x)) f = f x"
  by (simp_all add: bindR_def)

lemma bindR_eq_Inr: "bindR m f = Some (Inr y) \<longleftrightarrow> (\<exists>x. m = Some (Inr x) \<and> f x = Some (Inr y))"
  by (auto simp: bindR_def split: option.splits sum.splits)

lemma foldE_append: "foldE f s (xs @ ys) = bindE (foldE f s xs) (\<lambda>s'. foldE f s' ys)"
  by (induction xs arbitrary: s) (simp_all add: bindE_assoc)

text \<open>An invariant of the loop's state that every successful iteration keeps.\<close>

lemma foldE_invariant:
  assumes "foldE f s xs = Inr t" and "I s"
    and "\<And>s x s'. x \<in> set xs \<Longrightarrow> I s \<Longrightarrow> f s x = Inr s' \<Longrightarrow> I s'"
  shows "I t"
  using assms by (induction xs arbitrary: s) (auto simp: result_iff)

subsection \<open>Dictionaries\<close>

text \<open>
  A \<^verbatim>\<open>dict\<close> is an association list in insertion order, looked up with \<^const>\<open>map_of\<close>;
  \<^verbatim>\<open>d[k] = v\<close> leaves a key at the place it first had.
\<close>

fun dict_set :: "('k \<times> 'v) list \<Rightarrow> 'k \<Rightarrow> 'v \<Rightarrow> ('k \<times> 'v) list" where
  "dict_set [] k v = [(k, v)]"
| "dict_set ((k', v') # d) k v = (if k' = k then (k, v) # d else (k', v') # dict_set d k v)"

lemma map_of_dict_set [simp]: "map_of (dict_set d k v) = (map_of d)(k \<mapsto> v)"
  by (induction d) auto

lemma keys_dict_set [simp]: "fst ` set (dict_set d k v) = insert k (fst ` set d)"
  using map_of_dict_set [of d k v] by (metis dom_fun_upd dom_map_of_conv_image_fst option.distinct(1))

lemma distinct_dict_set [simp]: "distinct (map fst d) \<Longrightarrow> distinct (map fst (dict_set d k v))"
proof (induction d)
  case (Cons p d)
  then show ?case using keys_dict_set [of d k v] by (cases p) auto
qed simp

subsection \<open>Big-endian and little-endian numbers\<close>

primrec to_be :: "nat \<Rightarrow> nat \<Rightarrow> bytes" where
  "to_be 0 x = []"
| "to_be (Suc n) x = byte_of (x div 256 ^ n) # to_be n x"

definition from_be :: "bytes \<Rightarrow> nat" where
  "from_be bs = foldl (\<lambda>a b. a * 256 + unat b) 0 bs"

definition to_le :: "nat \<Rightarrow> nat \<Rightarrow> bytes" where
  "to_le n x = rev (to_be n x)"

definition from_le :: "bytes \<Rightarrow> nat" where
  "from_le bs = from_be (rev bs)"

lemma to_be_numeral [py_eval]:
  "to_be (numeral k) x = byte_of (x div 256 ^ pred_numeral k) # to_be (pred_numeral k) x"
  by (simp add: numeral_eq_Suc)

lemma length_to_be [simp]: "length (to_be n x) = n"
  by (induction n) simp_all

lemmas to_be_simps [py_eval] = to_be.simps

lemma to_be_eq_Nil [simp]: "to_be n x = [] \<longleftrightarrow> n = 0"
  by (cases n) simp_all

lemma length_to_le [simp]: "length (to_le n x) = n"
  by (simp add: to_le_def)

lemma from_be_Nil [simp]: "from_be [] = 0"
  by (simp add: from_be_def)

lemma from_be_snoc [simp]: "from_be (bs @ [b]) = from_be bs * 256 + unat b"
  by (simp add: from_be_def)

lemma from_be_append: "from_be (xs @ ys) = from_be xs * 256 ^ length ys + from_be ys"
proof (induction ys rule: rev_induct)
  case Nil
  then show ?case by simp
next
  case (snoc y ys)
  have "from_be (xs @ ys @ [y]) = from_be (xs @ ys) * 256 + unat y"
    using from_be_snoc [of "xs @ ys" y] by simp
  with snoc show ?case by (simp add: algebra_simps)
qed

lemma from_be_Cons: "from_be (b # bs) = unat b * 256 ^ length bs + from_be bs"
  using from_be_append [of "[b]" bs] from_be_snoc [of "[]" b] by simp

lemma from_be_less: "from_be bs < 256 ^ length bs"
proof (induction bs)
  case Nil
  then show ?case by simp
next
  case (Cons b bs)
  have "unat b * 256 ^ length bs + from_be bs < (unat b + 1) * 256 ^ length bs"
    using Cons by (simp add: algebra_simps)
  also have "\<dots> \<le> 256 * 256 ^ length bs"
    using unat_byte_less [of b] by (intro mult_right_mono) linarith+
  finally show ?case by (simp add: from_be_Cons)
qed

lemma from_be_to_be: "from_be (to_be n x) = x mod 256 ^ n"
proof (induction n)
  case 0
  then show ?case by simp
next
  case (Suc n)
  have "unat (byte_of (x div 256 ^ n)) = x div 256 ^ n mod 256"
    by (rule unat_byte_of)
  then have "from_be (to_be (Suc n) x) = 256 ^ n * (x div 256 ^ n mod 256) + x mod 256 ^ n"
    by (simp add: from_be_Cons Suc)
  also have "\<dots> = x mod (256 ^ n * 256)"
    by (simp only: mod_mult2_eq)
  finally show ?case by (simp add: mult.commute)
qed

lemma from_be_to_be_id [simp]: "x < 256 ^ n \<Longrightarrow> from_be (to_be n x) = x"
  by (simp add: from_be_to_be)

lemma from_be_inj: "length xs = length ys \<Longrightarrow> from_be xs = from_be ys \<Longrightarrow> xs = ys"
proof (induction xs ys rule: list_induct2)
  case Nil
  then show ?case by simp
next
  case (Cons x xs y ys)
  from Cons.hyps have len: "length ys = length xs" by simp
  have eq: "unat x * 256 ^ length xs + from_be xs = unat y * 256 ^ length xs + from_be ys"
    using Cons.prems by (simp add: from_be_Cons len)
  have lts: "from_be xs < 256 ^ length xs" "from_be ys < 256 ^ length xs"
    using from_be_less [of xs] from_be_less [of ys] len by simp_all
  have "unat x = unat y"
    using arg_cong [OF eq, of "\<lambda>z. z div 256 ^ length xs"] lts by simp
  moreover from this eq have "from_be xs = from_be ys" by simp
  ultimately show ?case using Cons.IH by (simp add: word_unat_eq_iff)
qed

lemma to_be_from_be [simp]: "to_be (length bs) (from_be bs) = bs"
  by (rule from_be_inj) (simp_all add: from_be_to_be from_be_less)

declare to_be.simps [simp del]

lemma to_be_inj: "x < 256 ^ n \<Longrightarrow> y < 256 ^ n \<Longrightarrow> to_be n x = to_be n y \<longleftrightarrow> x = y"
  using from_be_to_be_id by metis

lemma from_le_to_le [simp]: "x < 256 ^ n \<Longrightarrow> from_le (to_le n x) = x"
  by (simp add: from_le_def to_le_def)

lemma to_le_from_le [simp]: "to_le (length bs) (from_le bs) = bs"
  using to_be_from_be [of "rev bs"] by (simp add: from_le_def to_le_def)

lemma from_le_less: "from_le bs < 256 ^ length bs"
  using from_be_less [of "rev bs"] by (simp add: from_le_def)

subsection \<open>\<^verbatim>\<open>int.to_bytes\<close>, \<^verbatim>\<open>struct.pack\<close> and \<^verbatim>\<open>struct.unpack\<close>\<close>

text \<open>
  \<^verbatim>\<open>int.to_bytes\<close> raises \<^verbatim>\<open>OverflowError\<close> where \<^verbatim>\<open>struct.pack\<close> raises \<^verbatim>\<open>struct.error\<close>; both
  accept exactly the integers of the given width.
\<close>

definition int_to_bytes :: "int \<Rightarrow> nat \<Rightarrow> bytes result" where
  "int_to_bytes number sz =
     (if 0 \<le> number \<and> number < 256 ^ sz then Inr (to_be sz (nat number)) else Inl (PyE OverflowError))"

definition pack_uint :: "nat \<Rightarrow> int \<Rightarrow> bytes result" where
  "pack_uint n x = (if 0 \<le> x \<and> x < 256 ^ n then Inr (to_be n (nat x)) else Inl (PyE StructError))"

type_synonym 'a parser = "bytes \<Rightarrow> ('a \<times> bytes) result"

text \<open>One unsigned field of \<^verbatim>\<open>unpack(fmt, buf)\<close>: too few bytes are a \<^verbatim>\<open>struct.error\<close>.\<close>

definition unpack_uint :: "nat \<Rightarrow> int parser" where
  "unpack_uint n buf =
     (if length buf < n then Inl (PyE StructError)
      else Inr (int (from_be (take n buf)), drop n buf))"

text \<open>\<^verbatim>\<open>unpack_len(n, buf)\<close> slices, and a slice past the end is short without an error.\<close>

definition unpack_len :: "nat \<Rightarrow> bytes parser" where
  "unpack_len n buf = Inr (take n buf, drop n buf)"

lemma pack_uint_eq_Inr [result_iff]:
  "pack_uint n x = Inr bs \<longleftrightarrow> 0 \<le> x \<and> x < 256 ^ n \<and> bs = to_be n (nat x)"
  by (auto simp: pack_uint_def)

lemma int_to_bytes_eq_Inr [result_iff]:
  "int_to_bytes x n = Inr bs \<longleftrightarrow> 0 \<le> x \<and> x < 256 ^ n \<and> bs = to_be n (nat x)"
  by (auto simp: int_to_bytes_def)

lemma nat_less_pow256: "0 \<le> x \<Longrightarrow> x < 256 ^ n \<Longrightarrow> nat x < 256 ^ n"
  by (simp add: nat_less_iff)

lemma unpack_uint_to_be [simp]:
  assumes "0 \<le> x" and "x < 256 ^ n"
  shows "unpack_uint n (to_be n (nat x) @ rest) = Inr (x, rest)"
  using assms by (simp add: unpack_uint_def nat_less_pow256)

lemma unpack_uint_to_be_nat [simp]:
  "m < 256 ^ n \<Longrightarrow> unpack_uint n (to_be n m @ rest) = Inr (int m, rest)"
  by (simp add: unpack_uint_def)

lemma unpack_uint_eq_Inr [result_iff]:
  "unpack_uint n bs = Inr (x, rest) \<longleftrightarrow> 0 \<le> x \<and> x < 256 ^ n \<and> bs = to_be n (nat x) @ rest"
proof (cases "length bs < n")
  case True
  then show ?thesis by (auto simp: unpack_uint_def)
next
  case False
  then have len: "length (take n bs) = n" by simp
  have lt: "int (from_be (take n bs)) < 256 ^ n"
    using from_be_less [of "take n bs", unfolded len] of_nat_less_iff [where ?'a = int] by fastforce
  have "to_be n (from_be (take n bs)) = take n bs"
    using to_be_from_be [of "take n bs", unfolded len] .
  with False lt show ?thesis
    by (auto simp: unpack_uint_def nat_less_pow256)
qed

text \<open>The same for the little-endian formats (\<^verbatim>\<open><B\<close>, \<^verbatim>\<open><H\<close>, \<^verbatim>\<open><I\<close>, \<^verbatim>\<open><Q\<close>).\<close>

definition pack_uint_le :: "nat \<Rightarrow> int \<Rightarrow> bytes result" where
  "pack_uint_le n x = (if 0 \<le> x \<and> x < 256 ^ n then Inr (to_le n (nat x)) else Inl (PyE StructError))"

definition unpack_uint_le :: "nat \<Rightarrow> int parser" where
  "unpack_uint_le n buf =
     (if length buf < n then Inl (PyE StructError)
      else Inr (int (from_le (take n buf)), drop n buf))"

lemma pack_uint_le_eq_Inr [result_iff]:
  "pack_uint_le n x = Inr bs \<longleftrightarrow> 0 \<le> x \<and> x < 256 ^ n \<and> bs = to_le n (nat x)"
  by (auto simp: pack_uint_le_def)

lemma unpack_uint_le_to_le [simp]:
  assumes "0 \<le> x" and "x < 256 ^ n"
  shows "unpack_uint_le n (to_le n (nat x) @ rest) = Inr (x, rest)"
  using assms by (simp add: unpack_uint_le_def nat_less_pow256)

lemma unpack_uint_le_to_le_nat [simp]:
  "m < 256 ^ n \<Longrightarrow> unpack_uint_le n (to_le n m @ rest) = Inr (int m, rest)"
  by (simp add: unpack_uint_le_def)

lemma unpack_len_append [simp]: "length h = n \<Longrightarrow> unpack_len n (h @ rest) = Inr (h, rest)"
  by (simp add: unpack_len_def)

lemma unpack_len_eq_Inr [result_iff]:
  "unpack_len n bs = Inr (h, rest) \<longleftrightarrow> bs = h @ rest \<and> (length h = n \<or> length h < n \<and> rest = [])"
  by (auto simp: unpack_len_def)

subsection \<open>Loops over a buffer\<close>

text \<open>
  \<^verbatim>\<open>for _ in range(n): x, buf = p(buf); xs.append(x)\<close>, and the loop
  \<^verbatim>\<open>for x in xs: struct_bytes += f(x)\<close> that writes what it reads.
\<close>

fun repeatP :: "nat \<Rightarrow> 'a parser \<Rightarrow> 'a list parser" where
  "repeatP 0 p buf = Inr ([], buf)"
| "repeatP (Suc n) p buf =
     bindE (p buf) (\<lambda>(x, buf). bindE (repeatP n p buf) (\<lambda>(xs, buf). Inr (x # xs, buf)))"

fun concatE :: "('a \<Rightarrow> bytes result) \<Rightarrow> 'a list \<Rightarrow> bytes result" where
  "concatE f [] = Inr []"
| "concatE f (x # xs) = bindE (f x) (\<lambda>b. bindE (concatE f xs) (\<lambda>bs. Inr (b @ bs)))"

lemma repeatP_numeral [py_eval]:
  "repeatP (numeral k) p buf =
     bindE (p buf) (\<lambda>(x, buf). bindE (repeatP (pred_numeral k) p buf) (\<lambda>(xs, buf). Inr (x # xs, buf)))"
  by (simp add: numeral_eq_Suc)

lemma repeatP_length: "repeatP n p buf = Inr (xs, rest) \<Longrightarrow> length xs = n"
  by (induction n arbitrary: buf xs) (auto simp: result_iff)

lemma concatE_pure [simp]: "concatE (\<lambda>x. Inr (f x)) xs = Inr (concat (map f xs))"
  by (induction xs) simp_all

lemma concatE_Inr [simp]: "concatE Inr xs = Inr (concat xs)"
  by (induction xs) simp_all

subsection \<open>The interface of a wire format\<close>

text \<open>
  A format has an encoder that may fail (a field out of range), a decoder that returns what
  it read and the bytes it left, and the values the encoder is meant for (\<open>wf\<close>): these are
  read back from their encoding, whatever follows it.
\<close>

locale codec =
  fixes enc :: "'a \<Rightarrow> bytes result"
    and dec :: "'a parser"
    and wf :: "'a \<Rightarrow> bool"
  assumes dec_enc: "wf x \<Longrightarrow> enc x = Inr bs \<Longrightarrow> dec (bs @ rest) = Inr (x, rest)"
begin

lemma enc_prefix_inj:
  assumes "wf x" and "wf y" and "enc x = Inr a" and "enc y = Inr b" and "a @ r = b @ s"
  shows "x = y \<and> r = s"
proof -
  from assms(1,3) have "dec (a @ r) = Inr (x, r)" by (rule dec_enc)
  moreover from assms(2,4) have "dec (b @ s) = Inr (y, s)" by (rule dec_enc)
  ultimately show ?thesis using assms(5) by simp
qed

lemma repeat_dec_enc:
  "list_all wf xs \<Longrightarrow> concatE enc xs = Inr bs \<Longrightarrow>
     repeatP (length xs) dec (bs @ rest) = Inr (xs, rest)"
  by (induction xs arbitrary: bs) (auto simp: result_iff dec_enc)

end

text \<open>
  A format is exact when moreover the decoder accepts nothing but encodings, for the values
  that have a single encoding (\<open>canon\<close>). The decoders of the code slice without checking
  lengths, so what they accept at the very end of a buffer may be truncated: the laws about
  decoding are about decoders that leave something unread.
\<close>

locale wire_codec = codec +
  fixes canon :: "'a \<Rightarrow> bool"
  assumes enc_dec: "dec bs = Inr (x, rest) \<Longrightarrow> rest \<noteq> [] \<Longrightarrow> canon x \<Longrightarrow>
          \<exists>used. enc x = Inr used \<and> bs = used @ rest"
    and dec_nil: "dec [] = Inr (x, rest) \<Longrightarrow> rest = []"
    and dec_wf: "dec bs = Inr (x, rest) \<Longrightarrow> rest \<noteq> [] \<Longrightarrow> wf x"
begin

lemma repeat_nil: "repeatP n dec [] = Inr (xs, rest) \<Longrightarrow> rest = []"
  by (induction n arbitrary: xs) (auto simp: result_iff dest: dec_nil)

lemma repeat_leaves:
  assumes "repeatP (Suc n) dec bs = Inr (xs, rest)" and "rest \<noteq> []"
  obtains x ys mid where "xs = x # ys" and "dec bs = Inr (x, mid)" and "mid \<noteq> []"
    and "repeatP n dec mid = Inr (ys, rest)"
  using assms by (auto simp: result_iff dest: repeat_nil)

lemma repeat_enc_dec:
  "repeatP n dec bs = Inr (xs, rest) \<Longrightarrow> rest \<noteq> [] \<Longrightarrow> list_all canon xs \<Longrightarrow>
     \<exists>used. concatE enc xs = Inr used \<and> bs = used @ rest"
proof (induction n arbitrary: bs xs)
  case 0
  then show ?case by auto
next
  case (Suc n)
  from Suc.prems(1,2) obtain x ys mid where step: "xs = x # ys" "dec bs = Inr (x, mid)"
    "mid \<noteq> []" "repeatP n dec mid = Inr (ys, rest)" by (rule repeat_leaves)
  from step(1) Suc.prems(3) have "canon x" by simp
  then obtain a where "enc x = Inr a" "bs = a @ mid" using enc_dec [OF step(2,3)] by blast
  moreover from Suc.IH [OF step(4) Suc.prems(2)] step(1) Suc.prems(3)
  obtain b where "concatE enc ys = Inr b" "mid = b @ rest" by auto
  ultimately show ?case using step(1) by simp
qed

lemma repeat_wf: "repeatP n dec bs = Inr (xs, rest) \<Longrightarrow> rest \<noteq> [] \<Longrightarrow> list_all wf xs"
proof (induction n arbitrary: bs xs)
  case 0
  then show ?case by simp
next
  case (Suc n)
  from Suc.prems obtain x ys mid where step: "xs = x # ys" "dec bs = Inr (x, mid)"
    "mid \<noteq> []" "repeatP n dec mid = Inr (ys, rest)" by (rule repeat_leaves)
  with Suc.IH Suc.prems(2) dec_wf show ?case by auto
qed

end

text \<open>
  The two formats every other one is built from: an unsigned big-endian field of \<open>n\<close> bytes
  and a blob of fixed length, such as a 32-byte hash.
\<close>

lemmas unpack_eqs = unpack_uint_to_be unpack_uint_to_be_nat unpack_len_append

interpretation uint_field: wire_codec "pack_uint n" "unpack_uint n" "\<lambda>_. True" "\<lambda>_. True"
  for n
  by unfold_locales (auto simp: result_iff)

interpretation blob_field: wire_codec Inr "unpack_len n" "\<lambda>h. length h = n" "\<lambda>_. True"
  for n
  by unfold_locales (auto simp: result_iff)

lemma repeat_blobs:
  "list_all (\<lambda>h. length h = n) hs \<Longrightarrow> repeatP (length hs) (unpack_len n) (concat hs @ rest) = Inr (hs, rest)"
  by (rule blob_field.repeat_dec_enc) simp_all

lemma repeat_blobs_inv:
  "repeatP k (unpack_len n) bs = Inr (hs, rest) \<Longrightarrow> rest \<noteq> [] \<Longrightarrow>
     bs = concat hs @ rest \<and> length hs = k \<and> list_all (\<lambda>h. length h = n) hs"
  using blob_field.repeat_enc_dec [of k n bs hs rest] blob_field.repeat_wf [of k n bs hs rest]
    repeatP_length [of k "unpack_len n" bs hs rest]
  by (auto simp: list_all_iff)

end
