(* ===== verification/Py_Str.thy ===== *)
theory Py_Str
  imports Hathor_Prelude
begin

text \<open>
  Python strings as the code uses them: sequences of code points, with the strict UTF-8
  codec of \<^verbatim>\<open>str.encode\<close> and \<^verbatim>\<open>bytes.decode\<close> (no overlong forms, no surrogates) and the
  clean-up of token names in \<^verbatim>\<open>hathor/transaction/util.py\<close>. The case mapping of the Unicode
  database is a parameter.
\<close>

type_synonym pystr = "nat list"

definition pystr_of :: "string \<Rightarrow> pystr" where
  "pystr_of s = map of_char s"

subsection \<open>UTF-8\<close>

definition utf8_enc_char :: "nat \<Rightarrow> bytes result" where
  "utf8_enc_char c =
     (if c < 0x80 then Inr [byte_of c]
      else if c < 0x800 then Inr [byte_of (0xC0 + c div 64), byte_of (0x80 + c mod 64)]
      else if 0xD800 \<le> c \<and> c \<le> 0xDFFF then Inl (PyE UnicodeEncodeError)
      else if c < 0x10000 then
        Inr [byte_of (0xE0 + c div 4096), byte_of (0x80 + c div 64 mod 64),
             byte_of (0x80 + c mod 64)]
      else if c < 0x110000 then
        Inr [byte_of (0xF0 + c div 262144), byte_of (0x80 + c div 4096 mod 64),
             byte_of (0x80 + c div 64 mod 64), byte_of (0x80 + c mod 64)]
      else Inl (PyE UnicodeEncodeError))"

definition utf8_cont :: "byte \<Rightarrow> bool" where
  "utf8_cont b \<longleftrightarrow> 0x80 \<le> unat b \<and> unat b < 0xC0"

fun utf8_dec_char :: "nat parser" where
  "utf8_dec_char [] = Inl (PyE UnicodeDecodeError)"
| "utf8_dec_char (a # bs) =
     (if unat a < 0x80 then Inr (unat a, bs)
      else if unat a < 0xC2 then Inl (PyE UnicodeDecodeError)
      else if unat a < 0xE0 then
        (case bs of b # rest \<Rightarrow>
           if utf8_cont b then Inr ((unat a - 0xC0) * 64 + (unat b - 0x80), rest)
           else Inl (PyE UnicodeDecodeError)
         | _ \<Rightarrow> Inl (PyE UnicodeDecodeError))
      else if unat a < 0xF0 then
        (case bs of b # c # rest \<Rightarrow>
           (let v = (unat a - 0xE0) * 4096 + (unat b - 0x80) * 64 + (unat c - 0x80) in
            if utf8_cont b \<and> utf8_cont c \<and> 0x800 \<le> v \<and> \<not> (0xD800 \<le> v \<and> v \<le> 0xDFFF)
            then Inr (v, rest) else Inl (PyE UnicodeDecodeError))
         | _ \<Rightarrow> Inl (PyE UnicodeDecodeError))
      else if unat a < 0xF5 then
        (case bs of b # c # d # rest \<Rightarrow>
           (let v = (unat a - 0xF0) * 262144 + (unat b - 0x80) * 4096 + (unat c - 0x80) * 64
                    + (unat d - 0x80) in
            if utf8_cont b \<and> utf8_cont c \<and> utf8_cont d \<and> 0x10000 \<le> v \<and> v < 0x110000
            then Inr (v, rest) else Inl (PyE UnicodeDecodeError))
         | _ \<Rightarrow> Inl (PyE UnicodeDecodeError))
      else Inl (PyE UnicodeDecodeError))"

lemma utf8_dec_enc_2:
  assumes "0x80 \<le> c" and "c < 0x800"
  shows "utf8_dec_char (byte_of (0xC0 + c div 64) # byte_of (0x80 + c mod 64) # rest) = Inr (c, rest)"
proof -
  define h l where "h = c div 64" and "l = c mod 64"
  have "c = h * 64 + l" and "l < 64" by (simp_all add: h_def l_def)
  moreover from this assms have "2 \<le> h" "h < 32" by simp_all
  ultimately show ?thesis
    unfolding h_def [symmetric] l_def [symmetric] by (simp add: utf8_cont_def)
qed

lemma utf8_dec_enc_3:
  assumes "0x800 \<le> c" and "c < 0x10000" and "\<not> (0xD800 \<le> c \<and> c \<le> 0xDFFF)"
  shows "utf8_dec_char (byte_of (0xE0 + c div 4096) # byte_of (0x80 + c div 64 mod 64)
           # byte_of (0x80 + c mod 64) # rest) = Inr (c, rest)"
proof -
  define h m l where "h = c div 4096" and "m = c div 64 mod 64" and "l = c mod 64"
  have d: "c div 64 = h * 64 + m" unfolding h_def m_def
    using div_mult2_eq [of c 64 64] by simp
  have "c = c div 64 * 64 + l" by (simp add: l_def)
  then have c: "c = h * 4096 + m * 64 + l" unfolding d by simp
  have ml: "m < 64" "l < 64" by (simp_all add: m_def l_def)
  from c assms have "h < 16" by simp
  with c ml assms show ?thesis
    unfolding h_def [symmetric] m_def [symmetric] l_def [symmetric]
    by (simp add: utf8_cont_def)
qed

lemma utf8_dec_enc_4:
  assumes "0x10000 \<le> c" and "c < 0x110000"
  shows "utf8_dec_char (byte_of (0xF0 + c div 262144) # byte_of (0x80 + c div 4096 mod 64)
           # byte_of (0x80 + c div 64 mod 64) # byte_of (0x80 + c mod 64) # rest) = Inr (c, rest)"
proof -
  define h k m l where "h = c div 262144" and "k = c div 4096 mod 64"
    and "m = c div 64 mod 64" and "l = c mod 64"
  have e: "c div 4096 = h * 64 + k" unfolding h_def k_def
    using div_mult2_eq [of c 4096 64] by simp
  have d: "c div 64 = c div 4096 * 64 + m" unfolding m_def
    using div_mult2_eq [of c 64 64] by simp
  have "c = c div 64 * 64 + l" by (simp add: l_def)
  then have c: "c = h * 262144 + k * 4096 + m * 64 + l" unfolding d e by simp
  have ml: "k < 64" "m < 64" "l < 64" by (simp_all add: k_def m_def l_def)
  from c assms have "h < 5" by simp
  with c ml assms show ?thesis
    unfolding h_def [symmetric] k_def [symmetric] m_def [symmetric] l_def [symmetric]
    by (simp add: utf8_cont_def)
qed

lemma utf8_dec_enc_char:
  assumes "utf8_enc_char c = Inr bs"
  shows "utf8_dec_char (bs @ rest) = Inr (c, rest)"
proof -
  consider "c < 0x80" | "0x80 \<le> c" "c < 0x800"
    | "0x800 \<le> c" "c < 0x10000" "\<not> (0xD800 \<le> c \<and> c \<le> 0xDFFF)"
    | "0x10000 \<le> c" "c < 0x110000"
    using assms unfolding utf8_enc_char_def by (auto split: if_splits)
  then show ?thesis
  proof cases
    case 1
    with assms show ?thesis by (auto simp: utf8_enc_char_def)
  next
    case 2
    with assms have "bs = [byte_of (0xC0 + c div 64), byte_of (0x80 + c mod 64)]"
      by (simp add: utf8_enc_char_def)
    with utf8_dec_enc_2 [OF 2] show ?thesis by (simp del: utf8_dec_char.simps)
  next
    case 3
    then have "bs = [byte_of (0xE0 + c div 4096), byte_of (0x80 + c div 64 mod 64),
        byte_of (0x80 + c mod 64)]"
      using assms unfolding utf8_enc_char_def by (auto split: if_splits)
    with utf8_dec_enc_3 [OF 3] show ?thesis by (simp del: utf8_dec_char.simps)
  next
    case 4
    then have "bs = [byte_of (0xF0 + c div 262144), byte_of (0x80 + c div 4096 mod 64),
        byte_of (0x80 + c div 64 mod 64), byte_of (0x80 + c mod 64)]"
      using assms unfolding utf8_enc_char_def by (auto split: if_splits)
    with utf8_dec_enc_4 [OF 4] show ?thesis by (simp del: utf8_dec_char.simps)
  qed
qed

lemma divmod_64: "c = x * 64 + n \<Longrightarrow> n < 64 \<Longrightarrow> c div 64 = x \<and> c mod 64 = (n :: nat)"
  by auto

text \<open>A continuation byte carries six bits.\<close>

lemma utf8_contE:
  assumes "utf8_cont b"
  obtains n where "n < 64" and "b = byte_of (0x80 + n)" and "unat b = 0x80 + n"
proof
  show "unat b - 0x80 < 64" and "b = byte_of (0x80 + (unat b - 0x80))"
    and "unat b = 0x80 + (unat b - 0x80)"
    using assms unfolding utf8_cont_def by (linarith, simp, simp)
qed

lemma utf8_enc_dec_char2:
  assumes "0xC2 \<le> unat a" and "unat a < 0xE0" and "utf8_dec_char (a # ds) = Inr (c, rest)"
  shows "\<exists>used. utf8_enc_char c = Inr used \<and> a # ds = used @ rest"
proof -
  from assms obtain b where b: "ds = b # rest" "utf8_cont b"
    and c: "c = (unat a - 0xC0) * 64 + (unat b - 0x80)"
    by (auto split: list.splits if_splits)
  from b(2) obtain n where n: "n < 64" "b = byte_of (0x80 + n)" "unat b = 0x80 + n"
    by (rule utf8_contE)
  define h where "h = unat a - 0xC0"
  have h: "a = byte_of (0xC0 + h)" "2 \<le> h" "h < 32" using assms(1-2) by (simp_all add: h_def)
  have cn: "c = h * 64 + n" using c n by (simp add: h_def)
  have "c div 64 = h" "c mod 64 = n" using divmod_64 [OF cn n(1)] by simp_all
  moreover have "0x80 \<le> c" "c < 0x800" using cn h n(1) by simp_all
  ultimately show ?thesis using b(1) n(2) h(1) by (simp add: utf8_enc_char_def)
qed

lemma utf8_enc_dec_char3:
  assumes "0xE0 \<le> unat a" and "unat a < 0xF0" and "utf8_dec_char (a # ds) = Inr (c, rest)"
  shows "\<exists>used. utf8_enc_char c = Inr used \<and> a # ds = used @ rest"
proof -
  from assms obtain b1 b2 where b: "ds = b1 # b2 # rest" "utf8_cont b1" "utf8_cont b2"
    and c: "c = (unat a - 0xE0) * 4096 + (unat b1 - 0x80) * 64 + (unat b2 - 0x80)"
    and r: "0x800 \<le> c" "\<not> (0xD800 \<le> c \<and> c \<le> 0xDFFF)"
    by (auto simp: Let_def split: list.splits if_splits)
  from b(2) obtain m where m: "m < 64" "b1 = byte_of (0x80 + m)" "unat b1 = 0x80 + m"
    by (rule utf8_contE)
  from b(3) obtain n where n: "n < 64" "b2 = byte_of (0x80 + n)" "unat b2 = 0x80 + n"
    by (rule utf8_contE)
  define h where "h = unat a - 0xE0"
  have h: "a = byte_of (0xE0 + h)" "h < 16" using assms(1-2) by (simp_all add: h_def)
  have cn: "c = (h * 64 + m) * 64 + n" using c m n by (simp add: h_def)
  have c64: "c div 64 = h * 64 + m" "c mod 64 = n" using divmod_64 [OF cn n(1)] by simp_all
  have "c div 4096 = c div 64 div 64" using div_mult2_eq [of c 64 64] by simp
  then have "c div 4096 = h" "c div 64 mod 64 = m" using divmod_64 [OF c64(1) m(1)] by simp_all
  moreover have "c < 0x10000" using cn h m(1) n(1) by simp
  ultimately show ?thesis using b(1) m(2) n(2) h(1) r c64(2) by (simp add: utf8_enc_char_def)
qed

lemma utf8_enc_dec_char4:
  assumes "0xF0 \<le> unat a" and "unat a < 0xF5" and "utf8_dec_char (a # ds) = Inr (c, rest)"
  shows "\<exists>used. utf8_enc_char c = Inr used \<and> a # ds = used @ rest"
proof -
  from assms obtain b1 b2 b3 where b: "ds = b1 # b2 # b3 # rest" "utf8_cont b1" "utf8_cont b2" "utf8_cont b3"
    and c: "c = (unat a - 0xF0) * 262144 + (unat b1 - 0x80) * 4096 + (unat b2 - 0x80) * 64 + (unat b3 - 0x80)"
    and r: "0x10000 \<le> c" "c < 0x110000"
    by (auto simp: Let_def split: list.splits if_splits)
  from b(2) obtain k where k: "k < 64" "b1 = byte_of (0x80 + k)" "unat b1 = 0x80 + k"
    by (rule utf8_contE)
  from b(3) obtain m where m: "m < 64" "b2 = byte_of (0x80 + m)" "unat b2 = 0x80 + m"
    by (rule utf8_contE)
  from b(4) obtain n where n: "n < 64" "b3 = byte_of (0x80 + n)" "unat b3 = 0x80 + n"
    by (rule utf8_contE)
  define h where "h = unat a - 0xF0"
  have h: "a = byte_of (0xF0 + h)" using assms(1-2) by (simp add: h_def)
  have cn: "c = ((h * 64 + k) * 64 + m) * 64 + n" using c k m n by (simp add: h_def)
  have c64: "c div 64 = (h * 64 + k) * 64 + m" "c mod 64 = n" using divmod_64 [OF cn n(1)] by simp_all
  have "c div 4096 = c div 64 div 64" using div_mult2_eq [of c 64 64] by simp
  then have c12: "c div 4096 = h * 64 + k" "c div 64 mod 64 = m" using divmod_64 [OF c64(1) m(1)] by simp_all
  have "c div 262144 = c div 4096 div 64" using div_mult2_eq [of c 4096 64] by simp
  then have "c div 262144 = h" "c div 4096 mod 64 = k" using divmod_64 [OF c12(1) k(1)] by simp_all
  with c12(2) c64(2) show ?thesis using b(1) k(2) m(2) n(2) h(1) r by (simp add: utf8_enc_char_def)
qed

lemma utf8_enc_dec_char:
  assumes "utf8_dec_char bs = Inr (c, rest)"
  shows "\<exists>used. utf8_enc_char c = Inr used \<and> bs = used @ rest"
proof -
  from assms obtain a ds where bs: "bs = a # ds" by (cases bs) auto
  consider "unat a < 0x80" | "0xC2 \<le> unat a" "unat a < 0xE0" | "0xE0 \<le> unat a" "unat a < 0xF0"
    | "0xF0 \<le> unat a" "unat a < 0xF5"
    using assms bs by (auto split: if_splits)
  then show ?thesis
    using assms utf8_enc_dec_char2 utf8_enc_dec_char3 utf8_enc_dec_char4 unfolding bs
    by cases (auto simp: utf8_enc_char_def)
qed

interpretation utf8_field: wire_codec utf8_enc_char utf8_dec_char "\<lambda>_. True" "\<lambda>_. True"
  by unfold_locales (auto simp: utf8_dec_enc_char dest: utf8_enc_dec_char)

lemma utf8_dec_char_shorter: "utf8_dec_char bs = Inr (c, rest) \<Longrightarrow> length rest < length bs"
  by (cases bs) (auto simp: Let_def split: if_splits list.splits)

text \<open>\<^verbatim>\<open>str.encode('utf-8')\<close> and \<^verbatim>\<open>bytes.decode('utf-8')\<close>.\<close>

definition utf8_encode :: "pystr \<Rightarrow> bytes result" where
  "utf8_encode s = concatE utf8_enc_char s"

function utf8_decode :: "bytes \<Rightarrow> pystr result" where
  "utf8_decode bs =
     (if bs = [] then Inr []
      else bindE (utf8_dec_char bs) (\<lambda>(c, rest). bindE (utf8_decode rest) (\<lambda>cs. Inr (c # cs))))"
  by pat_completeness auto
termination
  by (relation "measure length") (auto dest: utf8_dec_char_shorter)

declare utf8_decode.simps [simp del]

lemma utf8_decode_Nil [simp]: "utf8_decode [] = Inr []"
  by (simp add: utf8_decode.simps)

lemma utf8_decode_step:
  "utf8_dec_char bs = Inr (c, rest) \<Longrightarrow>
     utf8_decode bs = bindE (utf8_decode rest) (\<lambda>cs. Inr (c # cs))"
  by (cases "bs = []") (simp_all add: utf8_decode.simps [of bs])

lemma utf8_decode_encode: "utf8_encode s = Inr bs \<Longrightarrow> utf8_decode bs = Inr s"
  unfolding utf8_encode_def
proof (induction s arbitrary: bs)
  case Nil
  then show ?case by simp
next
  case (Cons c s)
  then obtain a b where ab: "utf8_enc_char c = Inr a" "concatE utf8_enc_char s = Inr b" "bs = a @ b"
    by (auto simp: result_iff)
  then have "utf8_dec_char bs = Inr (c, b)" by (simp add: utf8_dec_enc_char)
  with Cons.IH [OF ab(2)] show ?case by (simp add: utf8_decode_step)
qed

lemma utf8_encode_decode: "utf8_decode bs = Inr s \<Longrightarrow> utf8_encode s = Inr bs"
proof (induction bs arbitrary: s rule: utf8_decode.induct)
  case (1 bs)
  show ?case
  proof (cases "bs = []")
    case True
    with "1.prems" show ?thesis by (simp add: utf8_encode_def)
  next
    case False
    with "1.prems" obtain c rest cs where step: "utf8_dec_char bs = Inr (c, rest)"
      "utf8_decode rest = Inr cs" "s = c # cs"
      by (auto simp: utf8_decode.simps [of bs] result_iff)
    with "1.IH" False have "utf8_encode cs = Inr rest" by blast
    moreover obtain used where "utf8_enc_char c = Inr used" "bs = used @ rest"
      using utf8_enc_dec_char [OF step(1)] by blast
    ultimately show ?thesis using step(3) by (simp add: utf8_encode_def)
  qed
qed

subsection \<open>Cleaning a token name\<close>

text \<open>The code points that \<^verbatim>\<open>\\s\<close> and \<^verbatim>\<open>str.strip\<close> take for white space.\<close>

definition py_isspace :: "nat \<Rightarrow> bool" where
  "py_isspace c \<longleftrightarrow> (9 \<le> c \<and> c \<le> 13) \<or> (28 \<le> c \<and> c \<le> 32) \<or> c \<in> {0x85, 0xA0, 0x1680}
     \<or> (0x2000 \<le> c \<and> c \<le> 0x200A) \<or> c \<in> {0x2028, 0x2029, 0x202F, 0x205F, 0x3000}"

text \<open>\<^verbatim>\<open>re.sub(r'\s\s+', ' ', string)\<close>: every run of two or more spaces becomes one blank.\<close>

function sub_spaces :: "pystr \<Rightarrow> pystr" where
  "sub_spaces [] = []"
| "sub_spaces [c] = [c]"
| "sub_spaces (c # d # s) =
     (if py_isspace c \<and> py_isspace d then 32 # sub_spaces (dropWhile py_isspace s)
      else c # sub_spaces (d # s))"
  by pat_completeness auto
termination
  by (relation "measure length") (auto simp: less_Suc_eq_le intro: order_trans [OF length_dropWhile_le])

definition py_strip :: "pystr \<Rightarrow> pystr" where
  "py_strip s = rev (dropWhile py_isspace (rev (dropWhile py_isspace s)))"

definition clean_token_string :: "(pystr \<Rightarrow> pystr) \<Rightarrow> pystr \<Rightarrow> pystr" where
  "clean_token_string upper s = upper (py_strip (sub_spaces s))"

end
