(* ===== verification/Tx_Fields.thy ===== *)
theory Tx_Fields
  imports Py_Str
begin

text \<open>
  The inputs and outputs of a transaction (\<^verbatim>\<open>TxInput\<close>, \<^verbatim>\<open>TxOutput\<close> and the variable-length
  encoding of output values in \<^verbatim>\<open>hathor/transaction/base_transaction.py\<close>) and their wire
  formats, each an instance of \<open>wire_codec\<close>.
\<close>

unbundle bit_operations_syntax

definition TX_HASH_SIZE :: nat where
  "TX_HASH_SIZE = 32"

definition MAX_OUTPUT_VALUE :: int where
  "MAX_OUTPUT_VALUE = 2 ^ 63"

definition MAX_OUTPUT_VALUE_32 :: int where
  "MAX_OUTPUT_VALUE_32 = 2 ^ 31 - 1"

subsection \<open>Signed fields\<close>

definition unpack_sint :: "nat \<Rightarrow> int parser" where
  "unpack_sint n buf =
     bindE (unpack_uint n buf) (\<lambda>(x, rest).
       Inr (if x < 2 ^ (8 * n - 1) then x else x - 2 ^ (8 * n), rest))"

definition int_to_bytes_signed :: "int \<Rightarrow> nat \<Rightarrow> bytes result" where
  "int_to_bytes_signed x n =
     (if - (2 ^ (8 * n - 1)) \<le> x \<and> x < 2 ^ (8 * n - 1) then Inr (to_be n (nat (x mod 2 ^ (8 * n))))
      else Inl (PyE OverflowError))"

subsection \<open>Output values\<close>

definition bytes_to_output_value :: "int parser" where
  "bytes_to_output_value buf =
     bindE (unpack_sint 1 buf) (\<lambda>(value_high_byte, _).
     (let (output_struct, value_sign) = (if value_high_byte < 0 then (8, - 1) else (4, 1)) in
      bindE (catchE (unpack_sint output_struct buf)
               (\<lambda>e. if e = PyE StructError then Inl (TxE InvalidOutputValue) else Inl e))
        (\<lambda>(signed_value, rest).
          (let v = signed_value * value_sign in
           bindE (guardE (v \<ge> 0) (PyE AssertionError)) (\<lambda>_.
           if v < MAX_OUTPUT_VALUE_32 \<and> value_high_byte < 0 then Inl (PyE ValueError)
           else Inr (v, rest))))))"

definition output_value_to_bytes :: "int \<Rightarrow> bytes result" where
  "output_value_to_bytes number =
     (if number \<le> 0 then Inl (TxE InvalidOutputValue)
      else if number > MAX_OUTPUT_VALUE_32 then int_to_bytes_signed (- number) 8
      else int_to_bytes_signed number 4)"

text \<open>The sign of a field is the top bit of its first byte.\<close>

lemma uint_top_bit:
  assumes "unpack_uint (Suc n) (b # ds) = Inr (x, rest)"
  shows "x < 128 * 256 ^ n \<longleftrightarrow> unat b < 128"
proof -
  from assms have len: "n \<le> length ds" and x: "x = int (from_be (b # take n ds))"
    by (auto simp: unpack_uint_def split: if_splits)
  have len': "length (take n ds) = n" using len by simp
  have lt: "from_be (take n ds) < 256 ^ n"
    by (rule from_be_less [of "take n ds", unfolded len'])
  have fb: "from_be (b # take n ds) = unat b * 256 ^ n + from_be (take n ds)"
    by (simp only: from_be_Cons len')
  have "from_be (b # take n ds) < 128 * 256 ^ n \<longleftrightarrow> unat b < 128"
  proof
    assume "unat b < 128"
    then have "(unat b + 1) * 256 ^ n \<le> 128 * 256 ^ n" by (intro mult_right_mono) auto
    then have "unat b * 256 ^ n + 256 ^ n \<le> 128 * 256 ^ n" by (simp only: distrib_right mult_1)
    with lt fb show "from_be (b # take n ds) < 128 * 256 ^ n" by linarith
  next
    assume "from_be (b # take n ds) < 128 * 256 ^ n"
    with fb have "unat b * 256 ^ n < 128 * 256 ^ n" by linarith
    then show "unat b < 128" by simp
  qed
  moreover have "x < 128 * 256 ^ n \<longleftrightarrow> int (from_be (b # take n ds)) < int (128 * 256 ^ n)"
    by (simp add: x)
  ultimately show ?thesis by (simp only: of_nat_less_iff)
qed

lemma unpack_sint_Cons: "unpack_sint (Suc 0) (b # ds) = Inr (if unat b < 128 then int (unat b) else int (unat b) - 256, ds)"
  by (simp add: unpack_sint_def unpack_uint_def from_be_Cons del: of_nat_unat)

lemma unpack_uint_error: "unpack_uint n bs = Inl e \<Longrightarrow> e = PyE StructError"
  by (simp add: unpack_uint_def split: if_splits)

lemma bytes_to_output_value_4:
  assumes "unat b < 128"
  shows "bytes_to_output_value (b # ds) =
    (case unpack_uint 4 (b # ds) of Inl _ \<Rightarrow> Inl (TxE InvalidOutputValue) | Inr p \<Rightarrow> Inr p)"
proof (cases "unpack_uint 4 (b # ds)")
  case (Inl e)
  then show ?thesis
    using assms unpack_uint_error [OF Inl]
    by (simp add: bytes_to_output_value_def unpack_sint_Cons unpack_sint_def [of 4] del: of_nat_unat)
next
  case (Inr p)
  obtain x r where p: "p = (x, r)" by force
  with Inr assms have "0 \<le> x" "x < 2 ^ 31"
    using uint_top_bit [of 3 b ds x r] by (simp_all add: unpack_uint_def split: if_splits)
  with Inr p assms show ?thesis
    by (simp add: bytes_to_output_value_def unpack_sint_Cons unpack_sint_def [of 4] del: of_nat_unat)
qed

lemma bytes_to_output_value_8:
  assumes "\<not> unat b < 128"
  shows "bytes_to_output_value (b # ds) =
    (case unpack_uint 8 (b # ds) of Inl _ \<Rightarrow> Inl (TxE InvalidOutputValue)
     | Inr (x, r) \<Rightarrow> if 2 ^ 64 - x < 2 ^ 31 - 1 then Inl (PyE ValueError) else Inr (2 ^ 64 - x, r))"
proof (cases "unpack_uint 8 (b # ds)")
  case (Inl e)
  have "int (unat b) - 256 < 0" using unat_byte_less [of b] by linarith
  then show ?thesis
    using assms Inl unpack_uint_error [OF Inl]
    by (simp add: bytes_to_output_value_def unpack_sint_Cons unpack_sint_def [of 8] del: of_nat_unat)
next
  case (Inr p)
  have neg: "int (unat b) - 256 < 0" using unat_byte_less [of b] by linarith
  obtain x r where p: "p = (x, r)" by force
  with Inr assms have "\<not> x < 2 ^ 63" "x < 2 ^ 64"
    using uint_top_bit [of 7 b ds x r] by (simp_all add: result_iff)
  with Inr p assms neg show ?thesis
    by (simp add: bytes_to_output_value_def unpack_sint_Cons unpack_sint_def [of 8]
        MAX_OUTPUT_VALUE_32_def del: of_nat_unat)
qed

text \<open>What the decoder accepts: four bytes below \<open>2 ^ 31\<close>, or the eight bytes of the negated value.\<close>

lemma bytes_to_output_value_iff:
  "bytes_to_output_value bs = Inr (v, rest) \<longleftrightarrow>
     (0 \<le> v \<and> v < 2 ^ 31 \<and> bs = to_be 4 (nat v) @ rest) \<or>
     (2 ^ 31 - 1 \<le> v \<and> v \<le> 2 ^ 63 \<and> bs = to_be 8 (nat (2 ^ 64 - v)) @ rest)"
proof (cases bs)
  case Nil
  then show ?thesis
    by (auto simp: bytes_to_output_value_def unpack_sint_def unpack_uint_def)
next
  case (Cons b ds)
  have four: "x < 2 ^ 31 \<longleftrightarrow> unat b < 128" if "unpack_uint 4 bs = Inr (x, r)" for x r
    using uint_top_bit [of 3 b ds x r] that Cons by simp
  have eight: "x < 2 ^ 63 \<longleftrightarrow> unat b < 128" if "unpack_uint 8 bs = Inr (x, r)" for x r
    using uint_top_bit [of 7 b ds x r] that Cons by simp
  show ?thesis
  proof (cases "unat b < 128")
    case True
    have "bytes_to_output_value bs = Inr (v, rest) \<longleftrightarrow> unpack_uint 4 bs = Inr (v, rest)"
      using bytes_to_output_value_4 [OF True] Cons by (auto split: sum.splits)
    moreover have "\<not> (2 ^ 31 - 1 \<le> v \<and> v \<le> 2 ^ 63 \<and> bs = to_be 8 (nat (2 ^ 64 - v)) @ rest)"
      using eight [of "2 ^ 64 - v" rest] True by (auto simp: result_iff)
    moreover have "unpack_uint 4 bs = Inr (v, rest) \<Longrightarrow> v < 2 ^ 31" using four True by simp
    ultimately show ?thesis by (auto simp: result_iff)
  next
    case False
    have "bytes_to_output_value bs = Inr (v, rest) \<longleftrightarrow>
        2 ^ 31 - 1 \<le> v \<and> unpack_uint 8 bs = Inr (2 ^ 64 - v, rest)"
      using bytes_to_output_value_8 [OF False] Cons by (auto split: sum.splits prod.splits if_splits)
    moreover have "\<not> (0 \<le> v \<and> v < 2 ^ 31 \<and> bs = to_be 4 (nat v) @ rest)"
      using four [of v rest] False by (auto simp: result_iff)
    moreover have "unpack_uint 8 bs = Inr (2 ^ 64 - v, rest) \<Longrightarrow> v \<le> 2 ^ 63"
      using eight [of "2 ^ 64 - v" rest] False by simp
    ultimately show ?thesis by (auto simp: result_iff)
  qed
qed

lemma output_value_to_bytes_iff:
  "output_value_to_bytes v = Inr bs \<longleftrightarrow>
     (0 < v \<and> v < 2 ^ 31 \<and> bs = to_be 4 (nat v)) \<or>
     (2 ^ 31 \<le> v \<and> v \<le> 2 ^ 63 \<and> bs = to_be 8 (nat (2 ^ 64 - v)))"
proof (cases "2 ^ 31 \<le> v \<and> v \<le> 2 ^ 63")
  case True
  then have "(- v) mod 2 ^ 64 = 2 ^ 64 - v"
    using mod_pos_pos_trivial [of "2 ^ 64 - v" "2 ^ 64"] mod_add_self2 [of "- v" "2 ^ 64"] by simp
  with True show ?thesis
    by (auto simp: output_value_to_bytes_def int_to_bytes_signed_def MAX_OUTPUT_VALUE_32_def)
next
  case False
  then show ?thesis
    by (auto simp: output_value_to_bytes_def int_to_bytes_signed_def MAX_OUTPUT_VALUE_32_def)
qed

interpretation output_value: wire_codec output_value_to_bytes bytes_to_output_value
  "\<lambda>v. True" "\<lambda>v. 0 < v \<and> v \<noteq> 2 ^ 31 - 1"
  by unfold_locales (auto simp: bytes_to_output_value_iff output_value_to_bytes_iff)

subsection \<open>Inputs\<close>

record txinput =
  ti_tx_id :: bytes
  ti_index :: int
  ti_data :: bytes

definition txinput_bytes :: "txinput \<Rightarrow> bytes result" where
  "txinput_bytes i =
     bindE (int_to_bytes (ti_index i) 1) (\<lambda>ix.
     bindE (int_to_bytes (int (length (ti_data i))) 2) (\<lambda>n.
     Inr (ti_tx_id i @ ix @ n @ ti_data i)))"

definition get_sighash_bytes :: "bool \<Rightarrow> txinput \<Rightarrow> bytes result" where
  "get_sighash_bytes clear_data i =
     (if \<not> clear_data then txinput_bytes i
      else bindE (int_to_bytes (ti_index i) 1) (\<lambda>ix.
           bindE (int_to_bytes 0 2) (\<lambda>n. Inr (ti_tx_id i @ ix @ n))))"

definition txinput_create_from_bytes :: "txinput parser" where
  "txinput_create_from_bytes buf =
     bindE (unpack_len TX_HASH_SIZE buf) (\<lambda>(input_tx_id, buf).
     bindE (unpack_uint 1 buf) (\<lambda>(input_index, buf).
     bindE (unpack_uint 2 buf) (\<lambda>(data_len, buf).
     bindE (unpack_len (nat data_len) buf) (\<lambda>(input_data, buf).
     Inr (\<lparr>ti_tx_id = input_tx_id, ti_index = input_index, ti_data = input_data\<rparr>, buf)))))"

definition txinput_wf :: "txinput \<Rightarrow> bool" where
  "txinput_wf i \<longleftrightarrow> length (ti_tx_id i) = TX_HASH_SIZE"

interpretation txinput: wire_codec txinput_bytes txinput_create_from_bytes txinput_wf "\<lambda>_. True"
proof unfold_locales
  fix i bs rest
  assume wf: "txinput_wf i" and "txinput_bytes i = Inr bs"
  then have "0 \<le> ti_index i" "ti_index i < 256" "length (ti_data i) < 65536"
    "bs = ti_tx_id i @ to_be 1 (nat (ti_index i)) @ to_be 2 (length (ti_data i)) @ ti_data i"
    by (auto simp: txinput_bytes_def result_iff)
  with wf show "txinput_create_from_bytes (bs @ rest) = Inr (i, rest)"
    by (simp add: txinput_wf_def txinput_create_from_bytes_def)
next
  fix bs i rest
  assume "txinput_create_from_bytes bs = Inr (i, rest)" and "rest \<noteq> []"
  then show "\<exists>used. txinput_bytes i = Inr used \<and> bs = used @ rest" and "txinput_wf i"
    by (auto simp: txinput_wf_def txinput_bytes_def txinput_create_from_bytes_def result_iff)
next
  fix i rest
  assume "txinput_create_from_bytes [] = Inr (i, rest)"
  then show "rest = []"
    by (auto simp: txinput_create_from_bytes_def result_iff)
qed

subsection \<open>Outputs\<close>

record txoutput =
  to_value :: int
  to_script :: bytes
  to_token_data :: int

definition TOKEN_INDEX_MASK :: int where
  "TOKEN_INDEX_MASK = 0x7F"

definition TOKEN_AUTHORITY_MASK :: int where
  "TOKEN_AUTHORITY_MASK = 0x80"

definition TOKEN_MINT_MASK :: int where
  "TOKEN_MINT_MASK = 1"

definition TOKEN_MELT_MASK :: int where
  "TOKEN_MELT_MASK = 2"

definition ALL_AUTHORITIES :: int where
  "ALL_AUTHORITIES = TOKEN_MINT_MASK OR TOKEN_MELT_MASK"

definition txoutput_init :: "int \<Rightarrow> bytes \<Rightarrow> int \<Rightarrow> txoutput result" where
  "txoutput_init v script token_data =
     bindE (guardE (v \<le> MAX_OUTPUT_VALUE \<and> v > 0) (PyE AssertionError)) (\<lambda>_.
     Inr \<lparr>to_value = v, to_script = script, to_token_data = token_data\<rparr>)"

definition txoutput_bytes :: "txoutput \<Rightarrow> bytes result" where
  "txoutput_bytes o' =
     bindE (output_value_to_bytes (to_value o')) (\<lambda>v.
     bindE (int_to_bytes (to_token_data o') 1) (\<lambda>t.
     bindE (int_to_bytes (int (length (to_script o'))) 2) (\<lambda>n.
     Inr (v @ t @ n @ to_script o'))))"

definition txoutput_create_from_bytes :: "txoutput parser" where
  "txoutput_create_from_bytes buf =
     bindE (bytes_to_output_value buf) (\<lambda>(v, buf).
     bindE (unpack_uint 1 buf) (\<lambda>(token_data, buf).
     bindE (unpack_uint 2 buf) (\<lambda>(script_len, buf).
     bindE (unpack_len (nat script_len) buf) (\<lambda>(script, buf).
     bindE (txoutput_init v script token_data) (\<lambda>txout. Inr (txout, buf))))))"

definition get_token_index :: "txoutput \<Rightarrow> int" where
  "get_token_index o' = to_token_data o' AND TOKEN_INDEX_MASK"

definition is_token_authority :: "txoutput \<Rightarrow> bool" where
  "is_token_authority o' \<longleftrightarrow> (to_token_data o' AND TOKEN_AUTHORITY_MASK) > 0"

definition can_mint_token :: "txoutput \<Rightarrow> bool" where
  "can_mint_token o' \<longleftrightarrow> is_token_authority o' \<and> (to_value o' AND TOKEN_MINT_MASK) > 0"

definition can_melt_token :: "txoutput \<Rightarrow> bool" where
  "can_melt_token o' \<longleftrightarrow> is_token_authority o' \<and> (to_value o' AND TOKEN_MELT_MASK) > 0"

text \<open>
  The one value with two encodings: the decoder accepts \<open>2 ^ 31 - 1\<close> in four bytes and in eight.
\<close>

definition txoutput_canon :: "txoutput \<Rightarrow> bool" where
  "txoutput_canon o' \<longleftrightarrow> to_value o' \<noteq> MAX_OUTPUT_VALUE_32"

interpretation txoutput: wire_codec txoutput_bytes txoutput_create_from_bytes "\<lambda>_. True" txoutput_canon
proof unfold_locales
  fix o' bs rest
  assume "txoutput_bytes o' = Inr bs"
  then obtain v where v: "output_value_to_bytes (to_value o') = Inr v"
    "0 \<le> to_token_data o'" "to_token_data o' < 256" "length (to_script o') < 65536"
    "bs = v @ to_be 1 (nat (to_token_data o')) @ to_be 2 (length (to_script o')) @ to_script o'"
    by (auto simp: txoutput_bytes_def result_iff)
  moreover from v(1) have "0 < to_value o'" "to_value o' \<le> MAX_OUTPUT_VALUE"
    by (auto simp: output_value_to_bytes_iff MAX_OUTPUT_VALUE_def)
  ultimately show "txoutput_create_from_bytes (bs @ rest) = Inr (o', rest)"
    by (simp add: txoutput_create_from_bytes_def txoutput_init_def output_value.dec_enc)
next
  fix bs o' rest
  assume "txoutput_create_from_bytes bs = Inr (o', rest)" and "rest \<noteq> []" and canon: "txoutput_canon o'"
  then obtain t where t: "bytes_to_output_value bs = Inr (to_value o', t)" "0 < to_value o'"
    "0 \<le> to_token_data o'" "to_token_data o' < 256" "length (to_script o') < 65536"
    "t = to_be 1 (nat (to_token_data o')) @ to_be 2 (length (to_script o')) @ to_script o' @ rest"
    by (auto simp: txoutput_create_from_bytes_def txoutput_init_def result_iff)
  with canon obtain v where "output_value_to_bytes (to_value o') = Inr v" "bs = v @ t"
    using output_value.enc_dec [OF t(1)] by (auto simp: txoutput_canon_def MAX_OUTPUT_VALUE_32_def)
  with t show "\<exists>used. txoutput_bytes o' = Inr used \<and> bs = used @ rest"
    by (simp add: txoutput_bytes_def int_to_bytes_def)
next
  fix o' rest
  assume "txoutput_create_from_bytes [] = Inr (o', rest)"
  then show "rest = []"
    by (auto simp: txoutput_create_from_bytes_def bytes_to_output_value_iff result_iff)
qed simp

end
