(* ===== verification/Tx_Format.thy ===== *)
theory Tx_Format
  imports Tx_Fields
begin

text \<open>
  The vertices of the DAG and their wire format: \<^verbatim>\<open>hathor/transaction/base_transaction.py\<close>,
  \<^verbatim>\<open>transaction.py\<close>, \<^verbatim>\<open>token_creation_tx.py\<close> and \<^verbatim>\<open>block.py\<close>. Each class is a record that
  extends its base class, each \<^verbatim>\<open>get_..._struct\<close> an encoder that may raise, each
  \<^verbatim>\<open>get_..._from_struct\<close> a decoder. A float is its IEEE-754 bit pattern, which is what
  \<^verbatim>\<open>struct\<close> writes and reads; SHA-256 is a parameter.
\<close>

subsection \<open>The classes of vertices\<close>

record base_transaction =
  nonce :: int
  timestamp :: int
  version :: int
  weight :: float64
  inputs :: "txinput list"
  outputs :: "txoutput list"
  parents :: "bytes list"
  tx_hash :: "bytes option"

record transaction = base_transaction +
  tokens :: "bytes list"

record token_creation_tx = transaction +
  token_name :: pystr
  token_symbol :: pystr

record block = base_transaction +
  blk_data :: bytes

definition sum_outputs :: "'a base_transaction_scheme \<Rightarrow> int" where
  "sum_outputs tx = (\<Sum>o' \<leftarrow> filter (\<lambda>o'. \<not> is_token_authority o') (outputs tx). to_value o')"

text \<open>\<^verbatim>\<open>pack(fmt, ...)\<close> for a format of unsigned fields.\<close>

definition pack_fields :: "(nat \<times> int) list \<Rightarrow> bytes result" where
  "pack_fields = concatE (\<lambda>(n, x). pack_uint n x)"

subsection \<open>Graph fields\<close>

definition pack_double :: "float64 \<Rightarrow> bytes" where
  "pack_double w = to_be 8 (unat w)"

definition unpack_double :: "float64 parser" where
  "unpack_double buf = bindE (unpack_uint 8 buf) (\<lambda>(x, buf). Inr (word_of_nat (nat x), buf))"

definition get_graph_struct :: "'a base_transaction_scheme \<Rightarrow> bytes result" where
  "get_graph_struct tx =
     bindE (pack_fields [(4, timestamp tx), (1, int (length (parents tx)))]) (\<lambda>h.
     Inr (pack_double (weight tx) @ h @ concat (parents tx)))"

definition get_graph_fields_from_struct :: "(float64 \<times> int \<times> bytes list) parser" where
  "get_graph_fields_from_struct buf =
     bindE (unpack_double buf) (\<lambda>(w, buf).
     bindE (unpack_uint 4 buf) (\<lambda>(ts, buf).
     bindE (unpack_uint 1 buf) (\<lambda>(parents_len, buf).
     bindE (repeatP (nat parents_len) (unpack_len TX_HASH_SIZE) buf) (\<lambda>(ps, buf).
     Inr ((w, ts, ps), buf)))))"

subsection \<open>Hashes\<close>

definition get_header_without_nonce :: "(bytes \<Rightarrow> bytes) \<Rightarrow> bytes \<Rightarrow> bytes \<Rightarrow> bytes" where
  "get_header_without_nonce sha256 funds graph = sha256 funds @ sha256 graph"

text \<open>
  A \<^verbatim>\<open>hashlib\<close> object is the bytes it has been fed: \<^verbatim>\<open>calculate_hash1\<close> returns the object fed
  with the header, \<^verbatim>\<open>calculate_hash2\<close> feeds it the nonce, takes the digest twice and
  reverses it.
\<close>

definition calculate_hash1 :: "(bytes \<Rightarrow> bytes) \<Rightarrow> bytes \<Rightarrow> bytes \<Rightarrow> bytes" where
  "calculate_hash1 sha256 funds graph = get_header_without_nonce sha256 funds graph"

definition calculate_hash2 :: "(bytes \<Rightarrow> bytes) \<Rightarrow> bytes \<Rightarrow> int \<Rightarrow> bytes result" where
  "calculate_hash2 sha256 part1 n =
     bindE (int_to_bytes n 16) (\<lambda>nb. Inr (rev (sha256 (sha256 (part1 @ nb)))))"

definition calculate_hash ::
  "(bytes \<Rightarrow> bytes) \<Rightarrow> bytes result \<Rightarrow> bytes result \<Rightarrow> int \<Rightarrow> bytes result" where
  "calculate_hash sha256 funds graph n =
     bindE funds (\<lambda>f. bindE graph (\<lambda>g. calculate_hash2 sha256 (calculate_hash1 sha256 f g) n))"

subsection \<open>Transactions\<close>

definition tx_get_funds_struct :: "'a transaction_scheme \<Rightarrow> bytes result" where
  "tx_get_funds_struct tx =
     bindE (pack_fields [(2, version tx), (1, int (length (tokens tx))),
              (1, int (length (inputs tx))), (1, int (length (outputs tx)))]) (\<lambda>h.
     bindE (concatE txinput_bytes (inputs tx)) (\<lambda>is.
     bindE (concatE txoutput_bytes (outputs tx)) (\<lambda>os.
     Inr (h @ concat (tokens tx) @ is @ os))))"

definition tx_get_funds_fields_from_struct ::
  "(int \<times> bytes list \<times> txinput list \<times> txoutput list) parser" where
  "tx_get_funds_fields_from_struct buf =
     bindE (unpack_uint 2 buf) (\<lambda>(ver, buf).
     bindE (unpack_uint 1 buf) (\<lambda>(tokens_len, buf).
     bindE (unpack_uint 1 buf) (\<lambda>(inputs_len, buf).
     bindE (unpack_uint 1 buf) (\<lambda>(outputs_len, buf).
     bindE (repeatP (nat tokens_len) (unpack_len TX_HASH_SIZE) buf) (\<lambda>(toks, buf).
     bindE (repeatP (nat inputs_len) txinput_create_from_bytes buf) (\<lambda>(ins, buf).
     bindE (repeatP (nat outputs_len) txoutput_create_from_bytes buf) (\<lambda>(outs, buf).
     Inr ((ver, toks, ins, outs), buf))))))))"

definition TX_NONCE_SIZE :: nat where
  "TX_NONCE_SIZE = 4"

definition tx_get_struct :: "'a transaction_scheme \<Rightarrow> bytes result" where
  "tx_get_struct tx =
     bindE (tx_get_funds_struct tx) (\<lambda>f.
     bindE (get_graph_struct tx) (\<lambda>g.
     bindE (int_to_bytes (nonce tx) TX_NONCE_SIZE) (\<lambda>n. Inr (f @ g @ n))))"

definition tx_calculate_hash :: "(bytes \<Rightarrow> bytes) \<Rightarrow> 'a transaction_scheme \<Rightarrow> bytes result" where
  "tx_calculate_hash sha256 tx =
     calculate_hash sha256 (tx_get_funds_struct tx) (get_graph_struct tx) (nonce tx)"

definition tx_create_from_struct :: "(bytes \<Rightarrow> bytes) \<Rightarrow> bytes \<Rightarrow> transaction result" where
  "tx_create_from_struct sha256 struct_bytes =
     bindE (tx_get_funds_fields_from_struct struct_bytes) (\<lambda>((ver, toks, ins, outs), buf).
     bindE (get_graph_fields_from_struct buf) (\<lambda>((w, ts, ps), buf).
     bindE (guardE (length buf = TX_NONCE_SIZE) (PyE ValueError)) (\<lambda>_.
     bindE (unpack_uint 4 buf) (\<lambda>(n, _).
     (let tx = \<lparr>nonce = n, timestamp = ts, version = ver, weight = w, inputs = ins,
                outputs = outs, parents = ps, tx_hash = None, tokens = toks\<rparr> in
      bindE (tx_calculate_hash sha256 tx) (\<lambda>h. Inr (tx\<lparr>tx_hash := Some h\<rparr>)))))))"

subsection \<open>What a signature covers\<close>

text \<open>
  \<^verbatim>\<open>get_sighash_all\<close> keeps its two results in two attributes of the object, which are read
  back when they are not empty. The attributes are a record of their own, returned updated.
\<close>

record sighash_cache =
  sighash_cache1 :: "bytes option"
  sighash_cache2 :: "bytes option"

definition cache_hit :: "bytes option \<Rightarrow> bool" where
  "cache_hit c \<longleftrightarrow> c \<noteq> None \<and> c \<noteq> Some []"

definition sighash_lookup :: "bool \<Rightarrow> sighash_cache \<Rightarrow> bytes option" where
  "sighash_lookup clear_input_data c =
     (let e = (if clear_input_data then sighash_cache1 c else sighash_cache2 c)
      in if cache_hit e then e else None)"

definition sighash_store :: "bool \<Rightarrow> bytes \<Rightarrow> sighash_cache \<Rightarrow> sighash_cache" where
  "sighash_store clear_input_data ret c =
     (if clear_input_data then c\<lparr>sighash_cache1 := Some ret\<rparr> else c\<lparr>sighash_cache2 := Some ret\<rparr>)"

definition tx_sighash_bytes :: "bool \<Rightarrow> 'a transaction_scheme \<Rightarrow> bytes result" where
  "tx_sighash_bytes clear_input_data tx =
     bindE (pack_fields [(2, version tx), (1, int (length (tokens tx))),
              (1, int (length (inputs tx))), (1, int (length (outputs tx)))]) (\<lambda>h.
     bindE (concatE (get_sighash_bytes clear_input_data) (inputs tx)) (\<lambda>is.
     bindE (concatE txoutput_bytes (outputs tx)) (\<lambda>os.
     Inr (h @ concat (tokens tx) @ is @ os))))"

definition tx_get_sighash_all ::
  "bool \<Rightarrow> 'a transaction_scheme \<Rightarrow> sighash_cache \<Rightarrow> (bytes \<times> sighash_cache) result" where
  "tx_get_sighash_all clear_input_data tx c =
     (case sighash_lookup clear_input_data c of
        Some ret \<Rightarrow> Inr (ret, c)
      | None \<Rightarrow> bindE (tx_sighash_bytes clear_input_data tx) (\<lambda>ret.
                Inr (ret, sighash_store clear_input_data ret c)))"

text \<open>\<^verbatim>\<open>get_token_uid\<close>, with Python's reading of a negative index from the end of the list.\<close>

definition HATHOR_TOKEN_UID :: bytes where
  "HATHOR_TOKEN_UID = [0]"

definition py_nth :: "'a list \<Rightarrow> int \<Rightarrow> 'a result" where
  "py_nth xs i =
     (if 0 \<le> i \<and> i < int (length xs) then Inr (xs ! nat i)
      else if - int (length xs) \<le> i \<and> i < 0 then Inr (xs ! nat (i + int (length xs)))
      else Inl (PyE IndexError))"

definition tx_get_token_uid :: "'a transaction_scheme \<Rightarrow> int \<Rightarrow> bytes result" where
  "tx_get_token_uid tx index = (if index = 0 then Inr HATHOR_TOKEN_UID else py_nth (tokens tx) (index - 1))"

lemma unpack_double_pack [simp]: "unpack_double (pack_double w @ rest) = Inr (w, rest)"
proof -
  have "unat w < 256 ^ 8" using unsigned_less [of w, where ?'a = nat] by simp
  then show ?thesis by (simp add: unpack_double_def pack_double_def)
qed

lemma unpack_double_eq_Inr [result_iff]:
  "unpack_double bs = Inr (w, rest) \<longleftrightarrow> bs = pack_double w @ rest"
proof
  assume "unpack_double bs = Inr (w, rest)"
  then obtain x where x: "0 \<le> x" "x < 256 ^ 8" "bs = to_be 8 (nat x) @ rest" "w = word_of_nat (nat x)"
    by (auto simp: unpack_double_def result_iff)
  then have "unat w = nat x" by (simp add: unat_of_nat nat_less_iff del: of_nat_nat)
  with x show "bs = pack_double w @ rest" by (simp add: pack_double_def)
qed simp

lemma pack_fields_eqs [result_iff]:
  "pack_fields [] = Inr bs \<longleftrightarrow> bs = []"
  "pack_fields ((n, x) # fs) = Inr bs \<longleftrightarrow>
     0 \<le> x \<and> x < 256 ^ n \<and> (\<exists>t. pack_fields fs = Inr t \<and> bs = to_be n (nat x) @ t)"
  by (auto simp: pack_fields_def result_iff)

definition hashes_wf :: "bytes list \<Rightarrow> bool" where
  "hashes_wf hs \<longleftrightarrow> list_all (\<lambda>h. length h = TX_HASH_SIZE) hs"

lemma graph_dec_enc:
  assumes "hashes_wf (parents tx)" and "get_graph_struct tx = Inr bs"
  shows "get_graph_fields_from_struct (bs @ rest) = Inr ((weight tx, timestamp tx, parents tx), rest)"
proof -
  from assms(2) have "bs = pack_double (weight tx) @ to_be 4 (nat (timestamp tx))
      @ to_be 1 (length (parents tx)) @ concat (parents tx)"
    "0 \<le> timestamp tx" "timestamp tx < 256 ^ 4" "length (parents tx) < 256"
    by (auto simp: get_graph_struct_def result_iff)
  with assms(1) show ?thesis
    by (simp add: get_graph_fields_from_struct_def hashes_wf_def repeat_blobs)
qed

lemma graph_enc_dec:
  assumes "get_graph_fields_from_struct bs = Inr ((weight tx, timestamp tx, parents tx), rest)"
    and "rest \<noteq> []"
  shows "\<exists>used. get_graph_struct tx = Inr used \<and> bs = used @ rest" and "hashes_wf (parents tx)"
proof -
  from assms(1) obtain k buf where "bs = pack_double (weight tx) @ to_be 4 (nat (timestamp tx)) @ to_be 1 (nat k) @ buf"
    "0 \<le> timestamp tx" "timestamp tx < 256 ^ 4" "0 \<le> k" "k < 256"
    and ps: "repeatP (nat k) (unpack_len TX_HASH_SIZE) buf = Inr (parents tx, rest)"
    by (auto simp: get_graph_fields_from_struct_def result_iff)
  with repeat_blobs_inv [OF ps assms(2)]
  show "\<exists>used. get_graph_struct tx = Inr used \<and> bs = used @ rest" and "hashes_wf (parents tx)"
    by (auto simp: get_graph_struct_def hashes_wf_def result_iff)
qed

text \<open>A transaction's fields as the wire format wants them: 32-byte hashes.\<close>

definition tx_wf :: "'a transaction_scheme \<Rightarrow> bool" where
  "tx_wf tx \<longleftrightarrow> hashes_wf (parents tx) \<and> hashes_wf (tokens tx) \<and> list_all txinput_wf (inputs tx)"

definition outputs_canon :: "'a base_transaction_scheme \<Rightarrow> bool" where
  "outputs_canon tx \<longleftrightarrow> list_all txoutput_canon (outputs tx)"

lemma tx_get_funds_struct_iff:
  "tx_get_funds_struct tx = Inr bs \<longleftrightarrow>
     0 \<le> version tx \<and> version tx < 256 ^ 2 \<and> length (tokens tx) < 256 \<and>
     length (inputs tx) < 256 \<and> length (outputs tx) < 256 \<and>
     (\<exists>is os. concatE txinput_bytes (inputs tx) = Inr is \<and> concatE txoutput_bytes (outputs tx) = Inr os \<and>
        bs = to_be 2 (nat (version tx)) @ to_be 1 (length (tokens tx)) @ to_be 1 (length (inputs tx))
           @ to_be 1 (length (outputs tx)) @ concat (tokens tx) @ is @ os)"
  by (auto simp: tx_get_funds_struct_def result_iff)

lemma tx_funds_dec_enc:
  assumes "hashes_wf (tokens tx)" and "list_all txinput_wf (inputs tx)"
    and "tx_get_funds_struct tx = Inr bs"
  shows "tx_get_funds_fields_from_struct (bs @ rest) =
    Inr ((version tx, tokens tx, inputs tx, outputs tx), rest)"
proof -
  from assms(3) obtain "is" os where enc: "concatE txinput_bytes (inputs tx) = Inr is"
    "concatE txoutput_bytes (outputs tx) = Inr os"
    and "bs = to_be 2 (nat (version tx)) @ to_be 1 (length (tokens tx)) @ to_be 1 (length (inputs tx))
           @ to_be 1 (length (outputs tx)) @ concat (tokens tx) @ is @ os"
    "0 \<le> version tx" "version tx < 256 ^ 2" "length (tokens tx) < 256"
    "length (inputs tx) < 256" "length (outputs tx) < 256"
    by (auto simp: tx_get_funds_struct_iff)
  moreover have "list_all (\<lambda>_. True) (outputs tx)" by (simp add: list_all_iff)
  ultimately show ?thesis
    using assms(1) txinput.repeat_dec_enc [OF assms(2) enc(1)] txoutput.repeat_dec_enc [OF _ enc(2)]
    by (simp add: tx_get_funds_fields_from_struct_def hashes_wf_def repeat_blobs)
qed

lemma tx_funds_enc_dec:
  assumes "tx_get_funds_fields_from_struct bs =
      Inr ((version tx, tokens tx, inputs tx, outputs tx), rest)"
    and "rest \<noteq> []" and "outputs_canon tx"
  shows "\<exists>used. tx_get_funds_struct tx = Inr used \<and> bs = used @ rest"
    and "hashes_wf (tokens tx)" and "list_all txinput_wf (inputs tx)"
proof -
  from assms(1) obtain a b c b1 b2 b3 where hdr:
    "bs = to_be 2 (nat (version tx)) @ to_be 1 (nat a) @ to_be 1 (nat b) @ to_be 1 (nat c) @ b1"
    "0 \<le> version tx" "version tx < 256 ^ 2" "0 \<le> a" "a < 256" "0 \<le> b" "b < 256" "0 \<le> c" "c < 256"
    and toks: "repeatP (nat a) (unpack_len TX_HASH_SIZE) b1 = Inr (tokens tx, b2)"
    and ins: "repeatP (nat b) txinput_create_from_bytes b2 = Inr (inputs tx, b3)"
    and outs: "repeatP (nat c) txoutput_create_from_bytes b3 = Inr (outputs tx, rest)"
    by (auto simp: tx_get_funds_fields_from_struct_def result_iff)
  from outs assms(2) have b3: "b3 \<noteq> []" using txoutput.repeat_nil by auto
  with ins have b2: "b2 \<noteq> []" using txinput.repeat_nil by auto
  from txoutput.repeat_enc_dec [OF outs assms(2)] assms(3) obtain os where
    "concatE txoutput_bytes (outputs tx) = Inr os" "b3 = os @ rest" by (auto simp: outputs_canon_def)
  moreover from txinput.repeat_enc_dec [OF ins b3] obtain "is" where
    "concatE txinput_bytes (inputs tx) = Inr is" "b2 = is @ b3" by (auto simp: list_all_iff)
  moreover note hdr repeat_blobs_inv [OF toks b2] repeatP_length [OF ins] repeatP_length [OF outs]
  ultimately show "\<exists>used. tx_get_funds_struct tx = Inr used \<and> bs = used @ rest" "hashes_wf (tokens tx)"
    by (auto simp: tx_get_funds_struct_iff hashes_wf_def)
  show "list_all txinput_wf (inputs tx)" by (rule txinput.repeat_wf [OF ins b3])
qed

lemma tx_get_struct_iff:
  "tx_get_struct tx = Inr bs \<longleftrightarrow>
     (\<exists>f g. tx_get_funds_struct tx = Inr f \<and> get_graph_struct tx = Inr g \<and>
        0 \<le> nonce tx \<and> nonce tx < 256 ^ 4 \<and> bs = f @ g @ to_be 4 (nat (nonce tx)))"
  by (auto simp: tx_get_struct_def TX_NONCE_SIZE_def result_iff)

lemma tx_get_funds_struct_hash_update [simp]:
  "tx_get_funds_struct (tx\<lparr>tx_hash := h\<rparr>) = tx_get_funds_struct tx"
  "get_graph_struct (btx\<lparr>tx_hash := h\<rparr>) = get_graph_struct btx"
  "tx_calculate_hash sha256 (tx\<lparr>tx_hash := h\<rparr>) = tx_calculate_hash sha256 tx"
  by (simp_all add: tx_get_funds_struct_def get_graph_struct_def tx_calculate_hash_def)

lemma tx_calculate_hash_Some:
  "tx_calculate_hash sha256 \<lparr>nonce = n, timestamp = ts, version = v, weight = w, inputs = is,
     outputs = os, parents = ps, tx_hash = Some h, tokens = toks\<rparr> =
   tx_calculate_hash sha256 \<lparr>nonce = n, timestamp = ts, version = v, weight = w, inputs = is,
     outputs = os, parents = ps, tx_hash = None, tokens = toks\<rparr>"
  by (simp add: tx_calculate_hash_def tx_get_funds_struct_def get_graph_struct_def)

lemma tx_create_get_struct:
  assumes "tx_wf tx" and "tx_get_struct tx = Inr bs"
    and "tx_calculate_hash sha256 tx = Inr h" and "tx_hash tx = Some h"
  shows "tx_create_from_struct sha256 bs = Inr tx"
proof -
  from assms(2) obtain f g where fg: "tx_get_funds_struct tx = Inr f" "get_graph_struct tx = Inr g"
    and bs: "bs = f @ g @ to_be 4 (nat (nonce tx))" and n: "0 \<le> nonce tx" "nonce tx < 256 ^ 4"
    by (auto simp: tx_get_struct_iff)
  from assms(1) have wf: "hashes_wf (tokens tx)" "list_all txinput_wf (inputs tx)" "hashes_wf (parents tx)"
    by (simp_all add: tx_wf_def)
  have "unpack_uint 4 (to_be 4 (nat (nonce tx))) = Inr (nonce tx, [])"
    using unpack_uint_to_be [OF n, of "[]"] by simp
  moreover have "tx_calculate_hash sha256 (tx\<lparr>tx_hash := None\<rparr>) = Inr h" using assms(3) by simp
  moreover have "tx\<lparr>tx_hash := None\<rparr> = \<lparr>nonce = nonce tx, timestamp = timestamp tx, version = version tx,
      weight = weight tx, inputs = inputs tx, outputs = outputs tx, parents = parents tx,
      tx_hash = None, tokens = tokens tx\<rparr>" by simp
  ultimately show ?thesis
    using tx_funds_dec_enc [OF wf(1,2) fg(1)] graph_dec_enc [OF wf(3) fg(2)] bs assms(4)
    by (simp add: tx_create_from_struct_def TX_NONCE_SIZE_def Let_def)
qed

lemma tx_get_create_struct:
  assumes "tx_create_from_struct sha256 bs = Inr tx" and "outputs_canon tx"
  shows "tx_get_struct tx = Inr bs \<and> tx_wf tx \<and>
    (\<exists>h. tx_hash tx = Some h \<and> tx_calculate_hash sha256 tx = Inr h)"
proof -
  from assms(1) obtain b1 b2 rest h where
    funds: "tx_get_funds_fields_from_struct bs = Inr ((version tx, tokens tx, inputs tx, outputs tx), b1)"
    and graph: "get_graph_fields_from_struct b1 = Inr ((weight tx, timestamp tx, parents tx), b2)"
    and b2: "length b2 = 4" "unpack_uint 4 b2 = Inr (nonce tx, rest)"
    and h: "tx_hash tx = Some h" "tx_calculate_hash sha256 tx = Inr h"
    by (auto simp: tx_create_from_struct_def TX_NONCE_SIZE_def Let_def tx_calculate_hash_Some result_iff)
  from b2 have n: "b2 = to_be 4 (nat (nonce tx))" "0 \<le> nonce tx" "nonce tx < 256 ^ 4"
    by (auto simp: result_iff)
  then have b2_ne: "b2 \<noteq> []" by simp
  from graph have b1_ne: "b1 \<noteq> []"
    by (auto simp: get_graph_fields_from_struct_def unpack_double_def unpack_uint_def)
  show ?thesis
    using tx_funds_enc_dec [OF funds b1_ne assms(2)] graph_enc_dec [OF graph b2_ne] n h
    by (auto simp: tx_get_struct_iff tx_wf_def)
qed

definition sample_tx :: transaction where
  "sample_tx = \<lparr>nonce = 7, timestamp = 1578075305, version = 1, weight = 0x4035000000000000,
     inputs = [\<lparr>ti_tx_id = replicate 32 9, ti_index = 1, ti_data = [1, 2]\<rparr>],
     outputs = [\<lparr>to_value = 500, to_script = [0x51], to_token_data = 0\<rparr>],
     parents = [replicate 32 1, replicate 32 2], tx_hash = Some (replicate 32 0),
     tokens = [replicate 32 3]\<rparr>"

definition sample_sha256 :: "bytes \<Rightarrow> bytes" where
  "sample_sha256 _ = replicate 32 0"

lemmas encoder_defs = get_graph_struct_def pack_fields_def pack_uint_def txinput_bytes_def
  txoutput_bytes_def output_value_to_bytes_def int_to_bytes_def int_to_bytes_signed_def
  MAX_OUTPUT_VALUE_32_def TX_HASH_SIZE_def

lemma sample_tx_wf: "tx_wf sample_tx" "outputs_canon sample_tx"
  by (simp_all add: sample_tx_def tx_wf_def hashes_wf_def txinput_wf_def TX_HASH_SIZE_def
      outputs_canon_def txoutput_canon_def MAX_OUTPUT_VALUE_32_def)

lemma sample_tx_struct: "\<exists>bs. tx_get_struct sample_tx = Inr bs"
  by (simp add: sample_tx_def tx_get_struct_def tx_get_funds_struct_def TX_NONCE_SIZE_def encoder_defs)

lemma sample_tx_hash: "tx_calculate_hash sample_sha256 sample_tx = Inr (replicate 32 0)"
  by (simp add: sample_tx_def tx_calculate_hash_def calculate_hash_def calculate_hash2_def
      tx_get_funds_struct_def sample_sha256_def encoder_defs)



subsection \<open>Signature hashes\<close>

definition clear_input :: "txinput \<Rightarrow> txinput" where
  "clear_input i = i\<lparr>ti_data := []\<rparr>"

definition outpoint :: "txinput \<Rightarrow> bytes \<times> int" where
  "outpoint i = (ti_tx_id i, ti_index i)"

lemma get_sighash_bytes_eq: "get_sighash_bytes c i = txinput_bytes (if c then clear_input i else i)"
  by (simp add: get_sighash_bytes_def clear_input_def txinput_bytes_def)

lemma concatE_sighash:
  "concatE (get_sighash_bytes c) is = concatE txinput_bytes (if c then map clear_input is else is)"
  by (induction "is") (simp_all add: get_sighash_bytes_eq)

lemma map_outpoint_clear [simp]: "map outpoint (map clear_input is) = map outpoint is"
  by (simp add: outpoint_def clear_input_def)

lemma txinput_wf_clear: "list_all txinput_wf is \<Longrightarrow> list_all txinput_wf (map clear_input is)"
  by (induction "is") (simp_all add: txinput_wf_def clear_input_def)

lemma tx_sighash_bytes_eq:
  "tx_sighash_bytes c tx = tx_get_funds_struct (tx\<lparr>inputs := if c then map clear_input (inputs tx) else inputs tx\<rparr>)"
  by (simp add: tx_sighash_bytes_def tx_get_funds_struct_def concatE_sighash)

text \<open>The cache is coherent with a transaction when each attribute holds what would be computed.\<close>

definition cache_coherent :: "'a transaction_scheme \<Rightarrow> sighash_cache \<Rightarrow> bool" where
  "cache_coherent tx c \<longleftrightarrow>
     (cache_hit (sighash_cache1 c) \<longrightarrow> tx_sighash_bytes True tx = Inr (the (sighash_cache1 c))) \<and>
     (cache_hit (sighash_cache2 c) \<longrightarrow> tx_sighash_bytes False tx = Inr (the (sighash_cache2 c)))"



lemma tx_sighash_decode:
  assumes "tx_wf tx" and "tx_sighash_bytes True tx = Inr bs"
  shows "tx_get_funds_fields_from_struct bs =
    Inr ((version tx, tokens tx, map clear_input (inputs tx), outputs tx), [])"
  using assms tx_funds_dec_enc [of "tx\<lparr>inputs := map clear_input (inputs tx)\<rparr>" bs "[]"]
  by (simp add: tx_sighash_bytes_eq tx_wf_def txinput_wf_clear)

text \<open>
  C3: a signature commits to everything but the input data. Two transactions with the same
  signature bytes have the same version, token list and outputs, and spend the same outputs
  in the same order.
\<close>

theorem sighash_commits:
  assumes "tx_wf tx1" and "tx_wf tx2"
    and "tx_sighash_bytes True tx1 = Inr bs" and "tx_sighash_bytes True tx2 = Inr bs"
  shows "version tx1 = version tx2 \<and> tokens tx1 = tokens tx2 \<and> outputs tx1 = outputs tx2 \<and>
    map outpoint (inputs tx1) = map outpoint (inputs tx2)"
proof -
  from tx_sighash_decode [OF assms(1,3)] tx_sighash_decode [OF assms(2,4)] map_outpoint_clear [of "inputs tx1"]
    map_outpoint_clear [of "inputs tx2"]
  show ?thesis by (metis Pair_inject sum.inject(2))
qed

theorem sighash_commits_witness:
  "\<exists>bs. tx_sighash_bytes True sample_tx = Inr bs \<and>
     tx_sighash_bytes True (sample_tx\<lparr>inputs := map clear_input (inputs sample_tx)\<rparr>) = Inr bs \<and>
     map outpoint (inputs sample_tx) = map outpoint (map clear_input (inputs sample_tx))"
proof -
  obtain bs where bs: "tx_sighash_bytes True sample_tx = Inr bs"
    by (auto simp: sample_tx_def tx_sighash_bytes_def get_sighash_bytes_def encoder_defs)
  have bs': "tx_sighash_bytes True (sample_tx\<lparr>inputs := map clear_input (inputs sample_tx)\<rparr>) = Inr bs"
    using bs by (simp add: sample_tx_def tx_sighash_bytes_def get_sighash_bytes_def clear_input_def)
  have wf: "tx_wf (sample_tx\<lparr>inputs := map clear_input (inputs sample_tx)\<rparr>)"
    using sample_tx_wf by (simp add: tx_wf_def txinput_wf_clear)
  from sighash_commits [OF sample_tx_wf(1) wf bs bs'] bs bs' show ?thesis by simp
qed

end
