(* ===== verification/Token_Creation_Format.thy ===== *)
theory Token_Creation_Format
  imports Tx_Format
begin

text \<open>
  The wire format of token creation transactions, \<^verbatim>\<open>hathor/transaction/token_creation_tx.py\<close>:
  a transaction whose funds carry the name and the symbol of a new token instead of a token
  list, and whose token list is its own hash.
\<close>

definition TOKEN_INFO_VERSION :: int where
  "TOKEN_INFO_VERSION = 1"

definition serialize_token_info :: "pystr \<times> pystr \<Rightarrow> bytes result" where
  "serialize_token_info = (\<lambda>(name, symbol).
     bindE (utf8_encode name) (\<lambda>encoded_name.
     bindE (utf8_encode symbol) (\<lambda>encoded_symbol.
     bindE (int_to_bytes TOKEN_INFO_VERSION 1) (\<lambda>v.
     bindE (int_to_bytes (int (length encoded_name)) 1) (\<lambda>n.
     bindE (int_to_bytes (int (length encoded_symbol)) 1) (\<lambda>m.
     Inr (v @ n @ encoded_name @ m @ encoded_symbol)))))))"

definition decode_string_utf8 :: "bytes \<Rightarrow> pystr result" where
  "decode_string_utf8 encoded =
     catchE (utf8_decode encoded) (\<lambda>e. if e = PyE UnicodeDecodeError then Inl (PyE StructError) else Inl e)"

definition deserialize_token_info :: "(pystr \<times> pystr) parser" where
  "deserialize_token_info buf =
     bindE (unpack_uint 1 buf) (\<lambda>(token_info_version, buf).
     bindE (guardE (token_info_version = TOKEN_INFO_VERSION) (PyE ValueError)) (\<lambda>_.
     bindE (unpack_uint 1 buf) (\<lambda>(name_len, buf).
     bindE (unpack_len (nat name_len) buf) (\<lambda>(name, buf).
     bindE (unpack_uint 1 buf) (\<lambda>(symbol_len, buf).
     bindE (unpack_len (nat symbol_len) buf) (\<lambda>(symbol, buf).
     bindE (decode_string_utf8 name) (\<lambda>decoded_name.
     bindE (decode_string_utf8 symbol) (\<lambda>decoded_symbol.
     Inr ((decoded_name, decoded_symbol), buf)))))))))"

definition tc_get_funds_struct :: "'a token_creation_tx_scheme \<Rightarrow> bytes result" where
  "tc_get_funds_struct tx =
     bindE (pack_fields [(2, version tx), (1, int (length (inputs tx))), (1, int (length (outputs tx)))]) (\<lambda>h.
     bindE (concatE txinput_bytes (inputs tx)) (\<lambda>is.
     bindE (concatE txoutput_bytes (outputs tx)) (\<lambda>os.
     bindE (serialize_token_info (token_name tx, token_symbol tx)) (\<lambda>t.
     Inr (h @ is @ os @ t)))))"

definition tc_get_funds_fields_from_struct ::
  "(int \<times> txinput list \<times> txoutput list \<times> pystr \<times> pystr) parser" where
  "tc_get_funds_fields_from_struct buf =
     bindE (unpack_uint 2 buf) (\<lambda>(ver, buf).
     bindE (unpack_uint 1 buf) (\<lambda>(inputs_len, buf).
     bindE (unpack_uint 1 buf) (\<lambda>(outputs_len, buf).
     bindE (repeatP (nat inputs_len) txinput_create_from_bytes buf) (\<lambda>(ins, buf).
     bindE (repeatP (nat outputs_len) txoutput_create_from_bytes buf) (\<lambda>(outs, buf).
     bindE (deserialize_token_info buf) (\<lambda>((name, symbol), buf).
     Inr ((ver, ins, outs, name, symbol), buf)))))))"

definition tc_get_struct :: "'a token_creation_tx_scheme \<Rightarrow> bytes result" where
  "tc_get_struct tx =
     bindE (tc_get_funds_struct tx) (\<lambda>f.
     bindE (get_graph_struct tx) (\<lambda>g.
     bindE (int_to_bytes (nonce tx) TX_NONCE_SIZE) (\<lambda>n. Inr (f @ g @ n))))"

definition tc_calculate_hash :: "(bytes \<Rightarrow> bytes) \<Rightarrow> 'a token_creation_tx_scheme \<Rightarrow> bytes result" where
  "tc_calculate_hash sha256 tx =
     calculate_hash sha256 (tc_get_funds_struct tx) (get_graph_struct tx) (nonce tx)"

text \<open>\<^verbatim>\<open>update_hash\<close> of a token creation also makes the hash the uid of the created token.\<close>

definition tc_update_hash :: "(bytes \<Rightarrow> bytes) \<Rightarrow> token_creation_tx \<Rightarrow> token_creation_tx result" where
  "tc_update_hash sha256 tx =
     bindE (tc_calculate_hash sha256 tx) (\<lambda>h. Inr (tx\<lparr>tx_hash := Some h, tokens := [h]\<rparr>))"

definition tc_create_from_struct :: "(bytes \<Rightarrow> bytes) \<Rightarrow> bytes \<Rightarrow> token_creation_tx result" where
  "tc_create_from_struct sha256 struct_bytes =
     bindE (tc_get_funds_fields_from_struct struct_bytes) (\<lambda>((ver, ins, outs, name, symbol), buf).
     bindE (get_graph_fields_from_struct buf) (\<lambda>((w, ts, ps), buf).
     bindE (guardE (length buf = TX_NONCE_SIZE) (PyE ValueError)) (\<lambda>_.
     bindE (unpack_uint 4 buf) (\<lambda>(n, _).
     tc_update_hash sha256 \<lparr>nonce = n, timestamp = ts, version = ver, weight = w, inputs = ins,
       outputs = outs, parents = ps, tx_hash = None, tokens = [],
       token_name = name, token_symbol = symbol\<rparr>))))"

definition tc_get_sighash_all :: "bool \<Rightarrow> 'a token_creation_tx_scheme \<Rightarrow> bytes result" where
  "tc_get_sighash_all clear_input_data tx =
     bindE (pack_fields [(2, version tx), (1, int (length (inputs tx))), (1, int (length (outputs tx)))]) (\<lambda>h.
     bindE (concatE (get_sighash_bytes clear_input_data) (inputs tx)) (\<lambda>is.
     bindE (concatE txoutput_bytes (outputs tx)) (\<lambda>os.
     bindE (serialize_token_info (token_name tx, token_symbol tx)) (\<lambda>t.
     Inr (h @ is @ os @ t)))))"

lemma decode_string_utf8_eq_Inr [result_iff]: "decode_string_utf8 bs = Inr s \<longleftrightarrow> utf8_encode s = Inr bs"
proof
  assume "decode_string_utf8 bs = Inr s"
  then have "utf8_decode bs = Inr s"
    by (cases "utf8_decode bs") (simp_all add: decode_string_utf8_def split: if_splits)
  then show "utf8_encode s = Inr bs" by (rule utf8_encode_decode)
next
  assume "utf8_encode s = Inr bs"
  then have "utf8_decode bs = Inr s" by (rule utf8_decode_encode)
  then show "decode_string_utf8 bs = Inr s" by (simp add: decode_string_utf8_def)
qed

interpretation token_info: wire_codec serialize_token_info deserialize_token_info "\<lambda>_. True" "\<lambda>_. True"
proof unfold_locales
  fix x bs rest
  assume "serialize_token_info x = Inr bs"
  then obtain n s where "utf8_encode (fst x) = Inr n" "utf8_encode (snd x) = Inr s"
    "length n < 256" "length s < 256" "bs = to_be 1 1 @ to_be 1 (length n) @ n @ to_be 1 (length s) @ s"
    by (cases x) (auto simp: serialize_token_info_def TOKEN_INFO_VERSION_def result_iff)
  moreover from this have "decode_string_utf8 n = Inr (fst x)" "decode_string_utf8 s = Inr (snd x)"
    by (simp_all add: result_iff)
  ultimately show "deserialize_token_info (bs @ rest) = Inr (x, rest)"
    by (simp add: deserialize_token_info_def TOKEN_INFO_VERSION_def)
next
  fix bs x rest
  assume "deserialize_token_info bs = Inr (x, rest)" and "rest \<noteq> []"
  then show "\<exists>used. serialize_token_info x = Inr used \<and> bs = used @ rest"
    by (auto simp: serialize_token_info_def deserialize_token_info_def TOKEN_INFO_VERSION_def
        int_to_bytes_def result_iff)
next
  fix x rest
  assume "deserialize_token_info [] = Inr (x, rest)"
  then show "rest = []" by (simp add: deserialize_token_info_def unpack_uint_def)
qed simp

lemma tc_get_funds_struct_iff:
  "tc_get_funds_struct tx = Inr bs \<longleftrightarrow>
     0 \<le> version tx \<and> version tx < 256 ^ 2 \<and> length (inputs tx) < 256 \<and> length (outputs tx) < 256 \<and>
     (\<exists>is os t. concatE txinput_bytes (inputs tx) = Inr is \<and> concatE txoutput_bytes (outputs tx) = Inr os \<and>
        serialize_token_info (token_name tx, token_symbol tx) = Inr t \<and>
        bs = to_be 2 (nat (version tx)) @ to_be 1 (length (inputs tx))
           @ to_be 1 (length (outputs tx)) @ is @ os @ t)"
  by (auto simp: tc_get_funds_struct_def result_iff)

lemma tc_funds_dec_enc:
  assumes "list_all txinput_wf (inputs tx)" and "tc_get_funds_struct tx = Inr bs"
  shows "tc_get_funds_fields_from_struct (bs @ rest) =
    Inr ((version tx, inputs tx, outputs tx, token_name tx, token_symbol tx), rest)"
proof -
  from assms(2) obtain "is" os t where enc: "concatE txinput_bytes (inputs tx) = Inr is"
    "concatE txoutput_bytes (outputs tx) = Inr os"
    "serialize_token_info (token_name tx, token_symbol tx) = Inr t"
    and "bs = to_be 2 (nat (version tx)) @ to_be 1 (length (inputs tx))
           @ to_be 1 (length (outputs tx)) @ is @ os @ t"
    "0 \<le> version tx" "version tx < 256 ^ 2" "length (inputs tx) < 256" "length (outputs tx) < 256"
    by (auto simp: tc_get_funds_struct_iff)
  moreover have "list_all (\<lambda>_. True) (outputs tx)" by (simp add: list_all_iff)
  ultimately show ?thesis
    using txinput.repeat_dec_enc [OF assms(1) enc(1)] txoutput.repeat_dec_enc [OF _ enc(2)]
      token_info.dec_enc [OF _ enc(3)]
    by (simp add: tc_get_funds_fields_from_struct_def)
qed

lemma tc_funds_enc_dec:
  assumes "tc_get_funds_fields_from_struct bs =
      Inr ((version tx, inputs tx, outputs tx, token_name tx, token_symbol tx), rest)"
    and "rest \<noteq> []" and "outputs_canon tx"
  shows "\<exists>used. tc_get_funds_struct tx = Inr used \<and> bs = used @ rest"
    and "list_all txinput_wf (inputs tx)"
proof -
  from assms(1) obtain b c b1 b2 b3 where hdr:
    "bs = to_be 2 (nat (version tx)) @ to_be 1 (nat b) @ to_be 1 (nat c) @ b1"
    "0 \<le> version tx" "version tx < 256 ^ 2" "0 \<le> b" "b < 256" "0 \<le> c" "c < 256"
    and ins: "repeatP (nat b) txinput_create_from_bytes b1 = Inr (inputs tx, b2)"
    and outs: "repeatP (nat c) txoutput_create_from_bytes b2 = Inr (outputs tx, b3)"
    and info: "deserialize_token_info b3 = Inr ((token_name tx, token_symbol tx), rest)"
    by (auto simp: tc_get_funds_fields_from_struct_def result_iff)
  from info assms(2) have b3: "b3 \<noteq> []" using token_info.dec_nil by auto
  with outs have b2: "b2 \<noteq> []" using txoutput.repeat_nil by auto
  from txoutput.repeat_enc_dec [OF outs b3] assms(3) obtain os where
    "concatE txoutput_bytes (outputs tx) = Inr os" "b2 = os @ b3" by (auto simp: outputs_canon_def)
  moreover from txinput.repeat_enc_dec [OF ins b2] obtain "is" where
    "concatE txinput_bytes (inputs tx) = Inr is" "b1 = is @ b2" by (auto simp: list_all_iff)
  moreover from token_info.enc_dec [OF info assms(2)] obtain t where
    "serialize_token_info (token_name tx, token_symbol tx) = Inr t" "b3 = t @ rest" by auto
  moreover note hdr repeatP_length [OF ins] repeatP_length [OF outs]
  ultimately show "\<exists>used. tc_get_funds_struct tx = Inr used \<and> bs = used @ rest"
    by (auto simp: tc_get_funds_struct_iff)
  show "list_all txinput_wf (inputs tx)" by (rule txinput.repeat_wf [OF ins b2])
qed

lemma tc_get_struct_iff:
  "tc_get_struct tx = Inr bs \<longleftrightarrow>
     (\<exists>f g. tc_get_funds_struct tx = Inr f \<and> get_graph_struct tx = Inr g \<and>
        0 \<le> nonce tx \<and> nonce tx < 256 ^ 4 \<and> bs = f @ g @ to_be 4 (nat (nonce tx)))"
  by (auto simp: tc_get_struct_def TX_NONCE_SIZE_def result_iff)

lemma tc_calculate_hash_eq:
  "tc_calculate_hash sha256 \<lparr>nonce = n, timestamp = ts, version = v, weight = w, inputs = is,
     outputs = os, parents = ps, tx_hash = Some h, tokens = toks, token_name = a, token_symbol = b\<rparr> =
   tc_calculate_hash sha256 \<lparr>nonce = n, timestamp = ts, version = v, weight = w, inputs = is,
     outputs = os, parents = ps, tx_hash = None, tokens = [], token_name = a, token_symbol = b\<rparr>"
  by (simp add: tc_calculate_hash_def tc_get_funds_struct_def get_graph_struct_def)

lemma tc_create_get_struct:
  assumes "hashes_wf (parents tx)" and "list_all txinput_wf (inputs tx)"
    and "tc_get_struct tx = Inr bs" and "tc_calculate_hash sha256 tx = Inr h"
    and "tx_hash tx = Some h" and "tokens tx = [h]"
  shows "tc_create_from_struct sha256 bs = Inr tx"
proof -
  from assms(3) obtain f g where fg: "tc_get_funds_struct tx = Inr f" "get_graph_struct tx = Inr g"
    and bs: "bs = f @ g @ to_be 4 (nat (nonce tx))" and n: "0 \<le> nonce tx" "nonce tx < 256 ^ 4"
    by (auto simp: tc_get_struct_iff)
  have "unpack_uint 4 (to_be 4 (nat (nonce tx))) = Inr (nonce tx, [])"
    using unpack_uint_to_be [OF n, of "[]"] by simp
  moreover have "tc_update_hash sha256 \<lparr>nonce = nonce tx, timestamp = timestamp tx, version = version tx,
      weight = weight tx, inputs = inputs tx, outputs = outputs tx, parents = parents tx, tx_hash = None,
      tokens = [], token_name = token_name tx, token_symbol = token_symbol tx\<rparr> = Inr tx"
    using assms(4-6) by (cases tx) (simp add: tc_update_hash_def tc_calculate_hash_eq)
  ultimately show ?thesis
    using tc_funds_dec_enc [OF assms(2) fg(1)] graph_dec_enc [OF assms(1) fg(2)] bs
    by (simp add: tc_create_from_struct_def TX_NONCE_SIZE_def)
qed

lemma tc_get_create_struct:
  assumes "tc_create_from_struct sha256 bs = Inr tx" and "outputs_canon tx"
  shows "tc_get_struct tx = Inr bs \<and> hashes_wf (parents tx) \<and> list_all txinput_wf (inputs tx) \<and>
    (\<exists>h. tc_calculate_hash sha256 tx = Inr h \<and> tx_hash tx = Some h \<and> tokens tx = [h])"
proof -
  from assms(1) obtain b1 b2 rest h where
    funds: "tc_get_funds_fields_from_struct bs =
      Inr ((version tx, inputs tx, outputs tx, token_name tx, token_symbol tx), b1)"
    and graph: "get_graph_fields_from_struct b1 = Inr ((weight tx, timestamp tx, parents tx), b2)"
    and b2: "length b2 = 4" "unpack_uint 4 b2 = Inr (nonce tx, rest)"
    and h: "tx_hash tx = Some h" "tc_calculate_hash sha256 tx = Inr h" "tokens tx = [h]"
    by (auto simp: tc_create_from_struct_def tc_update_hash_def TX_NONCE_SIZE_def
        tc_calculate_hash_eq result_iff)
  from b2 have n: "b2 = to_be 4 (nat (nonce tx))" "0 \<le> nonce tx" "nonce tx < 256 ^ 4"
    by (auto simp: result_iff)
  then have b2_ne: "b2 \<noteq> []" by simp
  from graph have b1_ne: "b1 \<noteq> []"
    by (auto simp: get_graph_fields_from_struct_def unpack_double_def unpack_uint_def)
  show ?thesis
    using tc_funds_enc_dec [OF funds b1_ne assms(2)] graph_enc_dec [OF graph b2_ne] n h
    by (auto simp: tc_get_struct_iff)
qed

text \<open>
  The decoder of token creation transactions is exactly the inverse of the encoder, UTF-8
  decoding of the name and the symbol included; the token list, which is not on the wire, is
  the hash.
\<close>

theorem tc_struct_exact:
  assumes "outputs_canon tx"
  shows "tc_create_from_struct sha256 bs = Inr tx \<longleftrightarrow>
    tc_get_struct tx = Inr bs \<and> hashes_wf (parents tx) \<and> list_all txinput_wf (inputs tx) \<and>
    (\<exists>h. tc_calculate_hash sha256 tx = Inr h \<and> tx_hash tx = Some h \<and> tokens tx = [h])"
  using tc_get_create_struct [OF _ assms] tc_create_get_struct by metis

definition sample_tc :: token_creation_tx where
  "sample_tc = \<lparr>nonce = 7, timestamp = 1578075305, version = 2, weight = 0x4035000000000000,
     inputs = [\<lparr>ti_tx_id = replicate 32 9, ti_index = 1, ti_data = [1, 2]\<rparr>],
     outputs = [\<lparr>to_value = 500, to_script = [0x51], to_token_data = 1\<rparr>],
     parents = [replicate 32 1, replicate 32 2], tx_hash = Some (replicate 32 0),
     tokens = [replicate 32 0], token_name = [0x54, 0xE9], token_symbol = [0x54]\<rparr>"

theorem tc_struct_exact_witness:
  "outputs_canon sample_tc \<and>
   (\<exists>bs. tc_get_struct sample_tc = Inr bs \<and> tc_create_from_struct sample_sha256 bs = Inr sample_tc)"
proof -
  have "outputs_canon sample_tc" "hashes_wf (parents sample_tc)" "list_all txinput_wf (inputs sample_tc)"
    "tokens sample_tc = [replicate 32 0]" "tx_hash sample_tc = Some (replicate 32 0)"
    by (simp_all add: sample_tc_def outputs_canon_def txoutput_canon_def MAX_OUTPUT_VALUE_32_def
        hashes_wf_def TX_HASH_SIZE_def txinput_wf_def)
  moreover have "\<exists>bs. tc_get_struct sample_tc = Inr bs"
    "tc_calculate_hash sample_sha256 sample_tc = Inr (replicate 32 0)"
    by (simp_all add: sample_tc_def tc_get_struct_def tc_get_funds_struct_def TX_NONCE_SIZE_def
        tc_calculate_hash_def calculate_hash_def calculate_hash2_def sample_sha256_def
        serialize_token_info_def utf8_encode_def utf8_enc_char_def TOKEN_INFO_VERSION_def encoder_defs)
  ultimately show ?thesis using tc_struct_exact [of sample_tc sample_sha256] by auto
qed

lemma tc_get_sighash_all_eq:
  "tc_get_sighash_all c tx = tc_get_funds_struct (tx\<lparr>inputs := if c then map clear_input (inputs tx) else inputs tx\<rparr>)"
  by (simp add: tc_get_sighash_all_def tc_get_funds_struct_def concatE_sighash)

lemma tc_sighash_decode:
  assumes "list_all txinput_wf (inputs tx)" and "tc_get_sighash_all True tx = Inr bs"
  shows "tc_get_funds_fields_from_struct bs =
    Inr ((version tx, map clear_input (inputs tx), outputs tx, token_name tx, token_symbol tx), [])"
  using assms tc_funds_dec_enc [of "tx\<lparr>inputs := map clear_input (inputs tx)\<rparr>" bs "[]"]
  by (simp add: tc_get_sighash_all_eq txinput_wf_clear)

theorem tc_sighash_commits:
  assumes "list_all txinput_wf (inputs tx1)" and "list_all txinput_wf (inputs tx2)"
    and "tc_get_sighash_all True tx1 = Inr bs" and "tc_get_sighash_all True tx2 = Inr bs"
  shows "version tx1 = version tx2 \<and> outputs tx1 = outputs tx2 \<and> token_name tx1 = token_name tx2 \<and>
    token_symbol tx1 = token_symbol tx2 \<and> map outpoint (inputs tx1) = map outpoint (inputs tx2)"
proof -
  from tc_sighash_decode [OF assms(1,3)] tc_sighash_decode [OF assms(2,4)] map_outpoint_clear [of "inputs tx1"]
    map_outpoint_clear [of "inputs tx2"]
  show ?thesis by (metis Pair_inject sum.inject(2))
qed

end
