(* ===== verification/Block_Format.thy ===== *)
theory Block_Format
  imports Tx_Format
begin

text \<open>
  The wire format of blocks, \<^verbatim>\<open>hathor/transaction/block.py\<close>: outputs only, the graph fields
  followed by a data field of at most 255 bytes, and a nonce of 16 bytes.
\<close>

definition BLOCK_NONCE_SIZE :: nat where
  "BLOCK_NONCE_SIZE = 16"

definition blk_get_funds_struct :: "'a block_scheme \<Rightarrow> bytes result" where
  "blk_get_funds_struct b =
     bindE (pack_fields [(2, version b), (1, int (length (outputs b)))]) (\<lambda>h.
     bindE (concatE txoutput_bytes (outputs b)) (\<lambda>os. Inr (h @ os)))"

definition blk_get_funds_fields_from_struct :: "(int \<times> txoutput list) parser" where
  "blk_get_funds_fields_from_struct buf =
     bindE (unpack_uint 2 buf) (\<lambda>(ver, buf).
     bindE (unpack_uint 1 buf) (\<lambda>(outputs_len, buf).
     bindE (repeatP (nat outputs_len) txoutput_create_from_bytes buf) (\<lambda>(outs, buf).
     Inr ((ver, outs), buf))))"

definition blk_get_graph_struct :: "'a block_scheme \<Rightarrow> bytes result" where
  "blk_get_graph_struct b =
     bindE (get_graph_struct b) (\<lambda>struct_bytes_without_data.
     bindE (int_to_bytes (int (length (blk_data b))) 1) (\<lambda>data_bytes.
     Inr (struct_bytes_without_data @ data_bytes @ blk_data b)))"

definition blk_get_graph_fields_from_struct :: "(float64 \<times> int \<times> bytes list \<times> bytes) parser" where
  "blk_get_graph_fields_from_struct buf =
     bindE (get_graph_fields_from_struct buf) (\<lambda>((w, ts, ps), buf).
     bindE (unpack_uint 1 buf) (\<lambda>(data_bytes, buf).
     bindE (unpack_len (nat data_bytes) buf) (\<lambda>(d, buf).
     Inr ((w, ts, ps, d), buf))))"

definition blk_get_struct :: "'a block_scheme \<Rightarrow> bytes result" where
  "blk_get_struct b =
     bindE (blk_get_funds_struct b) (\<lambda>f.
     bindE (blk_get_graph_struct b) (\<lambda>g.
     bindE (int_to_bytes (nonce b) BLOCK_NONCE_SIZE) (\<lambda>n. Inr (f @ g @ n))))"

definition blk_calculate_hash :: "(bytes \<Rightarrow> bytes) \<Rightarrow> 'a block_scheme \<Rightarrow> bytes result" where
  "blk_calculate_hash sha256 b =
     calculate_hash sha256 (blk_get_funds_struct b) (blk_get_graph_struct b) (nonce b)"

definition blk_create_from_struct :: "(bytes \<Rightarrow> bytes) \<Rightarrow> bytes \<Rightarrow> block result" where
  "blk_create_from_struct sha256 struct_bytes =
     bindE (blk_get_funds_fields_from_struct struct_bytes) (\<lambda>((ver, outs), buf).
     bindE (blk_get_graph_fields_from_struct buf) (\<lambda>((w, ts, ps, d), buf).
     (let b = \<lparr>nonce = int (from_be buf), timestamp = ts, version = ver, weight = w, inputs = [],
               outputs = outs, parents = ps, tx_hash = None, blk_data = d\<rparr> in
      bindE (guardE (length buf = BLOCK_NONCE_SIZE) (PyE ValueError)) (\<lambda>_.
      bindE (blk_calculate_hash sha256 b) (\<lambda>h. Inr (b\<lparr>tx_hash := Some h\<rparr>))))))"

text \<open>\<^verbatim>\<open>get_token_uid\<close> of a block: only HTR.\<close>

definition blk_get_token_uid :: "int \<Rightarrow> bytes result" where
  "blk_get_token_uid index = bindE (guardE (index = 0) (PyE AssertionError)) (\<lambda>_. Inr HATHOR_TOKEN_UID)"

lemma blk_funds_dec_enc:
  assumes "blk_get_funds_struct b = Inr bs"
  shows "blk_get_funds_fields_from_struct (bs @ rest) = Inr ((version b, outputs b), rest)"
proof -
  from assms obtain os where os: "concatE txoutput_bytes (outputs b) = Inr os"
    and "bs = to_be 2 (nat (version b)) @ to_be 1 (length (outputs b)) @ os"
    "0 \<le> version b" "version b < 256 ^ 2" "length (outputs b) < 256"
    by (auto simp: blk_get_funds_struct_def result_iff)
  moreover have "list_all (\<lambda>_. True) (outputs b)" by (simp add: list_all_iff)
  ultimately show ?thesis
    using txoutput.repeat_dec_enc [OF _ os] by (simp add: blk_get_funds_fields_from_struct_def)
qed

lemma blk_funds_enc_dec:
  assumes "blk_get_funds_fields_from_struct bs = Inr ((version b, outputs b), rest)"
    and "rest \<noteq> []" and "outputs_canon b"
  shows "\<exists>used. blk_get_funds_struct b = Inr used \<and> bs = used @ rest"
proof -
  from assms(1) obtain c b1 where "bs = to_be 2 (nat (version b)) @ to_be 1 (nat c) @ b1"
    "0 \<le> version b" "version b < 256 ^ 2" "0 \<le> c" "c < 256"
    and outs: "repeatP (nat c) txoutput_create_from_bytes b1 = Inr (outputs b, rest)"
    by (auto simp: blk_get_funds_fields_from_struct_def result_iff)
  with txoutput.repeat_enc_dec [OF outs assms(2)] assms(3) repeatP_length [OF outs]
  show ?thesis by (auto simp: blk_get_funds_struct_def outputs_canon_def result_iff)
qed

lemma blk_graph_dec_enc:
  assumes "hashes_wf (parents b)" and "blk_get_graph_struct b = Inr bs"
  shows "blk_get_graph_fields_from_struct (bs @ rest) =
    Inr ((weight b, timestamp b, parents b, blk_data b), rest)"
proof -
  from assms(2) obtain g where "get_graph_struct b = Inr g" "length (blk_data b) < 256"
    "bs = g @ to_be 1 (length (blk_data b)) @ blk_data b"
    by (auto simp: blk_get_graph_struct_def result_iff)
  with graph_dec_enc [OF assms(1) this(1)] show ?thesis
    by (simp add: blk_get_graph_fields_from_struct_def)
qed

lemma blk_graph_enc_dec:
  assumes "blk_get_graph_fields_from_struct bs = Inr ((weight b, timestamp b, parents b, blk_data b), rest)"
    and "rest \<noteq> []"
  shows "\<exists>used. blk_get_graph_struct b = Inr used \<and> bs = used @ rest" and "hashes_wf (parents b)"
proof -
  from assms(1) obtain b1 k b2 where
    graph: "get_graph_fields_from_struct bs = Inr ((weight b, timestamp b, parents b), b1)"
    and "b1 = to_be 1 (nat k) @ b2" "0 \<le> k" "k < 256" "unpack_len (nat k) b2 = Inr (blk_data b, rest)"
    by (auto simp: blk_get_graph_fields_from_struct_def result_iff)
  with graph_enc_dec [OF graph] assms(2)
  show "\<exists>used. blk_get_graph_struct b = Inr used \<and> bs = used @ rest" and "hashes_wf (parents b)"
    by (auto simp: blk_get_graph_struct_def result_iff)
qed

lemma blk_get_struct_iff:
  "blk_get_struct b = Inr bs \<longleftrightarrow>
     (\<exists>f g. blk_get_funds_struct b = Inr f \<and> blk_get_graph_struct b = Inr g \<and>
        0 \<le> nonce b \<and> nonce b < 256 ^ 16 \<and> bs = f @ g @ to_be 16 (nat (nonce b)))"
  by (auto simp: blk_get_struct_def BLOCK_NONCE_SIZE_def result_iff)

lemma blk_calculate_hash_Some:
  "blk_calculate_hash sha256 \<lparr>nonce = n, timestamp = ts, version = v, weight = w, inputs = is,
     outputs = os, parents = ps, tx_hash = Some h, blk_data = d\<rparr> =
   blk_calculate_hash sha256 \<lparr>nonce = n, timestamp = ts, version = v, weight = w, inputs = is,
     outputs = os, parents = ps, tx_hash = None, blk_data = d\<rparr>"
  by (simp add: blk_calculate_hash_def blk_get_funds_struct_def blk_get_graph_struct_def get_graph_struct_def)

lemma blk_create_get_struct:
  assumes "hashes_wf (parents b)" and "inputs b = []" and "blk_get_struct b = Inr bs"
    and "blk_calculate_hash sha256 b = Inr h" and "tx_hash b = Some h"
  shows "blk_create_from_struct sha256 bs = Inr b"
proof -
  from assms(3) obtain f g where fg: "blk_get_funds_struct b = Inr f" "blk_get_graph_struct b = Inr g"
    and bs: "bs = f @ g @ to_be 16 (nat (nonce b))" and n: "0 \<le> nonce b" "nonce b < 256 ^ 16"
    by (auto simp: blk_get_struct_iff)
  have "int (from_be (to_be 16 (nat (nonce b)))) = nonce b"
    using n nat_less_pow256 [OF n] by simp
  moreover have "bindE (blk_calculate_hash sha256 \<lparr>nonce = nonce b, timestamp = timestamp b, version = version b,
      weight = weight b, inputs = [], outputs = outputs b, parents = parents b, tx_hash = None,
      blk_data = blk_data b\<rparr>) (\<lambda>h. Inr \<lparr>nonce = nonce b, timestamp = timestamp b, version = version b,
      weight = weight b, inputs = [], outputs = outputs b, parents = parents b, tx_hash = Some h,
      blk_data = blk_data b\<rparr>) = Inr b"
    using assms(2,4,5) by (cases b) (simp add: blk_calculate_hash_Some)
  ultimately show ?thesis
    using blk_funds_dec_enc [OF fg(1)] blk_graph_dec_enc [OF assms(1) fg(2)] bs
    by (simp add: blk_create_from_struct_def BLOCK_NONCE_SIZE_def Let_def)
qed

lemma blk_get_create_struct:
  assumes "blk_create_from_struct sha256 bs = Inr b" and "outputs_canon b"
  shows "blk_get_struct b = Inr bs \<and> hashes_wf (parents b) \<and> inputs b = [] \<and>
    (\<exists>h. blk_calculate_hash sha256 b = Inr h \<and> tx_hash b = Some h)"
proof -
  from assms(1) obtain b1 b2 h where
    funds: "blk_get_funds_fields_from_struct bs = Inr ((version b, outputs b), b1)"
    and graph: "blk_get_graph_fields_from_struct b1 = Inr ((weight b, timestamp b, parents b, blk_data b), b2)"
    and b2: "length b2 = 16" "nonce b = int (from_be b2)"
    and h: "inputs b = []" "tx_hash b = Some h" "blk_calculate_hash sha256 b = Inr h"
    by (auto simp: blk_create_from_struct_def BLOCK_NONCE_SIZE_def Let_def blk_calculate_hash_Some result_iff)
  have n: "b2 = to_be 16 (nat (nonce b))" "0 \<le> nonce b" "nonce b < 256 ^ 16"
    using b2 to_be_from_be [of b2] from_be_less [of b2] by simp_all
  from b2 have b2_ne: "b2 \<noteq> []" by auto
  from graph have b1_ne: "b1 \<noteq> []"
    by (auto simp: blk_get_graph_fields_from_struct_def get_graph_fields_from_struct_def unpack_double_def
        unpack_uint_def)
  show ?thesis
    using blk_funds_enc_dec [OF funds b1_ne assms(2)] blk_graph_enc_dec [OF graph b2_ne] n h
    by (auto simp: blk_get_struct_iff)
qed

text \<open>
  The decoder of blocks is exactly the inverse of the encoder, for the outputs, the graph
  fields, the data field and the nonce of 128 bits.
\<close>

theorem blk_struct_exact:
  assumes "outputs_canon b"
  shows "blk_create_from_struct sha256 bs = Inr b \<longleftrightarrow>
    blk_get_struct b = Inr bs \<and> hashes_wf (parents b) \<and> inputs b = [] \<and>
    (\<exists>h. blk_calculate_hash sha256 b = Inr h \<and> tx_hash b = Some h)"
  using blk_get_create_struct [OF _ assms] blk_create_get_struct by metis

definition sample_block :: block where
  "sample_block = \<lparr>nonce = 2 ^ 100, timestamp = 1578075305, version = 0, weight = 0x4035000000000000,
     inputs = [], outputs = [\<lparr>to_value = 6400, to_script = [0x51], to_token_data = 0\<rparr>],
     parents = [replicate 32 1, replicate 32 2, replicate 32 3], tx_hash = Some (replicate 32 0),
     blk_data = [0x68, 0x69]\<rparr>"

theorem blk_struct_exact_witness:
  "outputs_canon sample_block \<and>
   (\<exists>bs. blk_get_struct sample_block = Inr bs \<and> blk_create_from_struct sample_sha256 bs = Inr sample_block)"
proof -
  have "outputs_canon sample_block" "hashes_wf (parents sample_block)" "inputs sample_block = []"
    "tx_hash sample_block = Some (replicate 32 0)"
    by (simp_all add: sample_block_def outputs_canon_def txoutput_canon_def MAX_OUTPUT_VALUE_32_def
        hashes_wf_def TX_HASH_SIZE_def)
  moreover have "\<exists>bs. blk_get_struct sample_block = Inr bs"
    "blk_calculate_hash sample_sha256 sample_block = Inr (replicate 32 0)"
    by (simp_all add: sample_block_def blk_get_struct_def blk_get_funds_struct_def blk_get_graph_struct_def
        blk_calculate_hash_def calculate_hash_def calculate_hash2_def sample_sha256_def
        BLOCK_NONCE_SIZE_def encoder_defs)
  ultimately show ?thesis using blk_struct_exact [of sample_block sample_sha256] by auto
qed

end
