(* ===== verification/Crypto_Util.thy ===== *)
theory Crypto_Util
  imports Py_Str
begin

text \<open>
  Addresses, \<^verbatim>\<open>hathor/crypto/util.py\<close>. The cryptographic primitives and base58 come from
  packages outside the repository: they are the fields of a record that every function takes.
\<close>

record crypto =
  sha256 :: "bytes \<Rightarrow> bytes"
  ripemd160 :: "bytes \<Rightarrow> bytes"
  pubkey_valid :: "bytes \<Rightarrow> bool"
  ecdsa_verify :: "bytes \<Rightarrow> bytes \<Rightarrow> bytes \<Rightarrow> bool"
  b58encode :: "bytes \<Rightarrow> pystr"
  b58decode :: "pystr \<Rightarrow> bytes result"

text \<open>The settings that differ between networks and that addresses depend on.\<close>

record net_settings =
  P2PKH_VERSION_BYTE :: bytes
  MULTISIG_VERSION_BYTE :: bytes

definition mainnet_settings :: net_settings where
  "mainnet_settings = \<lparr>P2PKH_VERSION_BYTE = [0x28], MULTISIG_VERSION_BYTE = [0x64]\<rparr>"

definition get_hash160 :: "crypto \<Rightarrow> bytes \<Rightarrow> bytes" where
  "get_hash160 cr public_key_bytes = ripemd160 cr (sha256 cr public_key_bytes)"

definition get_checksum :: "crypto \<Rightarrow> bytes \<Rightarrow> bytes" where
  "get_checksum cr address_bytes = take 4 (sha256 cr (sha256 cr address_bytes))"

definition get_address_from_public_key_hash :: "crypto \<Rightarrow> bytes \<Rightarrow> bytes \<Rightarrow> bytes" where
  "get_address_from_public_key_hash cr public_key_hash version_byte =
     (let address = version_byte @ public_key_hash in address @ get_checksum cr address)"

definition get_address_from_redeem_script_hash :: "crypto \<Rightarrow> bytes \<Rightarrow> bytes \<Rightarrow> bytes" where
  "get_address_from_redeem_script_hash cr redeem_script_hash version_byte =
     (let address = version_byte @ redeem_script_hash in address @ get_checksum cr address)"

definition get_address_b58_from_bytes :: "crypto \<Rightarrow> bytes \<Rightarrow> pystr" where
  "get_address_b58_from_bytes cr address = b58encode cr address"

definition get_address_from_public_key_bytes :: "crypto \<Rightarrow> net_settings \<Rightarrow> bytes \<Rightarrow> bytes" where
  "get_address_from_public_key_bytes cr st public_key_bytes =
     get_address_from_public_key_hash cr (get_hash160 cr public_key_bytes) (P2PKH_VERSION_BYTE st)"

definition get_address_b58_from_public_key_hash :: "crypto \<Rightarrow> net_settings \<Rightarrow> bytes \<Rightarrow> pystr" where
  "get_address_b58_from_public_key_hash cr st public_key_hash =
     b58encode cr (get_address_from_public_key_hash cr public_key_hash (P2PKH_VERSION_BYTE st))"

definition get_address_b58_from_public_key_bytes :: "crypto \<Rightarrow> net_settings \<Rightarrow> bytes \<Rightarrow> pystr" where
  "get_address_b58_from_public_key_bytes cr st public_key_bytes =
     get_address_b58_from_public_key_hash cr st (get_hash160 cr public_key_bytes)"

definition get_address_b58_from_redeem_script_hash :: "crypto \<Rightarrow> net_settings \<Rightarrow> bytes \<Rightarrow> pystr" where
  "get_address_b58_from_redeem_script_hash cr st redeem_script_hash =
     b58encode cr (get_address_from_redeem_script_hash cr redeem_script_hash (MULTISIG_VERSION_BYTE st))"

text \<open>\<^verbatim>\<open>get_public_key_from_bytes_compressed\<close>: a point that is not on the curve is a \<^verbatim>\<open>ValueError\<close>.\<close>

definition get_public_key_from_bytes_compressed :: "crypto \<Rightarrow> bytes \<Rightarrow> bytes result" where
  "get_public_key_from_bytes_compressed cr public_key_bytes =
     bindE (guardE (pubkey_valid cr public_key_bytes) (PyE ValueError)) (\<lambda>_. Inr public_key_bytes)"

definition decode_address :: "crypto \<Rightarrow> pystr \<Rightarrow> bytes result" where
  "decode_address cr address58 =
     bindE (catchE (b58decode cr address58)
              (\<lambda>e. if is_ValueError e then Inl (HathorE InvalidAddress) else Inl e)) (\<lambda>decoded_address.
     bindE (guardE (length decoded_address = 25) (HathorE InvalidAddress)) (\<lambda>_.
     (let address_checksum = drop 21 decoded_address;
          valid_checksum = get_checksum cr (take 21 decoded_address) in
      bindE (guardE (address_checksum = valid_checksum) (HathorE InvalidAddress)) (\<lambda>_.
      Inr decoded_address))))"

text \<open>
  What the code relies on: SHA-256 gives 32 bytes and RIPEMD-160 gives 20, base58 decoding
  undoes base58 encoding, and fails with a \<^verbatim>\<open>ValueError\<close> only.
\<close>

definition crypto_ok :: "crypto \<Rightarrow> bool" where
  "crypto_ok cr \<longleftrightarrow> (\<forall>x. length (sha256 cr x) = 32) \<and> (\<forall>x. length (ripemd160 cr x) = 20) \<and>
     (\<forall>x. b58decode cr (b58encode cr x) = Inr x) \<and>
     (\<forall>s e. b58decode cr s = Inl e \<longrightarrow> is_ValueError e)"

lemma crypto_okD:
  assumes "crypto_ok cr"
  shows "length (sha256 cr x) = 32" and "length (ripemd160 cr x) = 20"
    and "b58decode cr (b58encode cr x) = Inr x" and "length (get_hash160 cr x) = 20"
    and "length (get_checksum cr x) = 4"
  using assms by (simp_all add: crypto_ok_def get_hash160_def get_checksum_def)

definition address_wf :: "crypto \<Rightarrow> bytes \<Rightarrow> bool" where
  "address_wf cr a \<longleftrightarrow> (\<exists>v h. length v = 1 \<and> length h = 20 \<and> a = v @ h @ get_checksum cr (v @ h))"

lemma address_from_hash_wf:
  "length v = 1 \<Longrightarrow> length h = 20 \<Longrightarrow> address_wf cr (get_address_from_public_key_hash cr h v)"
  "length v = 1 \<Longrightarrow> length h = 20 \<Longrightarrow> address_wf cr (get_address_from_redeem_script_hash cr h v)"
  by (auto simp: address_wf_def get_address_from_public_key_hash_def get_address_from_redeem_script_hash_def Let_def)

lemma address_wf_length: "crypto_ok cr \<Longrightarrow> address_wf cr a \<Longrightarrow> length a = 25"
  by (auto simp: address_wf_def crypto_okD)

lemma address_wf_iff:
  assumes "crypto_ok cr"
  shows "address_wf cr a \<longleftrightarrow> length a = 25 \<and> drop 21 a = get_checksum cr (take 21 a)"
proof
  assume "address_wf cr a"
  with assms show "length a = 25 \<and> drop 21 a = get_checksum cr (take 21 a)"
    by (auto simp: address_wf_def crypto_okD)
next
  assume a: "length a = 25 \<and> drop 21 a = get_checksum cr (take 21 a)"
  then have "a = take 1 a @ take 20 (drop 1 a) @ get_checksum cr (take 1 a @ take 20 (drop 1 a))"
    using append_take_drop_id [of 21 a] take_add [of 1 20 a] by simp
  moreover from a have "length (take 1 a) = 1" "length (take 20 (drop 1 a)) = 20" by simp_all
  ultimately show "address_wf cr a" unfolding address_wf_def by blast
qed

text \<open>
  C8: \<^verbatim>\<open>decode_address\<close> returns exactly the well-formed addresses (a version byte, a hash of
  20 bytes and its checksum), every address the code generates is decoded to the bytes it
  was made from, and anything else is an \<^verbatim>\<open>InvalidAddress\<close> and no other exception.
\<close>

theorem decode_address_correct:
  assumes "crypto_ok cr"
  shows "(\<forall>a. decode_address cr s = Inr a \<longleftrightarrow> b58decode cr s = Inr a \<and> address_wf cr a) \<and>
    (\<forall>e. decode_address cr s = Inl e \<longrightarrow> e = HathorE InvalidAddress) \<and>
    (\<forall>a. address_wf cr a \<longrightarrow> decode_address cr (get_address_b58_from_bytes cr a) = Inr a)"
proof (intro conjI allI impI)
  fix a
  show "decode_address cr s = Inr a \<longleftrightarrow> b58decode cr s = Inr a \<and> address_wf cr a"
    using address_wf_iff [OF assms]
    by (cases "b58decode cr s") (auto simp: decode_address_def Let_def result_iff)
next
  fix e
  assume "decode_address cr s = Inl e"
  with assms show "e = HathorE InvalidAddress"
    by (cases "b58decode cr s")
      (auto simp: decode_address_def Let_def crypto_ok_def bindE_eq_Inl guardE_eq_Inl)
next
  fix a
  assume "address_wf cr a"
  with address_wf_iff [OF assms] crypto_okD(3) [OF assms]
  show "decode_address cr (get_address_b58_from_bytes cr a) = Inr a"
    by (simp add: decode_address_def get_address_b58_from_bytes_def)
qed

text \<open>A concrete instance of the primitives, for examples: short hashes and a hex-like text encoding.\<close>

definition sample_crypto :: crypto where
  "sample_crypto = \<lparr>sha256 = (\<lambda>x. take 32 (x @ replicate 32 0)), ripemd160 = (\<lambda>x. take 20 (x @ replicate 20 0)),
     pubkey_valid = (\<lambda>p. length p = 33), ecdsa_verify = (\<lambda>p s d. s = take 3 p),
     b58encode = map unat, b58decode = (\<lambda>s. if list_all (\<lambda>c. c < 256) s then Inr (map byte_of s) else Inl (PyE ValueError))\<rparr>"

lemma sample_crypto_ok: "crypto_ok sample_crypto"
  by (auto simp: crypto_ok_def sample_crypto_def list_all_iff comp_def)

theorem decode_address_correct_witness:
  "decode_address sample_crypto
     (get_address_b58_from_bytes sample_crypto
       (get_address_from_public_key_hash sample_crypto (replicate 20 7) [0x28])) =
   Inr (get_address_from_public_key_hash sample_crypto (replicate 20 7) [0x28])"
proof -
  have "address_wf sample_crypto (get_address_from_public_key_hash sample_crypto (replicate 20 7) [0x28])"
    by (rule address_from_hash_wf) simp_all
  with decode_address_correct [OF sample_crypto_ok] show ?thesis by blast
qed

end
