(* ===== verification/Script_Build.thy ===== *)
theory Script_Build
  imports Crypto_Util
begin

text \<open>
  Building and recognising scripts, the first half of \<^verbatim>\<open>hathor/transaction/scripts.py\<close>: the
  regular expressions of \<^verbatim>\<open>re_compile\<close>, the opcodes, \<^verbatim>\<open>HathorScript\<close>, and the classes \<^verbatim>\<open>P2PKH\<close>,
  \<^verbatim>\<open>MultiSig\<close> and \<^verbatim>\<open>NanoContractMatchValues\<close> with their \<^verbatim>\<open>create_output_script\<close>,
  \<^verbatim>\<open>create_input_data\<close> and \<^verbatim>\<open>parse_script\<close>.
\<close>

subsection \<open>Opcodes\<close>

definition OP_0 :: byte where "OP_0 = 0x50"
definition OP_1 :: byte where "OP_1 = 0x51"
definition OP_2 :: byte where "OP_2 = 0x52"
definition OP_16 :: byte where "OP_16 = 0x60"
definition OP_DUP :: byte where "OP_DUP = 0x76"
definition OP_EQUAL :: byte where "OP_EQUAL = 0x87"
definition OP_EQUALVERIFY :: byte where "OP_EQUALVERIFY = 0x88"
definition OP_CHECKSIG :: byte where "OP_CHECKSIG = 0xAC"
definition OP_HASH160 :: byte where "OP_HASH160 = 0xA9"
definition OP_PUSHDATA1 :: byte where "OP_PUSHDATA1 = 0x4C"
definition OP_GREATERTHAN_TIMESTAMP :: byte where "OP_GREATERTHAN_TIMESTAMP = 0x6F"
definition OP_CHECKMULTISIG :: byte where "OP_CHECKMULTISIG = 0xAE"
definition OP_CHECKDATASIG :: byte where "OP_CHECKDATASIG = 0xBA"
definition OP_DATA_STREQUAL :: byte where "OP_DATA_STREQUAL = 0xC0"
definition OP_DATA_GREATERTHAN :: byte where "OP_DATA_GREATERTHAN = 0xC1"
definition OP_FIND_P2PKH :: byte where "OP_FIND_P2PKH = 0xD0"
definition OP_DATA_MATCH_VALUE :: byte where "OP_DATA_MATCH_VALUE = 0xD1"

lemmas opcode_defs = OP_0_def OP_1_def OP_2_def OP_16_def OP_DUP_def OP_EQUAL_def OP_EQUALVERIFY_def
  OP_CHECKSIG_def OP_HASH160_def OP_PUSHDATA1_def OP_GREATERTHAN_TIMESTAMP_def OP_CHECKMULTISIG_def
  OP_CHECKDATASIG_def OP_DATA_STREQUAL_def OP_DATA_GREATERTHAN_def OP_FIND_P2PKH_def
  OP_DATA_MATCH_VALUE_def

subsection \<open>Script patterns\<close>

text \<open>
  The regular expressions that \<^verbatim>\<open>re_compile\<close> builds: a literal byte, \<^verbatim>\<open>.{n}\<close>, \<^verbatim>\<open>.*\<close>, an optional
  part and a capturing group. All are anchored at both ends and compiled with \<^verbatim>\<open>DOTALL\<close>; the
  final \<^verbatim>\<open>$\<close> of Python also matches before a last newline.
\<close>

datatype pat = PByte byte | PAny nat | PBlock | POpt "pat list" | PGroup "pat list"

fun pat_groups :: "pat \<Rightarrow> nat" and pats_groups :: "pat list \<Rightarrow> nat" where
  "pat_groups (POpt ps) = pats_groups ps"
| "pat_groups (PGroup ps) = Suc (pats_groups ps)"
| "pat_groups _ = 0"
| "pats_groups [] = 0"
| "pats_groups (p # ps) = pat_groups p + pats_groups ps"

fun tails :: "bytes \<Rightarrow> bytes list" where
  "tails [] = [[]]"
| "tails (x # xs) = (x # xs) # tails xs"

text \<open>
  Backtracking as the list of all matches in the order in which the engine tries them: each
  gives the groups (\<open>None\<close> for one that took no part) and the bytes left.
\<close>

fun pmatch :: "pat \<Rightarrow> bytes \<Rightarrow> (bytes option list \<times> bytes) list"
  and pmatch_seq :: "pat list \<Rightarrow> bytes \<Rightarrow> (bytes option list \<times> bytes) list" where
  "pmatch (PByte b) s = (case s of [] \<Rightarrow> [] | x # r \<Rightarrow> if x = b then [([], r)] else [])"
| "pmatch (PAny n) s = (if n \<le> length s then [([], drop n s)] else [])"
| "pmatch PBlock s = map (\<lambda>r. ([], r)) (rev (tails s))"
| "pmatch (POpt ps) s = pmatch_seq ps s @ [(replicate (pats_groups ps) None, s)]"
| "pmatch (PGroup ps) s =
     map (\<lambda>(g, r). (Some (take (length s - length r) s) # g, r)) (pmatch_seq ps s)"
| "pmatch_seq [] s = [([], s)]"
| "pmatch_seq (p # ps) s =
     concat (map (\<lambda>(g, r). map (\<lambda>(g', r'). (g @ g', r')) (pmatch_seq ps r)) (pmatch p s))"

definition at_end :: "bytes \<Rightarrow> bool" where
  "at_end s \<longleftrightarrow> s = [] \<or> s = [0x0A]"

definition re_search :: "pat list \<Rightarrow> bytes \<Rightarrow> bytes option list option" where
  "re_search ps s =
     (case filter (\<lambda>(_, r). at_end r) (pmatch_seq ps s) of [] \<Rightarrow> None | (g, _) # _ \<Rightarrow> Some g)"

text \<open>\<^verbatim>\<open>_re_pushdata(length)\<close>: up to 75 bytes the \<^verbatim>\<open>OP_PUSHDATA1\<close> is optional.\<close>

definition re_pushdata :: "nat \<Rightarrow> pat list" where
  "re_pushdata n =
     (if n \<le> 75 then [POpt [PByte OP_PUSHDATA1], PByte (byte_of n), PAny n]
      else [PByte OP_PUSHDATA1, PByte (byte_of n), PAny n])"

definition P2PKH_re_match :: "pat list" where
  "P2PKH_re_match =
     [POpt [PGroup (re_pushdata 4), PByte OP_GREATERTHAN_TIMESTAMP], PByte OP_DUP, PByte OP_HASH160,
      PGroup (re_pushdata 20), PByte OP_EQUALVERIFY, PByte OP_CHECKSIG]"

definition MultiSig_re_match :: "pat list" where
  "MultiSig_re_match =
     [POpt [PGroup (re_pushdata 4), PByte OP_GREATERTHAN_TIMESTAMP], PByte OP_HASH160,
      PGroup (re_pushdata 20), PByte OP_EQUAL]"

definition Nano_re_match :: "pat list" where
  "Nano_re_match =
     [PByte OP_DUP, PByte OP_HASH160, PGroup (re_pushdata 20), PByte OP_EQUALVERIFY, PByte OP_CHECKDATASIG,
      PByte OP_0, PGroup [PBlock], PByte OP_DATA_STREQUAL, PByte OP_1, PGroup [PAny 5],
      PByte OP_DATA_GREATERTHAN, PByte OP_2, PGroup [PBlock], PByte OP_DATA_MATCH_VALUE,
      PByte OP_FIND_P2PKH]"

subsection \<open>Building scripts\<close>

text \<open>\<^verbatim>\<open>HathorScript.pushData\<close>, as the bytes it appends: for bytes, and for an integer.\<close>

definition push_data :: "bytes \<Rightarrow> bytes result" where
  "push_data d =
     (if length d \<le> 75 then Inr (byte_of (length d) # d)
      else if length d \<le> 255 then Inr (OP_PUSHDATA1 # byte_of (length d) # d)
      else Inl (PyE ValueError))"

definition push_int :: "int \<Rightarrow> bytes result" where
  "push_int n =
     bindE (if n > 4294967295 then pack_uint 8 n
            else if n > 65535 then pack_uint 4 n
            else if n > 255 then pack_uint 2 n
            else pack_uint 1 n) push_data"

text \<open>\<^verbatim>\<open>if timelock:\<close> is false for \<^verbatim>\<open>None\<close> and for zero.\<close>

definition timelock_prefix :: "int option \<Rightarrow> bytes result" where
  "timelock_prefix timelock =
     (case timelock of
        None \<Rightarrow> Inr []
      | Some t \<Rightarrow> if t = 0 then Inr []
                  else bindE (push_int t) (\<lambda>b. Inr (b @ [OP_GREATERTHAN_TIMESTAMP])))"

definition P2PKH_create_output_script :: "bytes \<Rightarrow> int option \<Rightarrow> bytes result" where
  "P2PKH_create_output_script address timelock =
     bindE (guardE (length address = 25) (PyE AssertionError)) (\<lambda>_.
     bindE (timelock_prefix timelock) (\<lambda>t.
     bindE (push_data (take 20 (drop 1 address))) (\<lambda>p.
     Inr (t @ [OP_DUP, OP_HASH160] @ p @ [OP_EQUALVERIFY, OP_CHECKSIG]))))"

definition P2PKH_create_input_data :: "bytes \<Rightarrow> bytes \<Rightarrow> bytes result" where
  "P2PKH_create_input_data public_key_bytes signature =
     bindE (push_data signature) (\<lambda>s. bindE (push_data public_key_bytes) (\<lambda>p. Inr (s @ p)))"

definition MultiSig_create_output_script :: "bytes \<Rightarrow> int option \<Rightarrow> bytes result" where
  "MultiSig_create_output_script address timelock =
     bindE (guardE (length address = 25) (PyE AssertionError)) (\<lambda>_.
     bindE (timelock_prefix timelock) (\<lambda>t.
     bindE (push_data (take 20 (drop 1 address))) (\<lambda>p.
     Inr (t @ [OP_HASH160] @ p @ [OP_EQUAL]))))"

definition MultiSig_create_input_data :: "bytes \<Rightarrow> bytes list \<Rightarrow> bytes result" where
  "MultiSig_create_input_data redeem_script signatures =
     bindE (concatE push_data signatures) (\<lambda>s. bindE (push_data redeem_script) (\<lambda>r. Inr (s @ r)))"

text \<open>
  \<^verbatim>\<open>generate_multisig_redeem_script\<close> of \<^verbatim>\<open>hathor/wallet/util.py\<close>: a number above 16 has no
  opcode, and \<^verbatim>\<open>getattr\<close> raises.
\<close>

definition op_number :: "int \<Rightarrow> byte result" where
  "op_number n =
     (if 0 \<le> n \<and> n \<le> 16 then Inr (byte_of (0x50 + nat n)) else Inl (PyE AttributeError))"

definition generate_multisig_redeem_script :: "int \<Rightarrow> bytes list \<Rightarrow> bytes result" where
  "generate_multisig_redeem_script signatures_required public_key_bytes =
     bindE (op_number signatures_required) (\<lambda>m.
     bindE (concatE push_data public_key_bytes) (\<lambda>ps.
     bindE (op_number (int (length public_key_bytes))) (\<lambda>n.
     Inr ([m] @ ps @ [n, OP_CHECKMULTISIG]))))"

definition generate_multisig_address :: "crypto \<Rightarrow> bytes \<Rightarrow> bytes \<Rightarrow> pystr" where
  "generate_multisig_address cr redeem_script version_byte =
     (let address = version_byte @ get_hash160 cr redeem_script in
      b58encode cr (address @ take 4 (sha256 cr (sha256 cr address))))"

subsection \<open>Recognising scripts\<close>

definition get_pushdata :: "bytes \<Rightarrow> bytes result" where
  "get_pushdata d =
     (case d of
        [] \<Rightarrow> Inl (PyE IndexError)
      | n # r \<Rightarrow>
          if unat n > 75 then
            (case r of [] \<Rightarrow> Inl (PyE IndexError) | m # r' \<Rightarrow> Inr (take (unat m) r'))
          else Inr (take (unat n) r))"

definition binary_to_int :: "bytes \<Rightarrow> int result" where
  "binary_to_int b =
     (if length b \<in> {1, 2, 4, 8} then Inr (int (from_be b)) else Inl (PyE StructError))"

text \<open>What the two address scripts hold: an address in base58 and a time lock.\<close>

datatype addr_script = P2PKH pystr "int option" | MultiSig pystr "int option"

definition parse_timelock :: "bytes option \<Rightarrow> int option result" where
  "parse_timelock g =
     (case g of
        None \<Rightarrow> Inr None
      | Some p \<Rightarrow> if p = [] then Inr None
                  else bindE (guardE (length (tl p) = 4) (PyE StructError)) (\<lambda>_.
                       Inr (Some (int (from_be (tl p))))))"

definition group :: "bytes option list \<Rightarrow> nat \<Rightarrow> bytes" where
  "group gs i = (case gs ! i of None \<Rightarrow> [] | Some b \<Rightarrow> b)"

definition P2PKH_parse_script :: "crypto \<Rightarrow> net_settings \<Rightarrow> bytes \<Rightarrow> addr_script option result" where
  "P2PKH_parse_script cr st script =
     (case re_search P2PKH_re_match script of
        None \<Rightarrow> Inr None
      | Some groups \<Rightarrow>
          bindE (parse_timelock (groups ! 0)) (\<lambda>timelock.
          bindE (get_pushdata (group groups 1)) (\<lambda>public_key_hash.
          Inr (Some (P2PKH (get_address_b58_from_public_key_hash cr st public_key_hash) timelock)))))"

definition MultiSig_parse_script :: "crypto \<Rightarrow> net_settings \<Rightarrow> bytes \<Rightarrow> addr_script option result" where
  "MultiSig_parse_script cr st script =
     (case re_search MultiSig_re_match script of
        None \<Rightarrow> Inr None
      | Some groups \<Rightarrow>
          bindE (parse_timelock (groups ! 0)) (\<lambda>timelock.
          bindE (get_pushdata (group groups 1)) (\<lambda>redeem_script_hash.
          Inr (Some (MultiSig (get_address_b58_from_redeem_script_hash cr st redeem_script_hash) timelock)))))"

text \<open>The module-level functions, which choose by the version byte and by the pattern.\<close>

definition create_output_script :: "net_settings \<Rightarrow> bytes \<Rightarrow> int option \<Rightarrow> bytes result" where
  "create_output_script st address timelock =
     (case address of
        [] \<Rightarrow> Inl (PyE IndexError)
      | a # _ \<Rightarrow>
          bindE (binary_to_int (P2PKH_VERSION_BYTE st)) (\<lambda>p.
          if uint a = p then P2PKH_create_output_script address timelock
          else bindE (binary_to_int (MULTISIG_VERSION_BYTE st)) (\<lambda>m.
               if uint a = m then MultiSig_create_output_script address timelock
               else Inl (ScriptE ScriptError))))"

definition parse_address_script :: "crypto \<Rightarrow> net_settings \<Rightarrow> bytes \<Rightarrow> addr_script option result" where
  "parse_address_script cr st script =
     (if re_search P2PKH_re_match script \<noteq> None then P2PKH_parse_script cr st script
      else if re_search MultiSig_re_match script \<noteq> None then MultiSig_parse_script cr st script
      else Inr None)"

subsection \<open>The patterns on the scripts the code builds\<close>

lemma byte_of_lits: "byte_of 4 = 4" "byte_of 20 = 0x14"
  by (simp_all add: byte_of_def)

lemmas pattern_defs = P2PKH_re_match_def MultiSig_re_match_def re_pushdata_def opcode_defs byte_of_lits
  at_end_def

lemma re_search_P2PKH_plain:
  assumes "length h = 20"
  shows "re_search P2PKH_re_match (0x76 # 0xA9 # 0x14 # h @ [0x88, 0xAC]) = Some [None, Some (0x14 # h)]"
  using assms by (simp add: re_search_def pattern_defs)

lemma re_search_P2PKH_timelock:
  assumes "length h = 20" and "length t = 4"
  shows "re_search P2PKH_re_match (4 # t @ 0x6F # 0x76 # 0xA9 # 0x14 # h @ [0x88, 0xAC]) =
    Some [Some (4 # t), Some (0x14 # h)]"
  using assms by (simp add: re_search_def pattern_defs)

lemma re_search_MultiSig_plain:
  assumes "length h = 20"
  shows "re_search MultiSig_re_match (0xA9 # 0x14 # h @ [0x87]) = Some [None, Some (0x14 # h)]"
    and "re_search P2PKH_re_match (0xA9 # 0x14 # h @ [0x87]) = None"
  using assms by (simp_all add: re_search_def pattern_defs)

lemma re_search_MultiSig_timelock:
  assumes "length h = 20" and "length t = 4"
  shows "re_search MultiSig_re_match (4 # t @ 0x6F # 0xA9 # 0x14 # h @ [0x87]) =
      Some [Some (4 # t), Some (0x14 # h)]"
    and "re_search P2PKH_re_match (4 # t @ 0x6F # 0xA9 # 0x14 # h @ [0x87]) = None"
  using assms by (simp_all add: re_search_def pattern_defs)

lemma re_search_MultiSig_P2PKH:
  assumes "length h = 20"
  shows "re_search MultiSig_re_match (0x76 # 0xA9 # 0x14 # h @ [0x88, 0xAC]) = None"
    and "length t = 4 \<Longrightarrow>
      re_search MultiSig_re_match (4 # t @ 0x6F # 0x76 # 0xA9 # 0x14 # h @ [0x88, 0xAC]) = None"
  using assms by (simp_all add: re_search_def pattern_defs)

text \<open>A time lock that the four-byte field of the patterns can hold, or none.\<close>

definition timelock_ok :: "int option \<Rightarrow> bool" where
  "timelock_ok lock \<longleftrightarrow> (case lock of None \<Rightarrow> True | Some t \<Rightarrow> 65536 \<le> t \<and> t < 2 ^ 32)"

lemma timelock_prefix_ok:
  assumes "timelock_ok lock"
  shows "timelock_prefix lock =
    (case lock of None \<Rightarrow> Inr [] | Some t \<Rightarrow> Inr (4 # to_be 4 (nat t) @ [0x6F]))"
  using assms
  by (auto simp: timelock_ok_def timelock_prefix_def push_int_def pack_uint_def push_data_def
      OP_GREATERTHAN_TIMESTAMP_def byte_of_lits split: option.splits)

lemma parse_timelock_ok:
  assumes "timelock_ok (Some t)"
  shows "parse_timelock (Some (4 # to_be 4 (nat t))) = Inr (Some t)"
proof -
  have "from_be (to_be 4 (nat t)) = nat t"
    by (rule from_be_to_be_id) (use assms in \<open>auto simp: timelock_ok_def\<close>)
  then show ?thesis using assms by (simp add: parse_timelock_def timelock_ok_def)
qed

lemma get_pushdata_20: "length h = 20 \<Longrightarrow> get_pushdata (0x14 # h) = Inr h"
  by (simp add: get_pushdata_def)

lemma push_data_20: "length h = 20 \<Longrightarrow> push_data h = Inr (0x14 # h)"
  by (simp add: push_data_def byte_of_lits)

lemma P2PKH_parse_create:
  assumes "length h = 20" and "timelock_ok lock" and "length c = 4"
    and "P2PKH_create_output_script (v # h @ c) lock = Inr s"
  shows "parse_address_script cr st s =
    Inr (Some (P2PKH (get_address_b58_from_public_key_hash cr st h) lock))"
proof (cases lock)
  case None
  with assms have "s = 0x76 # 0xA9 # 0x14 # h @ [0x88, 0xAC]"
    by (auto simp: P2PKH_create_output_script_def timelock_prefix_ok push_data_20 opcode_defs result_iff)
  with assms(1) None show ?thesis
    by (simp add: parse_address_script_def P2PKH_parse_script_def re_search_P2PKH_plain parse_timelock_def
        group_def get_pushdata_20)
next
  case (Some t)
  with assms have "s = 4 # to_be 4 (nat t) @ 0x6F # 0x76 # 0xA9 # 0x14 # h @ [0x88, 0xAC]"
    by (auto simp: P2PKH_create_output_script_def timelock_prefix_ok push_data_20 opcode_defs result_iff)
  with assms(1,2) Some show ?thesis
    by (simp add: parse_address_script_def P2PKH_parse_script_def re_search_P2PKH_timelock
        parse_timelock_ok group_def get_pushdata_20)
qed

lemma MultiSig_parse_create:
  assumes "length h = 20" and "timelock_ok lock" and "length c = 4"
    and "MultiSig_create_output_script (v # h @ c) lock = Inr s"
  shows "parse_address_script cr st s =
    Inr (Some (MultiSig (get_address_b58_from_redeem_script_hash cr st h) lock))"
proof (cases lock)
  case None
  with assms have "s = 0xA9 # 0x14 # h @ [0x87]"
    by (auto simp: MultiSig_create_output_script_def timelock_prefix_ok push_data_20 opcode_defs result_iff)
  with assms(1) None show ?thesis
    by (simp add: parse_address_script_def MultiSig_parse_script_def re_search_MultiSig_plain
        parse_timelock_def group_def get_pushdata_20)
next
  case (Some t)
  with assms have "s = 4 # to_be 4 (nat t) @ 0x6F # 0xA9 # 0x14 # h @ [0x87]"
    by (auto simp: MultiSig_create_output_script_def timelock_prefix_ok push_data_20 opcode_defs result_iff)
  with assms(1,2) Some show ?thesis
    by (simp add: parse_address_script_def MultiSig_parse_script_def re_search_MultiSig_timelock
        parse_timelock_ok group_def get_pushdata_20)
qed

lemma P2PKH_script_shape:
  assumes "P2PKH_create_output_script a lock = Inr s" and "timelock_ok lock"
  obtains h where "length h = 20" and "h = take 20 (drop 1 a)"
    and "s = (case lock of None \<Rightarrow> [] | Some t \<Rightarrow> 4 # to_be 4 (nat t) @ [0x6F]) @ 0x76 # 0xA9 # 0x14 # h @ [0x88, 0xAC]"
proof -
  from assms(1) have "length a = 25" by (auto simp: P2PKH_create_output_script_def result_iff)
  then have h: "length (take 20 (drop 1 a)) = 20" by simp
  with assms show ?thesis
    by (intro that [OF h]) (auto simp: P2PKH_create_output_script_def timelock_prefix_ok push_data_20 opcode_defs
        result_iff split: option.splits)
qed

lemma MultiSig_script_shape:
  assumes "MultiSig_create_output_script a lock = Inr s" and "timelock_ok lock"
  obtains h where "length h = 20" and "h = take 20 (drop 1 a)"
    and "s = (case lock of None \<Rightarrow> [] | Some t \<Rightarrow> 4 # to_be 4 (nat t) @ [0x6F]) @ 0xA9 # 0x14 # h @ [0x87]"
proof -
  from assms(1) have "length a = 25" by (auto simp: MultiSig_create_output_script_def result_iff)
  then have h: "length (take 20 (drop 1 a)) = 20" by simp
  with assms show ?thesis
    by (intro that [OF h]) (auto simp: MultiSig_create_output_script_def timelock_prefix_ok push_data_20 opcode_defs
        result_iff split: option.splits)
qed

lemma P2PKH_not_MultiSig:
  assumes "P2PKH_create_output_script a lock = Inr s" and "timelock_ok lock"
  shows "re_search MultiSig_re_match s = None" and "1 \<le> length s" and "length s \<le> 75"
proof -
  obtain h where h: "length h = 20" and s: "s = (case lock of None \<Rightarrow> [] | Some t \<Rightarrow> 4 # to_be 4 (nat t) @ [0x6F])
      @ 0x76 # 0xA9 # 0x14 # h @ [0x88, 0xAC]"
    using P2PKH_script_shape [OF assms] by metis
  show "re_search MultiSig_re_match s = None" and "1 \<le> length s" and "length s \<le> 75"
    using h s by (auto simp: re_search_MultiSig_P2PKH split: option.splits)
qed

lemma MultiSig_is_MultiSig:
  assumes "MultiSig_create_output_script a lock = Inr s" and "timelock_ok lock"
  shows "re_search MultiSig_re_match s \<noteq> None" and "1 \<le> length s" and "length s \<le> 75"
proof -
  obtain h where h: "length h = 20" and s: "s = (case lock of None \<Rightarrow> [] | Some t \<Rightarrow> 4 # to_be 4 (nat t) @ [0x6F])
      @ 0xA9 # 0x14 # h @ [0x87]"
    using MultiSig_script_shape [OF assms] by metis
  show "re_search MultiSig_re_match s \<noteq> None" and "1 \<le> length s" and "length s \<le> 75"
    using h s by (auto simp: re_search_MultiSig_plain re_search_MultiSig_timelock split: option.splits)
qed

definition settings_ok :: "net_settings \<Rightarrow> bool" where
  "settings_ok st \<longleftrightarrow> length (P2PKH_VERSION_BYTE st) = 1 \<and> length (MULTISIG_VERSION_BYTE st) = 1 \<and>
     P2PKH_VERSION_BYTE st \<noteq> MULTISIG_VERSION_BYTE st"


definition sample_address :: bytes where
  "sample_address = get_address_from_public_key_hash sample_crypto (replicate 20 7) [0x28]"

lemma mainnet_settings_ok: "settings_ok mainnet_settings"
  by (simp add: settings_ok_def mainnet_settings_def)

lemma sample_address_wf: "address_wf sample_crypto sample_address"
  unfolding sample_address_def by (rule address_from_hash_wf) simp_all


text \<open>
  The final \<^verbatim>\<open>$\<close> of the patterns lets one newline byte follow: such a script is recognised as
  paying to the address, although evaluating it fails on the unknown opcode \<open>0x0A\<close>.
\<close>

theorem P2PKH_trailing_newline:
  "length h = 20 \<Longrightarrow>
     re_search P2PKH_re_match (0x76 # 0xA9 # 0x14 # h @ [0x88, 0xAC, 0x0A]) = Some [None, Some (0x14 # h)]"
  by (simp add: re_search_def pattern_defs)

end
