(* ===== verification/Bitcoin.thy ===== *)
theory Bitcoin
  imports Hathor_Prelude
begin

text \<open>
  The part of Bitcoin that merged mining needs, \<^verbatim>\<open>hathor/merged_mining/bitcoin.py\<close>: the
  primitive encoders and readers, headers, transactions with and without witnesses, and
  Merkle trees. A reader that consumes a \<^verbatim>\<open>bytearray\<close> is a parser that returns what it left.
\<close>

subsection \<open>Primitive fields\<close>

definition encode_uint32 :: "int \<Rightarrow> bytes result" where
  "encode_uint32 = pack_uint_le 4"

definition pack_int32 :: "int \<Rightarrow> bytes result" where
  "pack_int32 x =
     (if - (2 ^ 31) \<le> x \<and> x < 2 ^ 31 then Inr (to_le 4 (nat (x mod 2 ^ 32))) else Inl (PyE StructError))"

definition encode_revbytes :: "bytes \<Rightarrow> bytes" where
  "encode_revbytes = rev"

definition sha256d_hash :: "(bytes \<Rightarrow> bytes) \<Rightarrow> bytes \<Rightarrow> bytes" where
  "sha256d_hash sha256 d = encode_revbytes (sha256 (sha256 d))"

definition encode_varint :: "int \<Rightarrow> bytes result" where
  "encode_varint number =
     (if number < 0xfd then pack_uint_le 1 number
      else if number \<le> 0xffff then bindE (pack_uint_le 2 number) (\<lambda>b. Inr (0xfd # b))
      else if number \<le> 0xffffffff then bindE (pack_uint_le 4 number) (\<lambda>b. Inr (0xfe # b))
      else bindE (pack_uint_le 8 number) (\<lambda>b. Inr (0xff # b)))"

definition encode_bytearray :: "bytes \<Rightarrow> bytes result" where
  "encode_bytearray array = bindE (encode_varint (int (length array))) (\<lambda>n. Inr (n @ array))"

definition encode_list :: "bytes list \<Rightarrow> bytes result" where
  "encode_list buffer = bindE (encode_varint (int (length buffer))) (\<lambda>n. Inr (n @ concat buffer))"

definition encode_bytearray_list :: "bytes list \<Rightarrow> bytes result" where
  "encode_bytearray_list buffer =
     bindE (encode_varint (int (length buffer))) (\<lambda>n.
     bindE (concatE encode_bytearray buffer) (\<lambda>b. Inr (n @ b)))"

definition read_int32 :: "int parser" where
  "read_int32 buffer =
     bindE (unpack_uint_le 4 buffer) (\<lambda>(x, buffer). Inr (if x < 2 ^ 31 then x else x - 2 ^ 32, buffer))"

definition read_uint32 :: "int parser" where
  "read_uint32 = unpack_uint_le 4"

definition read_varint :: "int parser" where
  "read_varint buffer =
     bindE (unpack_uint_le 1 buffer) (\<lambda>(i, tail).
     if i < 0xfd then Inr (i, tail)
     else if i < 0xfe then unpack_uint_le 2 tail
     else if i < 0xff then unpack_uint_le 4 tail
     else unpack_uint_le 8 tail)"

definition read_nbytes :: "nat \<Rightarrow> bytes parser" where
  "read_nbytes n buffer = Inr (take n buffer, drop n buffer)"

definition read_bytes :: "bytes parser" where
  "read_bytes buffer = bindE (read_varint buffer) (\<lambda>(array_len, buffer). read_nbytes (nat array_len) buffer)"

definition read_nrevbytes :: "nat \<Rightarrow> bytes parser" where
  "read_nrevbytes n buffer = Inr (rev (take n buffer), drop n buffer)"

text \<open>\<^verbatim>\<open>read_segwit_flag\<close>: a zero byte announces the flag, which must then be one.\<close>

definition read_segwit_flag :: "bool parser" where
  "read_segwit_flag buffer =
     (case buffer of
        [] \<Rightarrow> Inl (PyE StructError)
      | peek # tail \<Rightarrow>
          if peek = 0 then
            (case tail of
               [] \<Rightarrow> Inl (PyE StructError)
             | i # rest \<Rightarrow> bindE (guardE (i = 1) (PyE AssertionError)) (\<lambda>_. Inr (True, rest)))
          else Inr (False, buffer))"

subsection \<open>Block headers\<close>

record btc_header =
  bh_version :: int
  bh_prev_block :: bytes
  bh_merkle_root :: bytes
  bh_timestamp :: int
  bh_bits :: bytes
  bh_nonce :: int

definition btc_header_bytes :: "btc_header \<Rightarrow> bytes result" where
  "btc_header_bytes h =
     bindE (encode_uint32 (bh_version h)) (\<lambda>v.
     bindE (encode_uint32 (bh_timestamp h)) (\<lambda>t.
     bindE (encode_uint32 (bh_nonce h)) (\<lambda>n.
     Inr (v @ encode_revbytes (bh_prev_block h) @ encode_revbytes (bh_merkle_root h) @ t
          @ encode_revbytes (bh_bits h) @ n))))"

definition btc_header_decode :: "bytes \<Rightarrow> btc_header result" where
  "btc_header_decode i =
     bindE (read_uint32 i) (\<lambda>(v, i).
     bindE (read_nrevbytes 32 i) (\<lambda>(p, i).
     bindE (read_nrevbytes 32 i) (\<lambda>(m, i).
     bindE (read_uint32 i) (\<lambda>(t, i).
     bindE (read_nrevbytes 4 i) (\<lambda>(b, i).
     bindE (read_uint32 i) (\<lambda>(n, i).
     Inr \<lparr>bh_version = v, bh_prev_block = p, bh_merkle_root = m, bh_timestamp = t, bh_bits = b,
          bh_nonce = n\<rparr>))))))"

definition btc_header_hash :: "(bytes \<Rightarrow> bytes) \<Rightarrow> btc_header \<Rightarrow> bytes result" where
  "btc_header_hash sha256 h = bindE (btc_header_bytes h) (\<lambda>b. Inr (sha256d_hash sha256 b))"

subsection \<open>Merkle trees\<close>

definition merkle_concat :: "bytes \<Rightarrow> bytes \<Rightarrow> bytes" where
  "merkle_concat left right = rev left @ rev right"

text \<open>\<^verbatim>\<open>[sha256d_hash(_merkle_concat(l, r)) for l, r in zip(it, it)]\<close> over one iterator.\<close>

fun merkle_level :: "(bytes \<Rightarrow> bytes) \<Rightarrow> bytes list \<Rightarrow> bytes list" where
  "merkle_level sha256 (l # r # xs) = sha256d_hash sha256 (merkle_concat l r) # merkle_level sha256 xs"
| "merkle_level sha256 _ = []"

text \<open>
  The two functions that climb the tree first make the number of leaves even, by
  repeating the last one; \<^verbatim>\<open>build_merkle_root\<close> appends it to the caller's own list.
\<close>

definition pad_leaves :: "bytes list \<Rightarrow> bytes list" where
  "pad_leaves merkle_leaves =
     (if length merkle_leaves mod 2 \<noteq> 0 then merkle_leaves @ [last merkle_leaves] else merkle_leaves)"

lemma length_merkle_level: "length (merkle_level sha256 xs) = length xs div 2"
  by (induction sha256 xs rule: merkle_level.induct) auto

lemma length_merkle_level_pad: "length (merkle_level sha256 (pad_leaves xs)) = (length xs + 1) div 2"
  by (auto simp: length_merkle_level pad_leaves_def)

function build_merkle_path :: "(bytes \<Rightarrow> bytes) \<Rightarrow> bytes list \<Rightarrow> bytes list \<Rightarrow> bytes list" where
  "build_merkle_path sha256 merkle_leaves partial_path =
     (if length merkle_leaves = 0 then []
      else if length merkle_leaves \<le> 1 then partial_path
      else (let merkle_leaves = pad_leaves merkle_leaves in
            build_merkle_path sha256 (merkle_level sha256 merkle_leaves) (partial_path @ [merkle_leaves ! 1])))"
  by pat_completeness auto
termination
  by (relation "measure (\<lambda>(_, xs, _). length xs)") (auto simp: length_merkle_level_pad)

definition build_merkle_path_for_coinbase :: "(bytes \<Rightarrow> bytes) \<Rightarrow> bytes list \<Rightarrow> bytes list" where
  "build_merkle_path_for_coinbase sha256 merkle_leaves = build_merkle_path sha256 ([] # merkle_leaves) []"

function build_merkle_root :: "(bytes \<Rightarrow> bytes) \<Rightarrow> bytes list \<Rightarrow> bytes result" where
  "build_merkle_root sha256 merkle_leaves =
     (if length merkle_leaves = 0 then Inl (PyE AssertionError)
      else if length merkle_leaves \<le> 1 then Inr (merkle_leaves ! 0)
      else build_merkle_root sha256 (merkle_level sha256 (pad_leaves merkle_leaves)))"
  by pat_completeness auto
termination
  by (relation "measure (\<lambda>(_, xs). length xs)") (auto simp: length_merkle_level_pad)

text \<open>The loop of \<^verbatim>\<open>build_merkle_root_from_path\<close> replaces the first two links by their hash.\<close>

fun build_merkle_root_from_path :: "(bytes \<Rightarrow> bytes) \<Rightarrow> bytes list \<Rightarrow> bytes result" where
  "build_merkle_root_from_path sha256 [] = Inl (PyE AssertionError)"
| "build_merkle_root_from_path sha256 [c] = Inr c"
| "build_merkle_root_from_path sha256 (a # b # path) =
     build_merkle_root_from_path sha256 (sha256d_hash sha256 (merkle_concat a b) # path)"

subsection \<open>Transactions\<close>

record btc_outpoint =
  op_hash :: bytes
  op_idx :: int

record btc_input =
  previous_output :: btc_outpoint
  script_sig :: bytes
  sequence_no :: int
  script_witness :: "bytes list"

record btc_output =
  bo_value :: int
  script_pubkey :: bytes

record btc_transaction =
  btx_version :: int
  include_witness :: bool
  btx_inputs :: "btc_input list"
  btx_outputs :: "btc_output list"
  lock_time :: int

definition outpoint_null :: btc_outpoint where
  "outpoint_null = \<lparr>op_hash = replicate 32 0, op_idx = 0xffffffff\<rparr>"

definition outpoint_is_null :: "btc_outpoint \<Rightarrow> bool" where
  "outpoint_is_null p \<longleftrightarrow> op_idx p = 0xffffffff \<and> op_hash p = replicate 32 0"

definition SEQUENCE_FINAL :: int where
  "SEQUENCE_FINAL = 0xffffffff"

definition btc_input_coinbase :: "bytes \<Rightarrow> btc_input" where
  "btc_input_coinbase s =
     \<lparr>previous_output = outpoint_null, script_sig = s, sequence_no = SEQUENCE_FINAL, script_witness = []\<rparr>"

definition btc_input_is_final :: "btc_input \<Rightarrow> bool" where
  "btc_input_is_final i \<longleftrightarrow> sequence_no i = SEQUENCE_FINAL"

definition btc_outpoint_bytes :: "btc_outpoint \<Rightarrow> bytes result" where
  "btc_outpoint_bytes p = bindE (pack_uint_le 4 (op_idx p)) (\<lambda>n. Inr (op_hash p @ n))"

definition btc_input_bytes :: "btc_input \<Rightarrow> bytes result" where
  "btc_input_bytes i =
     bindE (btc_outpoint_bytes (previous_output i)) (\<lambda>p.
     bindE (encode_bytearray (script_sig i)) (\<lambda>s.
     bindE (encode_uint32 (sequence_no i)) (\<lambda>n. Inr (p @ s @ n))))"

definition btc_input_has_witness :: "btc_input \<Rightarrow> bool" where
  "btc_input_has_witness i \<longleftrightarrow> script_witness i \<noteq> []"

definition btc_output_bytes :: "btc_output \<Rightarrow> bytes result" where
  "btc_output_bytes out =
     bindE (pack_uint_le 8 (bo_value out)) (\<lambda>v.
     bindE (encode_bytearray (script_pubkey out)) (\<lambda>s. Inr (v @ s)))"

definition btx_has_witness :: "btc_transaction \<Rightarrow> bool" where
  "btx_has_witness tx \<longleftrightarrow> list_ex btc_input_has_witness (btx_inputs tx)"

definition btx_is_coinbase :: "btc_transaction \<Rightarrow> bool" where
  "btx_is_coinbase tx \<longleftrightarrow>
     length (btx_inputs tx) = 1 \<and> outpoint_is_null (previous_output (btx_inputs tx ! 0))"

definition tx_witnesses :: "btc_transaction \<Rightarrow> bytes list list" where
  "tx_witnesses tx =
     map (\<lambda>i. if script_witness i \<noteq> [] then script_witness i else [replicate 32 0]) (btx_inputs tx)"

definition btx_to_bytes :: "bool \<Rightarrow> btc_transaction \<Rightarrow> bytes result" where
  "btx_to_bytes skip_segwit tx =
     (let witness = (btx_has_witness tx \<or> include_witness tx) \<and> \<not> skip_segwit in
      bindE (pack_int32 (btx_version tx)) (\<lambda>v.
      bindE (bindE (mapE btc_input_bytes (btx_inputs tx)) encode_list) (\<lambda>is.
      bindE (bindE (mapE btc_output_bytes (btx_outputs tx)) encode_list) (\<lambda>os.
      bindE (if witness then concatE encode_bytearray_list (tx_witnesses tx) else Inr []) (\<lambda>ws.
      bindE (pack_uint_le 4 (lock_time tx)) (\<lambda>l.
      Inr (v @ (if witness then [0, 1] else []) @ is @ os @ ws @ l)))))))"

definition btx_bytes :: "btc_transaction \<Rightarrow> bytes result" where
  "btx_bytes tx = btx_to_bytes False tx"

definition btx_hash :: "(bytes \<Rightarrow> bytes) \<Rightarrow> btc_transaction \<Rightarrow> bytes result" where
  "btx_hash sha256 tx = bindE (btx_bytes tx) (\<lambda>b. Inr (sha256d_hash sha256 b))"

definition btx_txid :: "(bytes \<Rightarrow> bytes) \<Rightarrow> btc_transaction \<Rightarrow> bytes result" where
  "btx_txid sha256 tx = bindE (btx_to_bytes True tx) (\<lambda>b. Inr (sha256d_hash sha256 b))"

definition read_outpoint :: "btc_outpoint parser" where
  "read_outpoint buffer =
     bindE (unpack_uint_le 4 (take 4 (drop 32 buffer))) (\<lambda>(idx, _).
     Inr (\<lparr>op_hash = take 32 buffer, op_idx = idx\<rparr>, drop 36 buffer))"

definition read_input :: "bytes list \<Rightarrow> btc_input parser" where
  "read_input witnesses buffer =
     bindE (read_outpoint buffer) (\<lambda>(outpoint, buffer).
     bindE (read_bytes buffer) (\<lambda>(script, buffer).
     bindE (read_uint32 buffer) (\<lambda>(seq, buffer).
     Inr (\<lparr>previous_output = outpoint, script_sig = script, sequence_no = seq,
           script_witness = witnesses\<rparr>, buffer))))"

definition read_output :: "btc_output parser" where
  "read_output buffer =
     bindE (unpack_uint_le 8 buffer) (\<lambda>(v, buffer).
     bindE (read_bytes buffer) (\<lambda>(script, buffer).
     Inr (\<lparr>bo_value = v, script_pubkey = script\<rparr>, buffer)))"

definition read_outputs :: "btc_output list parser" where
  "read_outputs buffer =
     bindE (read_varint buffer) (\<lambda>(count, buffer). repeatP (nat count) read_output buffer)"

definition read_bytes_list :: "bytes list parser" where
  "read_bytes_list buffer =
     bindE (read_varint buffer) (\<lambda>(comp_count, buffer). repeatP (nat comp_count) read_bytes buffer)"

text \<open>The witnesses are read at an offset, and cut out of the buffer.\<close>

definition read_witnesses :: "nat \<Rightarrow> nat \<Rightarrow> bytes list list parser" where
  "read_witnesses input_count witnesses_offset buffer =
     bindE (repeatP input_count read_bytes_list (drop witnesses_offset buffer)) (\<lambda>(ws, witnesses_buf).
     (let n = length (drop witnesses_offset buffer) - length witnesses_buf in
      Inr (ws, take witnesses_offset buffer @ drop (witnesses_offset + n) buffer)))"

text \<open>\<^verbatim>\<open>read_inputs(buffer, False)\<close>, then \<^verbatim>\<open>skip_inputs\<close>, which calls it, then the general case.\<close>

definition read_inputs_plain :: "btc_input list parser" where
  "read_inputs_plain buffer =
     bindE (read_varint buffer) (\<lambda>(count, buffer). repeatP (nat count) (read_input []) buffer)"

definition skip_inputs :: "bytes \<Rightarrow> (nat \<times> nat) result" where
  "skip_inputs buffer =
     bindE (read_inputs_plain buffer) (\<lambda>(ins, buffer2). Inr (length buffer - length buffer2, length ins))"

definition skip_outputs :: "bytes \<Rightarrow> (nat \<times> nat) result" where
  "skip_outputs buffer =
     bindE (read_outputs buffer) (\<lambda>(outs, buffer2). Inr (length buffer - length buffer2, length outs))"

fun read_inputs_with :: "bytes list list \<Rightarrow> btc_input list parser" where
  "read_inputs_with [] buffer = Inr ([], buffer)"
| "read_inputs_with (w # ws) buffer =
     bindE (read_input w buffer) (\<lambda>(i, buffer).
     bindE (read_inputs_with ws buffer) (\<lambda>(is, buffer). Inr (i # is, buffer)))"

definition read_inputs :: "bool \<Rightarrow> btc_input list parser" where
  "read_inputs with_witnesses buffer =
     (if with_witnesses then
        bindE (skip_inputs buffer) (\<lambda>(len_inputs, count_inputs).
        bindE (skip_outputs (drop len_inputs buffer)) (\<lambda>(len_outputs, _).
        bindE (read_witnesses count_inputs (len_inputs + len_outputs) buffer) (\<lambda>(ws, buffer).
        bindE (read_varint buffer) (\<lambda>(count, buffer). read_inputs_with ws buffer))))
      else read_inputs_plain buffer)"

definition btx_decode :: "bytes \<Rightarrow> btc_transaction result" where
  "btx_decode encoded =
     bindE (read_int32 encoded) (\<lambda>(ver, i).
     bindE (read_segwit_flag i) (\<lambda>(witness, i).
     bindE (read_inputs witness i) (\<lambda>(ins, i).
     bindE (read_outputs i) (\<lambda>(outs, i).
     bindE (read_uint32 i) (\<lambda>(lt, i).
     bindE (guardE (length i = 0) (PyE AssertionError)) (\<lambda>_.
     Inr \<lparr>btx_version = ver, include_witness = witness, btx_inputs = ins, btx_outputs = outs,
          lock_time = lt\<rparr>))))))"

definition btc_block_bytes :: "btc_header \<Rightarrow> bytes list \<Rightarrow> bytes result" where
  "btc_block_bytes h txs =
     bindE (btc_header_bytes h) (\<lambda>hb. bindE (encode_list txs) (\<lambda>ts. Inr (hb @ ts)))"

text \<open>\<^verbatim>\<open>create_output_script\<close>: the Bitcoin script that pays to an address.\<close>

definition btc_create_output_script :: "bytes \<Rightarrow> bytes result" where
  "btc_create_output_script address =
     (case address of
        [] \<Rightarrow> Inl (PyE IndexError)
      | a # rest \<Rightarrow>
          if a = 0 \<or> a = 0x6f then
            bindE (guardE (length address = 25) (PyE AssertionError)) (\<lambda>_.
            Inr ([0x76, 0xa9, 0x14] @ take 20 rest @ [0x88, 0xac]))
          else if a = 5 \<or> a = 0xc4 then
            bindE (guardE (length address = 25) (PyE AssertionError)) (\<lambda>_.
            Inr ([0xa9, 0x14] @ take 20 rest @ [0x87]))
          else Inl (PyE ValueError))"

subsection \<open>Primitive codecs\<close>

lemma unpack_byte_le [simp]: "unpack_uint_le (Suc 0) (b # rest) = Inr (int (unat b), rest)"
  by (simp add: unpack_uint_le_def from_le_def from_be_Cons)

interpretation varint: codec encode_varint read_varint "\<lambda>_. True"
proof
  fix n bs rest
  assume "encode_varint n = Inr bs"
  then consider "0 \<le> n" "n < 0xfd" "bs = to_le 1 (nat n)"
    | "0xfd \<le> n" "n < 256 ^ 2" "bs = 0xfd # to_le 2 (nat n)"
    | "0xfd \<le> n" "n < 256 ^ 4" "bs = 0xfe # to_le 4 (nat n)"
    | "0xfd \<le> n" "n < 256 ^ 8" "bs = 0xff # to_le 8 (nat n)"
    by (auto simp: encode_varint_def result_iff split: if_splits)
  then show "read_varint (bs @ rest) = Inr (n, rest)"
    by cases (simp_all add: read_varint_def)
qed

interpretation bytearray: codec encode_bytearray read_bytes "\<lambda>_. True"
proof
  fix a bs rest
  assume "encode_bytearray a = Inr bs"
  then obtain n where "encode_varint (int (length a)) = Inr n" "bs = n @ a"
    by (auto simp: encode_bytearray_def result_iff)
  with varint.dec_enc show "read_bytes (bs @ rest) = Inr (a, rest)"
    by (simp add: read_bytes_def read_nbytes_def)
qed

interpretation bytearray_list: codec encode_bytearray_list read_bytes_list "\<lambda>_. True"
proof
  fix a bs rest
  assume "encode_bytearray_list a = Inr bs"
  then obtain n b where "encode_varint (int (length a)) = Inr n" "concatE encode_bytearray a = Inr b" "bs = n @ b"
    by (auto simp: encode_bytearray_list_def result_iff)
  moreover have "list_all (\<lambda>_. True) a" by (simp add: list_all_iff)
  ultimately show "read_bytes_list (bs @ rest) = Inr (a, rest)"
    by (simp add: read_bytes_list_def varint.dec_enc bytearray.repeat_dec_enc)
qed

interpretation int32: codec pack_int32 read_int32 "\<lambda>_. True"
proof
  fix x bs rest
  assume "pack_int32 x = Inr bs"
  then have x: "- (2 ^ 31) \<le> x" "x < 2 ^ 31" and bs: "bs = to_le 4 (nat (x mod 2 ^ 32))"
    by (auto simp: pack_int32_def split: if_splits)
  have "unpack_uint_le 4 (bs @ rest) = Inr (x mod 2 ^ 32, rest)"
    unfolding bs by (rule unpack_uint_le_to_le) simp_all
  moreover have "(if x mod 2 ^ 32 < 2 ^ 31 then x mod 2 ^ 32 else x mod 2 ^ 32 - 2 ^ 32) = x"
  proof (cases "0 \<le> x")
    case True
    with x show ?thesis by simp
  next
    case False
    have "x mod 2 ^ 32 = (x + 2 ^ 32) mod 2 ^ 32" by simp
    also have "\<dots> = x + 2 ^ 32" using x False by (intro mod_pos_pos_trivial) auto
    finally have "x mod 2 ^ 32 = x + 2 ^ 32" .
    with x False show ?thesis by simp
  qed
  ultimately show "read_int32 (bs @ rest) = Inr (x, rest)" by (simp add: read_int32_def split: if_splits)
qed

definition btc_header_wf :: "btc_header \<Rightarrow> bool" where
  "btc_header_wf h \<longleftrightarrow> length (bh_prev_block h) = 32 \<and> length (bh_merkle_root h) = 32 \<and> length (bh_bits h) = 4"

lemma read_nrevbytes_append [simp]: "length h = n \<Longrightarrow> read_nrevbytes n (rev h @ rest) = Inr (h, rest)"
  by (simp add: read_nrevbytes_def)

lemma btc_header_roundtrip:
  assumes "btc_header_wf h" and "btc_header_bytes h = Inr bs"
  shows "btc_header_decode bs = Inr h"
proof -
  from assms(2) have r: "0 \<le> bh_version h" "bh_version h < 256 ^ 4" "0 \<le> bh_timestamp h"
    "bh_timestamp h < 256 ^ 4" "0 \<le> bh_nonce h" "bh_nonce h < 256 ^ 4"
    "bs = to_le 4 (nat (bh_version h)) @ rev (bh_prev_block h) @ rev (bh_merkle_root h)
        @ to_le 4 (nat (bh_timestamp h)) @ rev (bh_bits h) @ to_le 4 (nat (bh_nonce h)) @ []"
    by (auto simp: btc_header_bytes_def encode_uint32_def encode_revbytes_def result_iff)
  show ?thesis
    unfolding r(7) using assms(1) r(1-6)
    by (simp only: btc_header_decode_def read_uint32_def btc_header_wf_def unpack_uint_le_to_le bindE_Inr
        read_nrevbytes_append prod.case) simp
qed

subsection \<open>Merkle trees\<close>

declare build_merkle_path.simps [simp del] build_merkle_root.simps [simp del]

lemma pad_leaves_Cons: "length xs > 0 \<Longrightarrow> \<exists>b ys. pad_leaves (a # xs) = a # b # ys \<and> pad_leaves (a' # xs) = a' # b # ys"
  by (cases xs) (auto simp: pad_leaves_def)

text \<open>The first leaf has no influence on the path.\<close>

lemma build_merkle_path_first:
  "build_merkle_path sha256 (a # xs) p = build_merkle_path sha256 (a' # xs) p"
proof (induction "length xs" arbitrary: a a' xs p rule: less_induct)
  case less
  show ?case
  proof (cases "xs = []")
    case True
    then show ?thesis by (simp add: build_merkle_path.simps)
  next
    case False
    then obtain b ys where pad: "pad_leaves (a # xs) = a # b # ys" "pad_leaves (a' # xs) = a' # b # ys"
      using pad_leaves_Cons [of xs a a'] by auto
    have "length (b # ys) = length (pad_leaves (a # xs)) - 1" using pad by simp
    then have "length (merkle_level sha256 ys) < length xs"
      using False by (cases xs) (auto simp: length_merkle_level pad_leaves_def split: if_splits)
    from less [OF this] show ?thesis
      using False pad by (simp add: build_merkle_path.simps [of _ "_ # xs"] Let_def)
  qed
qed

lemma build_merkle_path_append:
  "xs \<noteq> [] \<Longrightarrow> build_merkle_path sha256 xs (p @ q) = p @ build_merkle_path sha256 xs q"
proof (induction "length xs" arbitrary: xs q rule: less_induct)
  case less
  show ?case
  proof (cases "length xs \<le> 1")
    case True
    with less.prems show ?thesis by (simp add: build_merkle_path.simps)
  next
    case False
    then have "length (merkle_level sha256 (pad_leaves xs)) < length xs"
      "merkle_level sha256 (pad_leaves xs) \<noteq> []"
      using length_merkle_level_pad [of sha256 xs] by auto
    from less.hyps [OF this] show ?thesis
      using False less.prems by (simp add: build_merkle_path.simps [of _ xs] Let_def)
  qed
qed

lemma build_merkle_root_path:
  "build_merkle_root_from_path sha256 (a # build_merkle_path sha256 (a # xs) []) = build_merkle_root sha256 (a # xs)"
proof (induction "length xs" arbitrary: a xs rule: less_induct)
  case less
  show ?case
  proof (cases "xs = []")
    case True
    then show ?thesis by (simp add: build_merkle_path.simps build_merkle_root.simps)
  next
    case False
    then obtain b ys where pad: "pad_leaves (a # xs) = a # b # ys"
      using pad_leaves_Cons [of xs a a] by auto
    define h where "h = sha256d_hash sha256 (merkle_concat a b)"
    have level: "merkle_level sha256 (pad_leaves (a # xs)) = h # merkle_level sha256 ys"
      by (simp add: pad h_def)
    have "length (merkle_level sha256 ys) < length xs"
      using False arg_cong [OF pad, of length]
      by (cases xs) (auto simp: length_merkle_level pad_leaves_def split: if_splits)
    from less [OF this] have IH: "build_merkle_root_from_path sha256
        (h # build_merkle_path sha256 (h # merkle_level sha256 ys) []) =
        build_merkle_root sha256 (h # merkle_level sha256 ys)" .
    have "build_merkle_path sha256 (a # xs) [] = b # build_merkle_path sha256 (h # merkle_level sha256 ys) []"
      using False level build_merkle_path_append [of "h # merkle_level sha256 ys" sha256 "[b]" "[]"]
      by (simp add: build_merkle_path.simps [of _ "_ # xs"] Let_def pad)
    with IH level False show ?thesis
      by (simp add: build_merkle_root.simps [of _ "a # xs"] h_def)
  qed
qed

text \<open>
  C4: the Merkle path of the coinbase is sound and complete. Whatever the other transactions of
  the block are, hashing the coinbase along the path built without it gives the Merkle root
  of the whole block.
\<close>

theorem merkle_path_root:
  "build_merkle_root_from_path sha256 (coinbase # build_merkle_path_for_coinbase sha256 leaves) =
   build_merkle_root sha256 (coinbase # leaves)"
  unfolding build_merkle_path_for_coinbase_def
  using build_merkle_root_path [of sha256 coinbase leaves]
    build_merkle_path_first [of sha256 "[]" leaves "[]" coinbase] by simp

subsection \<open>Transactions are read back\<close>

definition btc_input_wf :: "btc_input \<Rightarrow> bool" where
  "btc_input_wf i \<longleftrightarrow> length (op_hash (previous_output i)) = 32"

lemma read_outpoint_bytes:
  assumes "length (op_hash p) = 32" and "btc_outpoint_bytes p = Inr bs"
  shows "read_outpoint (bs @ rest) = Inr (p, rest)"
proof -
  from assms(2) have p: "0 \<le> op_idx p" "op_idx p < 256 ^ 4" "bs = op_hash p @ to_le 4 (nat (op_idx p))"
    by (auto simp: btc_outpoint_bytes_def result_iff)
  have "unpack_uint_le 4 (to_le 4 (nat (op_idx p))) = Inr (op_idx p, [])"
    using unpack_uint_le_to_le [OF p(1,2), of "[]"] by simp
  with assms(1) p(3) show ?thesis by (simp add: read_outpoint_def)
qed

lemma read_input_bytes:
  assumes "btc_input_wf i" and "btc_input_bytes i = Inr bs"
  shows "read_input w (bs @ rest) = Inr (i\<lparr>script_witness := w\<rparr>, rest)"
proof -
  from assms(2) obtain p s where "btc_outpoint_bytes (previous_output i) = Inr p"
    "encode_bytearray (script_sig i) = Inr s" "0 \<le> sequence_no i" "sequence_no i < 256 ^ 4"
    "bs = p @ s @ to_le 4 (nat (sequence_no i))"
    by (auto simp: btc_input_bytes_def encode_uint32_def result_iff)
  with assms(1) show ?thesis
    by (simp add: read_input_def btc_input_wf_def read_outpoint_bytes bytearray.dec_enc read_uint32_def)
qed

interpretation btc_out: codec btc_output_bytes read_output "\<lambda>_. True"
proof
  fix out bs rest
  assume "btc_output_bytes out = Inr bs"
  then obtain s where "0 \<le> bo_value out" "bo_value out < 256 ^ 8" "encode_bytearray (script_pubkey out) = Inr s"
    "bs = to_le 8 (nat (bo_value out)) @ s"
    by (auto simp: btc_output_bytes_def result_iff)
  then show "read_output (bs @ rest) = Inr (out, rest)"
    by (simp add: read_output_def bytearray.dec_enc)
qed

lemma mapE_concat: "mapE f xs = Inr ys \<Longrightarrow> concatE f xs = Inr (concat ys)"
  by (induction xs arbitrary: ys) (auto simp: result_iff)

lemma encode_list_eq:
  assumes "bindE (mapE f xs) encode_list = Inr bs"
  obtains n body where "encode_varint (int (length xs)) = Inr n" and "concatE f xs = Inr body"
    and "bs = n @ body"
proof -
  from assms obtain ys n where ys: "mapE f xs = Inr ys" and "encode_varint (int (length ys)) = Inr n"
    "bs = n @ concat ys"
    by (auto simp: encode_list_def result_iff)
  with mapE_concat [OF ys] mapE_eq_Inr_length [OF ys] show ?thesis by (intro that) simp_all
qed

lemma read_outputs_bytes:
  assumes "bindE (mapE btc_output_bytes outs) encode_list = Inr bs"
  shows "read_outputs (bs @ rest) = Inr (outs, rest)"
proof -
  have "list_all (\<lambda>_. True) outs" by (simp add: list_all_iff)
  with assms show ?thesis
    by (elim encode_list_eq) (simp add: read_outputs_def varint.dec_enc btc_out.repeat_dec_enc)
qed

lemma read_inputs_with_bytes:
  assumes "list_all btc_input_wf ins" and "concatE btc_input_bytes ins = Inr bs"
    and "length ws = length ins"
  shows "read_inputs_with ws (bs @ rest) = Inr (map2 (\<lambda>i w. i\<lparr>script_witness := w\<rparr>) ins ws, rest)"
  using assms(3,1,2)
  by (induction ws ins arbitrary: bs rule: list_induct2) (auto simp: result_iff read_input_bytes)

lemma repeat_read_input:
  assumes "list_all btc_input_wf ins" and "concatE btc_input_bytes ins = Inr bs"
  shows "repeatP (length ins) (read_input []) (bs @ rest) = Inr (map (\<lambda>i. i\<lparr>script_witness := []\<rparr>) ins, rest)"
  using assms
  by (induction ins arbitrary: bs) (auto simp: result_iff read_input_bytes)

lemma read_inputs_plain_bytes:
  assumes "list_all btc_input_wf ins" and "bindE (mapE btc_input_bytes ins) encode_list = Inr bs"
  shows "read_inputs_plain (bs @ rest) = Inr (map (\<lambda>i. i\<lparr>script_witness := []\<rparr>) ins, rest)"
  using assms(2)
  by (elim encode_list_eq) (simp add: read_inputs_plain_def varint.dec_enc repeat_read_input [OF assms(1)])

lemma read_inputs_witness_bytes:
  assumes "list_all btc_input_wf ins" and "bindE (mapE btc_input_bytes ins) encode_list = Inr ibs"
    and "bindE (mapE btc_output_bytes outs) encode_list = Inr obs"
    and "concatE encode_bytearray_list ws = Inr wbs" and "length ws = length ins"
  shows "read_inputs True (ibs @ obs @ wbs @ rest) =
    Inr (map2 (\<lambda>i w. i\<lparr>script_witness := w\<rparr>) ins ws, obs @ rest)"
proof -
  have si: "skip_inputs (ibs @ obs @ wbs @ rest) = Inr (length ibs, length ins)"
    using read_inputs_plain_bytes [OF assms(1,2)] by (simp add: skip_inputs_def)
  have so: "skip_outputs (obs @ wbs @ rest) = Inr (length obs, length outs)"
    using read_outputs_bytes [OF assms(3)] by (simp add: skip_outputs_def)
  have "list_all (\<lambda>_. True) ws" by (simp add: list_all_iff)
  then have "repeatP (length ins) read_bytes_list (wbs @ rest) = Inr (ws, rest)"
    using bytearray_list.repeat_dec_enc [OF _ assms(4)] assms(5) by simp
  then have rw: "read_witnesses (length ins) (length ibs + length obs) (ibs @ obs @ wbs @ rest) =
      Inr (ws, ibs @ obs @ rest)"
    by (simp add: read_witnesses_def Let_def)
  show ?thesis
    using assms(2)
  proof (rule encode_list_eq)
    fix n body
    assume "encode_varint (int (length ins)) = Inr n" "concatE btc_input_bytes ins = Inr body" "ibs = n @ body"
    with si so rw show ?thesis
      using read_inputs_with_bytes [OF assms(1) _ assms(5), of body]
      by (simp add: read_inputs_def varint.dec_enc)
  qed
qed

text \<open>
  A transaction that the format can carry: with the witness flag every input has a witness;
  without it none has, and there is an input (its absence would read as the flag).
\<close>

definition btx_wf :: "btc_transaction \<Rightarrow> bool" where
  "btx_wf tx \<longleftrightarrow> list_all btc_input_wf (btx_inputs tx) \<and>
     (if include_witness tx then list_all btc_input_has_witness (btx_inputs tx)
      else btx_inputs tx \<noteq> [] \<and> \<not> btx_has_witness tx)"

lemma encode_varint_head:
  assumes "encode_varint n = Inr bs" and "0 < n"
  shows "\<exists>b t. bs = b # t \<and> b \<noteq> 0"
proof -
  from assms(1) consider "0 \<le> n" "n < 0xfd" "bs = to_le 1 (nat n)" | t where "bs = 0xfd # t"
    | t where "bs = 0xfe # t" | t where "bs = 0xff # t"
    by (auto simp: encode_varint_def result_iff split: if_splits)
  then show ?thesis
  proof cases
    case 1
    have "unat (byte_of (nat n)) \<noteq> 0" using 1(2) assms(2) by simp
    then have "byte_of (nat n) \<noteq> 0" by auto
    with 1(3) show ?thesis by (simp add: to_le_def to_be_simps)
  qed auto
qed

lemma read_segwit_flag_plain:
  assumes "bindE (mapE f xs) encode_list = Inr bs" and "xs \<noteq> []"
  shows "read_segwit_flag (bs @ rest) = Inr (False, bs @ rest)"
  using assms(1)
proof (rule encode_list_eq)
  fix n body
  assume n: "encode_varint (int (length xs)) = Inr n" and bs: "bs = n @ body"
  from encode_varint_head [OF n] assms(2) bs show ?thesis by (auto simp: read_segwit_flag_def)
qed

lemma read_segwit_flag_set [simp]: "read_segwit_flag (0 # 1 # rest) = Inr (True, rest)"
  by (simp add: read_segwit_flag_def)

lemma map2_witness_self: "map2 (\<lambda>i w. i\<lparr>script_witness := w\<rparr>) ins (map script_witness ins) = ins"
  by (induction ins) simp_all

lemma map_no_witness: "\<not> list_ex btc_input_has_witness ins \<Longrightarrow> map (\<lambda>i. i\<lparr>script_witness := []\<rparr>) ins = ins"
  by (induction ins) (auto simp: btc_input_has_witness_def)

lemma tx_witnesses_wf: "list_all btc_input_has_witness (btx_inputs tx) \<Longrightarrow> tx_witnesses tx = map script_witness (btx_inputs tx)"
  by (auto simp: tx_witnesses_def list_all_iff btc_input_has_witness_def)

lemma btx_decode_bytes:
  assumes "btx_wf tx" and "btx_bytes tx = Inr bs"
  shows "btx_decode bs = Inr tx"
proof -
  define wit where "wit = include_witness tx"
  have wit: "(btx_has_witness tx \<or> include_witness tx) = wit"
    using assms(1) by (auto simp: btx_wf_def wit_def split: if_splits)
  from assms(2) obtain v ibs obs wbs where v: "pack_int32 (btx_version tx) = Inr v"
    and i: "bindE (mapE btc_input_bytes (btx_inputs tx)) encode_list = Inr ibs"
    and os: "bindE (mapE btc_output_bytes (btx_outputs tx)) encode_list = Inr obs"
    and w: "(if wit then concatE encode_bytearray_list (tx_witnesses tx) else Inr []) = Inr wbs"
    and l: "0 \<le> lock_time tx" "lock_time tx < 256 ^ 4"
    and bs: "bs = v @ (if wit then [0, 1] else []) @ ibs @ obs @ wbs @ to_le 4 (nat (lock_time tx))"
    by (auto simp: btx_bytes_def btx_to_bytes_def wit Let_def result_iff)
  let ?L = "to_le 4 (nat (lock_time tx))"
  from assms(1) have wf: "list_all btc_input_wf (btx_inputs tx)" by (simp add: btx_wf_def)
  have flag: "read_segwit_flag ((if wit then [0, 1] else []) @ ibs @ obs @ wbs @ ?L) = Inr (wit, ibs @ obs @ wbs @ ?L)"
    using assms(1) read_segwit_flag_plain [OF i] by (auto simp: wit_def btx_wf_def)
  have ins: "read_inputs wit (ibs @ obs @ wbs @ ?L) = Inr (btx_inputs tx, obs @ ?L)"
  proof (cases wit)
    case True
    with assms(1) w have "concatE encode_bytearray_list (map script_witness (btx_inputs tx)) = Inr wbs"
      by (simp add: wit_def btx_wf_def tx_witnesses_wf)
    with True read_inputs_witness_bytes [OF wf i os, of "map script_witness (btx_inputs tx)" wbs ?L]
    show ?thesis by (simp add: map2_witness_self)
  next
    case False
    with assms(1) w read_inputs_plain_bytes [OF wf i] show ?thesis
      by (simp add: read_inputs_def wit_def btx_wf_def btx_has_witness_def map_no_witness)
  qed
  have "unpack_uint_le 4 ?L = Inr (lock_time tx, [])" using unpack_uint_le_to_le [OF l, of "[]"] by simp
  with flag ins v show ?thesis
    unfolding bs by (simp add: btx_decode_def int32.dec_enc read_outputs_bytes [OF os] read_uint32_def wit_def)
qed

text \<open>
  A Bitcoin transaction is read back from its serialisation, with and without witnesses;
  the witnesses, which the reader has to find behind inputs and outputs it has not read yet,
  are given back to the right inputs, and no byte is left over. So no two transactions that
  the format can carry have the same serialisation.
\<close>

theorem btx_roundtrip:
  assumes "btx_wf tx" and "btx_bytes tx = Inr bs"
  shows "btx_decode bs = Inr tx \<and> (\<forall>tx'. btx_wf tx' \<longrightarrow> btx_bytes tx' = Inr bs \<longrightarrow> tx' = tx)"
  using btx_decode_bytes [OF assms] btx_decode_bytes by fastforce

definition sample_btx :: btc_transaction where
  "sample_btx = \<lparr>btx_version = - 1, include_witness = True,
     btx_inputs = [\<lparr>previous_output = outpoint_null, script_sig = [3, 0x17, 0x2c],
       sequence_no = SEQUENCE_FINAL, script_witness = [replicate 32 0, [7]]\<rparr>],
     btx_outputs = [\<lparr>bo_value = 40113268, script_pubkey = [0x51]\<rparr>], lock_time = 0\<rparr>"

theorem btx_roundtrip_witness:
  "btx_wf sample_btx \<and> (\<exists>bs. btx_bytes sample_btx = Inr bs \<and> btx_decode bs = Inr sample_btx)"
proof -
  have "btx_wf sample_btx"
    by (simp add: sample_btx_def btx_wf_def btc_input_wf_def outpoint_null_def btc_input_has_witness_def)
  moreover have "\<exists>bs. btx_bytes sample_btx = Inr bs"
    by (simp add: sample_btx_def btx_bytes_def btx_to_bytes_def pack_int32_def btc_input_bytes_def
        btc_outpoint_bytes_def outpoint_null_def SEQUENCE_FINAL_def encode_uint32_def encode_list_def
        encode_bytearray_def encode_varint_def pack_uint_le_def btc_output_bytes_def tx_witnesses_def
        encode_bytearray_list_def)
  ultimately show ?thesis using btx_roundtrip by blast
qed

end
