(* ===== verification/Merged_Mining.thy ===== *)
theory Merged_Mining
  imports Bitcoin Block_Format
begin

text \<open>
  Merged mining: the auxiliary proof-of-work (\<^verbatim>\<open>hathor/transaction/aux_pow.py\<close>), the blocks
  that carry one (\<^verbatim>\<open>merge_mined_block.py\<close>), and the jobs of the coordinator that builds them
  (\<^verbatim>\<open>hathor/merged_mining/coordinator.py\<close>).
\<close>

subsection \<open>Auxiliary proof-of-work\<close>

definition MAGIC_NUMBER :: bytes where
  "MAGIC_NUMBER = [0x48, 0x61, 0x74, 0x68]"

record aux_pow =
  header_head :: bytes
  coinbase_head :: bytes
  coinbase_tail :: bytes
  merkle_path :: "bytes list"
  header_tail :: bytes

definition aux_pow_dummy :: aux_pow where
  "aux_pow_dummy = \<lparr>header_head = replicate 36 0, coinbase_head = MAGIC_NUMBER, coinbase_tail = [],
     merkle_path = [replicate 32 0], header_tail = replicate 12 0\<rparr>"

definition aux_pow_calculate_hash :: "(bytes \<Rightarrow> bytes) \<Rightarrow> aux_pow \<Rightarrow> bytes \<Rightarrow> bytes result" where
  "aux_pow_calculate_hash sha256 a base_block_hash =
     (let coinbase_tx_hash = sha256d_hash sha256 (coinbase_head a @ base_block_hash @ coinbase_tail a) in
      bindE (build_merkle_root_from_path sha256 (coinbase_tx_hash # merkle_path a)) (\<lambda>root.
      Inr (sha256d_hash sha256 (header_head a @ rev root @ header_tail a))))"

text \<open>\<^verbatim>\<open>x in b\<close> and \<^verbatim>\<open>b.endswith(x)\<close> on bytes, and the slice \<^verbatim>\<open>b[i:j]\<close> of non-negative bounds.\<close>

definition is_prefix :: "bytes \<Rightarrow> bytes \<Rightarrow> bool" where
  "is_prefix x b \<longleftrightarrow> take (length x) b = x"

fun bytes_in :: "bytes \<Rightarrow> bytes \<Rightarrow> bool" where
  "bytes_in x [] \<longleftrightarrow> x = []"
| "bytes_in x (b # bs) \<longleftrightarrow> is_prefix x (b # bs) \<or> bytes_in x bs"

definition bytes_endswith :: "bytes \<Rightarrow> bytes \<Rightarrow> bool" where
  "bytes_endswith b x \<longleftrightarrow> is_prefix (rev x) (rev b)"

definition bytes_slice :: "nat \<Rightarrow> nat \<Rightarrow> bytes \<Rightarrow> bytes" where
  "bytes_slice i j b = drop i (take j b)"

definition aux_pow_verify :: "aux_pow \<Rightarrow> unit result" where
  "aux_pow_verify a =
     bindE (guardE (bytes_endswith (coinbase_head a) MAGIC_NUMBER) (TxE AuxPowError)) (\<lambda>_.
     bindE (guardE (\<not> bytes_in MAGIC_NUMBER (bytes_slice 42 (length MAGIC_NUMBER) (coinbase_head a)))
              (TxE AuxPowError)) (\<lambda>_.
     guardE (\<not> length (merkle_path a) > 12) (TxE AuxPowError)))"

definition aux_pow_bytes :: "aux_pow \<Rightarrow> bytes result" where
  "aux_pow_bytes a =
     bindE (encode_bytearray (coinbase_head a)) (\<lambda>h.
     bindE (encode_bytearray (coinbase_tail a)) (\<lambda>t.
     bindE (encode_list (merkle_path a)) (\<lambda>p.
     Inr (header_head a @ h @ t @ p @ header_tail a))))"

definition aux_pow_from_bytes :: "bytes \<Rightarrow> aux_pow result" where
  "aux_pow_from_bytes a =
     bindE (read_nbytes 36 a) (\<lambda>(hh, a).
     bindE (read_bytes a) (\<lambda>(ch, a).
     bindE (read_bytes a) (\<lambda>(ct, a).
     bindE (read_varint a) (\<lambda>(c, a).
     bindE (repeatP (nat c) (unpack_len 32) a) (\<lambda>(path, a).
     bindE (read_nbytes 12 a) (\<lambda>(ht, a).
     Inr \<lparr>header_head = hh, coinbase_head = ch, coinbase_tail = ct, merkle_path = path,
          header_tail = ht\<rparr>))))))"

subsection \<open>Merge-mined blocks\<close>

record merge_mined_block = block +
  mm_aux_pow :: "aux_pow option"

definition get_base_hash :: "(bytes \<Rightarrow> bytes) \<Rightarrow> 'a block_scheme \<Rightarrow> bytes result" where
  "get_base_hash sha256 b =
     bindE (blk_get_funds_struct b) (\<lambda>f.
     bindE (blk_get_graph_struct b) (\<lambda>g.
     Inr (sha256d_hash sha256 (get_header_without_nonce sha256 f g))))"

definition mm_calculate_hash :: "(bytes \<Rightarrow> bytes) \<Rightarrow> merge_mined_block \<Rightarrow> bytes result" where
  "mm_calculate_hash sha256 b =
     bindE (of_option (PyE AssertionError) (mm_aux_pow b)) (\<lambda>a.
     bindE (get_base_hash sha256 b) (\<lambda>h. aux_pow_calculate_hash sha256 a h))"

definition mm_get_struct_nonce :: "merge_mined_block \<Rightarrow> bytes result" where
  "mm_get_struct_nonce b =
     (case mm_aux_pow b of None \<Rightarrow> aux_pow_bytes aux_pow_dummy | Some a \<Rightarrow> aux_pow_bytes a)"

definition mm_get_struct :: "merge_mined_block \<Rightarrow> bytes result" where
  "mm_get_struct b =
     bindE (blk_get_funds_struct b) (\<lambda>f.
     bindE (blk_get_graph_struct b) (\<lambda>g.
     bindE (mm_get_struct_nonce b) (\<lambda>n. Inr (f @ g @ n))))"

definition mm_create_from_struct :: "(bytes \<Rightarrow> bytes) \<Rightarrow> bytes \<Rightarrow> merge_mined_block result" where
  "mm_create_from_struct sha256 struct_bytes =
     bindE (blk_get_funds_fields_from_struct struct_bytes) (\<lambda>((ver, outs), buf).
     bindE (blk_get_graph_fields_from_struct buf) (\<lambda>((w, ts, ps, d), buf).
     bindE (aux_pow_from_bytes buf) (\<lambda>a.
     (let b = \<lparr>nonce = 0, timestamp = ts, version = ver, weight = w, inputs = [], outputs = outs,
               parents = ps, tx_hash = None, blk_data = d, mm_aux_pow = Some a\<rparr> in
      bindE (mm_calculate_hash sha256 b) (\<lambda>h. Inr (b\<lparr>tx_hash := Some h\<rparr>))))))"

definition verify_aux_pow :: "(bytes \<Rightarrow> bytes) \<Rightarrow> merge_mined_block \<Rightarrow> unit result" where
  "verify_aux_pow sha256 b =
     bindE (of_option (PyE AssertionError) (mm_aux_pow b)) (\<lambda>a.
     bindE (get_base_hash sha256 b) (\<lambda>_. aux_pow_verify a))"

subsection \<open>Jobs of the coordinator\<close>

text \<open>\<^verbatim>\<open>flip80\<close> over \<^verbatim>\<open>ichunks(data, 4)\<close>.\<close>

fun ichunks :: "nat \<Rightarrow> bytes \<Rightarrow> bytes list" where
  "ichunks n [] = []"
| "ichunks n (b # bs) = (if n = 0 then [] else take n (b # bs) # ichunks n (drop (n - 1) bs))"

definition flip80 :: "bytes \<Rightarrow> bytes result" where
  "flip80 d =
     bindE (guardE (length d mod 4 = 0) (PyE ValueError)) (\<lambda>_. Inr (concat (map rev (ichunks 4 d))))"

record single_miner_work =
  wk_nonce :: int
  xnonce1 :: bytes
  xnonce2 :: bytes
  wk_timestamp :: "int option"

definition xnonce :: "single_miner_work \<Rightarrow> bytes" where
  "xnonce w = xnonce1 w @ xnonce2 w"

record single_miner_job =
  prev_hash :: bytes
  job_coinbase_head :: bytes
  job_coinbase_tail :: bytes
  job_merkle_path :: "bytes list"
  job_version :: int
  job_bits :: bytes
  job_timestamp :: int
  hathor_block :: merge_mined_block

definition make_coinbase :: "single_miner_job \<Rightarrow> single_miner_work \<Rightarrow> btc_transaction result" where
  "make_coinbase job work = btx_decode (job_coinbase_head job @ xnonce work @ job_coinbase_tail job)"

definition make_bitcoin_block_and_coinbase ::
  "(bytes \<Rightarrow> bytes) \<Rightarrow> single_miner_job \<Rightarrow> single_miner_work \<Rightarrow> (btc_header \<times> btc_transaction) result" where
  "make_bitcoin_block_and_coinbase sha256 job work =
     bindE (make_coinbase job work) (\<lambda>coinbase_tx.
     bindE (btx_txid sha256 coinbase_tx) (\<lambda>txid.
     bindE (build_merkle_root_from_path sha256 (txid # job_merkle_path job)) (\<lambda>root.
     Inr (\<lparr>bh_version = job_version job, bh_prev_block = prev_hash job, bh_merkle_root = root,
           bh_timestamp = (case wk_timestamp work of
              Some t \<Rightarrow> if t \<noteq> 0 then t else job_timestamp job | None \<Rightarrow> job_timestamp job),
           bh_bits = job_bits job, bh_nonce = wk_nonce work\<rparr>, coinbase_tx))))"

text \<open>\<^verbatim>\<open>bytes.split(sep)\<close>: the pieces between the occurrences of \<open>sep\<close>, from left to right.\<close>

function split_on :: "bytes \<Rightarrow> bytes \<Rightarrow> bytes \<Rightarrow> bytes list" where
  "split_on sep acc [] = [acc]"
| "split_on sep acc (b # bs) =
     (if is_prefix sep (b # bs) then acc # split_on sep [] (drop (length sep - 1) bs)
      else split_on sep (acc @ [b]) bs)"
  by pat_completeness auto
termination
  by (relation "measure (\<lambda>(_, _, bs). length bs)") auto

definition bytes_split :: "bytes \<Rightarrow> bytes \<Rightarrow> bytes list result" where
  "bytes_split b sep = bindE (guardE (sep \<noteq> []) (PyE ValueError)) (\<lambda>_. Inr (split_on sep [] b))"

text \<open>\<^verbatim>\<open>a, b = parts\<close> raises when there are not two parts.\<close>

fun unpack_pair :: "'a list \<Rightarrow> ('a \<times> 'a) result" where
  "unpack_pair [a, b] = Inr (a, b)"
| "unpack_pair _ = Inl (PyE ValueError)"

lemma unpack_pair_eq_Inr [result_iff]: "unpack_pair xs = Inr p \<longleftrightarrow> xs = [fst p, snd p]"
  by (cases p, cases xs rule: unpack_pair.cases) auto

definition build_aux_pow :: "(bytes \<Rightarrow> bytes) \<Rightarrow> single_miner_job \<Rightarrow> single_miner_work \<Rightarrow> aux_pow result" where
  "build_aux_pow sha256 job work =
     bindE (make_bitcoin_block_and_coinbase sha256 job work) (\<lambda>(bitcoin_header, coinbase_tx).
     bindE (btc_header_bytes bitcoin_header) (\<lambda>header.
     bindE (get_base_hash sha256 (hathor_block job)) (\<lambda>block_base_hash.
     bindE (btx_bytes coinbase_tx) (\<lambda>coinbase.
     bindE (guardE (bytes_in block_base_hash coinbase) (PyE AssertionError)) (\<lambda>_.
     bindE (bytes_split coinbase block_base_hash) (\<lambda>parts.
     bindE (unpack_pair parts) (\<lambda>(ch, ct).
     Inr \<lparr>header_head = take 36 header, coinbase_head = ch, coinbase_tail = ct,
          merkle_path = job_merkle_path job, header_tail = drop (length header - 12) header\<rparr>)))))))"

text \<open>
  \<^verbatim>\<open>make_coinbase_transaction\<close>. The witness list of a coinbase input is the class's default
  value, one list object that all inputs share and that \<^verbatim>\<open>append\<close> changes for all of them: it
  is an argument and a result here.
\<close>

record bitcoin_coord_job =
  cj_height :: int
  cj_coinbase_value :: int
  cj_witness_commitment :: "bytes option"
  cj_append_to_input :: bool

definition rstrip_zeros :: "bytes \<Rightarrow> bytes" where
  "rstrip_zeros b = rev (dropWhile (\<lambda>x. x = 0) (rev b))"

definition pack_int64_le :: "int \<Rightarrow> bytes result" where
  "pack_int64_le x =
     (if - (2 ^ 63) \<le> x \<and> x < 2 ^ 63 then Inr (to_le 8 (nat (x mod 2 ^ 64))) else Inl (PyE StructError))"

definition make_coinbase_transaction ::
  "bitcoin_coord_job \<Rightarrow> bytes \<Rightarrow> bytes \<Rightarrow> int option \<Rightarrow> bytes list \<Rightarrow> (btc_transaction \<times> bytes list) result" where
  "make_coinbase_transaction cj hathor_block_hash payback extra_nonce_size default_witness =
     bindE (pack_int64_le (cj_height cj)) (\<lambda>h.
     bindE (encode_bytearray (rstrip_zeros h)) (\<lambda>hs.
     (let commit = MAGIC_NUMBER @ hathor_block_hash
                   @ (case extra_nonce_size of None \<Rightarrow> [] | Some n \<Rightarrow> replicate (nat n) 0);
          coinbase_script = (if cj_append_to_input cj then hs @ commit else hs);
          default_witness' = (if cj_witness_commitment cj \<noteq> None then default_witness @ [replicate 32 0]
                              else default_witness);
          coinbase_input = (btc_input_coinbase coinbase_script)\<lparr>script_witness := default_witness'\<rparr>;
          outs = [\<lparr>bo_value = cj_coinbase_value cj, script_pubkey = payback\<rparr>]
                 @ (case cj_witness_commitment cj of None \<Rightarrow> []
                    | Some w \<Rightarrow> [\<lparr>bo_value = 0, script_pubkey = w\<rparr>])
                 @ (if cj_append_to_input cj then [] else [\<lparr>bo_value = 0, script_pubkey = commit\<rparr>])
      in Inr (\<lparr>btx_version = 1, include_witness = False, btx_inputs = [coinbase_input],
               btx_outputs = outs, lock_time = 0\<rparr>, default_witness'))))"

text \<open>\<^verbatim>\<open>next_xnonce1\<close> with sequential numbering: the counter, and the bytes handed out.\<close>

definition XNONCE1_SIZE :: nat where
  "XNONCE1_SIZE = 2"

definition MAX_XNONCE1 :: int where
  "MAX_XNONCE1 = 2 ^ XNONCE1_SIZE - 1"

definition next_xnonce1 :: "int \<Rightarrow> (bytes \<times> int) result" where
  "next_xnonce1 next_value =
     bindE (int_to_bytes next_value XNONCE1_SIZE) (\<lambda>b.
     Inr (b, if next_value + 1 > MAX_XNONCE1 then 0 else next_value + 1))"

subsection \<open>The wire format\<close>

definition aux_pow_wf :: "aux_pow \<Rightarrow> bool" where
  "aux_pow_wf a \<longleftrightarrow> length (header_head a) = 36 \<and> length (header_tail a) = 12 \<and>
     list_all (\<lambda>h. length h = 32) (merkle_path a)"

lemma read_nbytes_append [simp]: "length h = n \<Longrightarrow> read_nbytes n (h @ rest) = Inr (h, rest)"
  by (simp add: read_nbytes_def)

lemma aux_pow_from_bytes_bytes:
  assumes "aux_pow_wf a" and "aux_pow_bytes a = Inr bs"
  shows "aux_pow_from_bytes (bs @ junk) = Inr a"
proof -
  from assms(2) obtain h t n where "encode_bytearray (coinbase_head a) = Inr h"
    "encode_bytearray (coinbase_tail a) = Inr t" "encode_varint (int (length (merkle_path a))) = Inr n"
    "bs = header_head a @ h @ t @ n @ concat (merkle_path a) @ header_tail a"
    by (auto simp: aux_pow_bytes_def encode_list_def result_iff)
  with assms(1) show ?thesis
    by (simp add: aux_pow_from_bytes_def aux_pow_wf_def bytearray.dec_enc varint.dec_enc repeat_blobs)
qed

lemma mm_calculate_hash_Some:
  "mm_calculate_hash sha256 \<lparr>nonce = n, timestamp = ts, version = v, weight = w, inputs = is,
     outputs = os, parents = ps, tx_hash = Some h, blk_data = d, mm_aux_pow = a\<rparr> =
   mm_calculate_hash sha256 \<lparr>nonce = n, timestamp = ts, version = v, weight = w, inputs = is,
     outputs = os, parents = ps, tx_hash = None, blk_data = d, mm_aux_pow = a\<rparr>"
  by (simp add: mm_calculate_hash_def get_base_hash_def blk_get_funds_struct_def blk_get_graph_struct_def
      get_graph_struct_def)

lemma mm_create_get_struct:
  assumes "hashes_wf (parents b)" and "inputs b = []" and "nonce b = 0" and "mm_aux_pow b = Some a"
    and "aux_pow_wf a" and "mm_get_struct b = Inr bs" and "mm_calculate_hash sha256 b = Inr h"
    and "tx_hash b = Some h"
  shows "mm_create_from_struct sha256 (bs @ junk) = Inr b"
proof -
  from assms(4,6) obtain f g n where fg: "blk_get_funds_struct b = Inr f" "blk_get_graph_struct b = Inr g"
    and n: "aux_pow_bytes a = Inr n" and bs: "bs = f @ g @ n"
    by (auto simp: mm_get_struct_def mm_get_struct_nonce_def result_iff)
  have "bindE (mm_calculate_hash sha256 \<lparr>nonce = 0, timestamp = timestamp b, version = version b,
      weight = weight b, inputs = [], outputs = outputs b, parents = parents b, tx_hash = None,
      blk_data = blk_data b, mm_aux_pow = Some a\<rparr>) (\<lambda>h. Inr \<lparr>nonce = 0, timestamp = timestamp b,
      version = version b, weight = weight b, inputs = [], outputs = outputs b, parents = parents b,
      tx_hash = Some h, blk_data = blk_data b, mm_aux_pow = Some a\<rparr>) = Inr b"
    using assms(2-4,7,8) by (cases b) (simp add: mm_calculate_hash_Some)
  with bs aux_pow_from_bytes_bytes [OF assms(5) n] show ?thesis
    using blk_funds_dec_enc [OF fg(1)] blk_graph_dec_enc [OF assms(1) fg(2)]
    by (simp add: mm_create_from_struct_def Let_def)
qed

definition sample_mm_block :: merge_mined_block where
  "sample_mm_block = \<lparr>nonce = 0, timestamp = 1578075305, version = 3, weight = 0x4035000000000000,
     inputs = [], outputs = [\<lparr>to_value = 6400, to_script = [0x51], to_token_data = 0\<rparr>],
     parents = [replicate 32 1, replicate 32 2, replicate 32 3], tx_hash = Some (replicate 32 0),
     blk_data = [0x68, 0x69], mm_aux_pow = Some aux_pow_dummy\<rparr>"

lemma length_sample_sha256d [simp]: "sha256d_hash sample_sha256 bs = replicate 32 0"
  by (simp add: sha256d_hash_def encode_revbytes_def sample_sha256_def)

lemma sample_mm_block_wf:
  "hashes_wf (parents sample_mm_block)" "inputs sample_mm_block = []" "nonce sample_mm_block = 0"
  "mm_aux_pow sample_mm_block = Some aux_pow_dummy" "aux_pow_wf aux_pow_dummy"
  "tx_hash sample_mm_block = Some (replicate 32 0)"
  by (simp_all add: sample_mm_block_def hashes_wf_def TX_HASH_SIZE_def aux_pow_wf_def aux_pow_dummy_def)

lemma sample_mm_block_struct: "\<exists>bs. mm_get_struct sample_mm_block = Inr bs"
  by (simp add: sample_mm_block_def mm_get_struct_def blk_get_funds_struct_def blk_get_graph_struct_def
      mm_get_struct_nonce_def aux_pow_bytes_def aux_pow_dummy_def MAGIC_NUMBER_def encode_bytearray_def
      encode_list_def encode_varint_def pack_uint_le_def encoder_defs)

lemma sample_mm_block_hash: "mm_calculate_hash sample_sha256 sample_mm_block = Inr (replicate 32 0)"
  by (simp add: sample_mm_block_def mm_calculate_hash_def get_base_hash_def blk_get_funds_struct_def
      blk_get_graph_struct_def aux_pow_calculate_hash_def aux_pow_dummy_def encoder_defs)

subsection \<open>Verification of an auxiliary proof-of-work\<close>

text \<open>
  C6: an auxiliary proof-of-work passes \<^verbatim>\<open>verify\<close> exactly when its coinbase head ends in the magic
  number and its Merkle path has at most 12 links. The check for a second occurrence of the
  magic number, which the code makes on the slice \<^verbatim>\<open>[42:4]\<close>, never rejects anything.
\<close>

theorem aux_pow_verify_iff:
  "aux_pow_verify a = Inr () \<longleftrightarrow>
     (\<exists>p. coinbase_head a = p @ MAGIC_NUMBER) \<and> length (merkle_path a) \<le> 12"
proof -
  have "bytes_endswith b x \<longleftrightarrow> (\<exists>p. b = p @ x)" for b x
  proof
    assume "bytes_endswith b x"
    then have "rev b = rev x @ drop (length x) (rev b)"
      using append_take_drop_id [of "length x" "rev b"] by (simp add: bytes_endswith_def is_prefix_def)
    then have "b = rev (drop (length x) (rev b)) @ x" by (metis rev_append rev_rev_ident)
    then show "\<exists>p. b = p @ x" by blast
  qed (auto simp: bytes_endswith_def is_prefix_def)
  moreover have "bytes_slice 42 (length MAGIC_NUMBER) b = []" for b
    by (simp add: bytes_slice_def MAGIC_NUMBER_def)
  moreover have "\<not> bytes_in MAGIC_NUMBER []" by (simp add: MAGIC_NUMBER_def)
  ultimately show ?thesis by (auto simp: aux_pow_verify_def result_iff)
qed

text \<open>
  The number of links of the Merkle path is taken from the wire and never compared with
  the bytes that are there: a buffer of at most 60 bytes makes \<^verbatim>\<open>from_bytes\<close> build a path of any
  length below \<open>2 ^ 64\<close>.
\<close>

theorem aux_pow_path_unbounded:
  assumes "n < 2 ^ 64"
  shows "\<exists>bs a. length bs \<le> 60 \<and> aux_pow_from_bytes bs = Inr a \<and> length (merkle_path a) = n"
proof -
  have empty: "repeatP k (unpack_len 32) [] = Inr (replicate k [], [])" for k
    by (induction k) (simp_all add: unpack_len_def)
  have "\<exists>v. encode_varint (int n) = Inr v"
    using assms by (simp add: encode_varint_def pack_uint_le_def)
  then obtain v where v: "encode_varint (int n) = Inr v" ..
  have len: "length v \<le> 9"
    using v by (auto simp: encode_varint_def result_iff split: if_splits)
  have z: "encode_varint 0 = Inr [0]" by (simp add: encode_varint_def pack_uint_le_def to_le_def py_eval byte_of_def)
  have "read_bytes (0 # rest) = Inr ([], rest)" for rest
    using varint.dec_enc [OF _ z, of rest] by (simp add: read_bytes_def read_nbytes_def)
  moreover have "read_varint (v @ []) = Inr (int n, [])" by (rule varint.dec_enc [OF _ v]) simp
  ultimately have "aux_pow_from_bytes (replicate 36 0 @ 0 # 0 # v) =
      Inr \<lparr>header_head = replicate 36 0, coinbase_head = [], coinbase_tail = [],
        merkle_path = replicate n [], header_tail = []\<rparr>"
    by (simp add: aux_pow_from_bytes_def empty) (simp add: read_nbytes_def)
  then show ?thesis using len by (intro exI conjI) auto
qed

theorem aux_pow_path_unbounded_witness:
  "\<exists>bs a. length bs \<le> 60 \<and> aux_pow_from_bytes bs = Inr a \<and> length (merkle_path a) = 2 ^ 40"
  by (rule aux_pow_path_unbounded) simp

subsection \<open>The job of a miner\<close>

lemma is_prefix_eq: "is_prefix x b \<Longrightarrow> b = x @ drop (length x) b"
  using append_take_drop_id [of "length x" b] by (simp add: is_prefix_def)

lemma split_on_one: "split_on sep acc bs = [x] \<Longrightarrow> x = acc @ bs"
proof (induction sep acc bs arbitrary: x rule: split_on.induct)
  case (2 sep acc b bs)
  show ?case
  proof (cases "is_prefix sep (b # bs)")
    case True
    with "2.prems" have "split_on sep [] (drop (length sep - 1) bs) = []" by simp
    moreover have "split_on sep y zs \<noteq> []" for y zs by (induction sep y zs rule: split_on.induct) auto
    ultimately show ?thesis by blast
  next
    case False
    with 2 show ?thesis by simp
  qed
qed simp

lemma split_on_two:
  "sep \<noteq> [] \<Longrightarrow> split_on sep acc bs = [x, y] \<Longrightarrow> acc @ bs = x @ sep @ y"
proof (induction sep acc bs arbitrary: x rule: split_on.induct)
  case (2 sep acc b bs)
  show ?case
  proof (cases "is_prefix sep (b # bs)")
    case True
    from True "2.prems"(2) have "acc = x" "split_on sep [] (drop (length sep - 1) bs) = [y]" by simp_all
    then have "y = drop (length sep - 1) bs" using split_on_one by fastforce
    moreover have "b # bs = sep @ drop (length sep - 1) bs"
      using is_prefix_eq [OF True] "2.prems"(1) by (cases sep) auto
    ultimately show ?thesis using \<open>acc = x\<close> by simp
  next
    case False
    with 2 show ?thesis by simp
  qed
qed simp

lemma merkle_root_from_path_length:
  assumes "\<And>x. length (sha256 x) = 32" and "length c = 32"
  shows "build_merkle_root_from_path sha256 (c # path) = Inr r \<Longrightarrow> length r = 32"
  using assms(2)
proof (induction path arbitrary: c)
  case (Cons p path)
  have "length (sha256d_hash sha256 (merkle_concat c p)) = 32"
    using assms(1) by (simp add: sha256d_hash_def encode_revbytes_def)
  with Cons show ?case by simp
qed simp


lemma is_prefix_Cons_neq: "b \<noteq> f \<Longrightarrow> \<not> is_prefix (f # t) (b # bs)"
  by (simp add: is_prefix_def)

lemma is_prefix_append [simp]: "is_prefix x (x @ y)"
  by (simp add: is_prefix_def)

lemma split_on_absent: "f \<notin> set ys \<Longrightarrow> split_on (f # t) acc ys = [acc @ ys]"
  by (induction ys arbitrary: acc) (auto simp: is_prefix_Cons_neq)

lemma split_on_present:
  assumes "f \<notin> set xs" and "f \<notin> set ys"
  shows "split_on (f # t) acc (xs @ (f # t) @ ys) = [acc @ xs, ys]"
  using assms(1)
proof (induction xs arbitrary: acc)
  case Nil
  have "is_prefix (f # t) ((f # t) @ ys)" by (rule is_prefix_append)
  with assms(2) show ?case by (simp add: split_on_absent)
qed (auto simp: is_prefix_Cons_neq)

lemma bytes_in_append: "bytes_in x (p @ x @ q)"
proof (induction p)
  case Nil
  show ?case
  proof (cases "x @ q")
    case (Cons b bs)
    with is_prefix_append [of x q] show ?thesis by simp
  qed simp
qed simp

definition sample_sha7 :: "bytes \<Rightarrow> bytes" where
  "sample_sha7 _ = replicate 32 7"

definition sample_coinbase :: btc_transaction where
  "sample_coinbase = \<lparr>btx_version = 1, include_witness = False,
     btx_inputs = [btc_input_coinbase (MAGIC_NUMBER @ replicate 32 7 @ [1, 2])],
     btx_outputs = [\<lparr>bo_value = 0, script_pubkey = [0x51]\<rparr>], lock_time = 0\<rparr>"

definition sample_coinbase_head :: bytes where
  "sample_coinbase_head = [1, 0, 0, 0, 1] @ replicate 32 0 @ [0xff, 0xff, 0xff, 0xff, 38] @ MAGIC_NUMBER"

definition sample_coinbase_tail :: bytes where
  "sample_coinbase_tail = [0xff, 0xff, 0xff, 0xff, 1, 0, 0, 0, 0, 0, 0, 0, 0, 1, 0x51, 0, 0, 0, 0]"

definition sample_job :: single_miner_job where
  "sample_job = \<lparr>prev_hash = replicate 32 1, job_coinbase_head = sample_coinbase_head @ replicate 32 7,
     job_coinbase_tail = sample_coinbase_tail, job_merkle_path = [replicate 32 2], job_version = 1,
     job_bits = [1, 2, 3, 4], job_timestamp = 1578075305, hathor_block = sample_mm_block\<rparr>"

definition sample_work :: single_miner_work where
  "sample_work = \<lparr>wk_nonce = 9, xnonce1 = [1], xnonce2 = [2], wk_timestamp = None\<rparr>"

lemma sample_coinbase_bytes:
  "btx_bytes sample_coinbase = Inr (sample_coinbase_head @ replicate 32 7 @ [1, 2] @ sample_coinbase_tail)"
  by (simp add: sample_coinbase_def btx_bytes_def btx_to_bytes_def btx_has_witness_def btc_input_has_witness_def
      pack_int32_def btc_input_bytes_def btc_input_coinbase_def btc_outpoint_bytes_def outpoint_null_def
      SEQUENCE_FINAL_def encode_uint32_def encode_list_def encode_bytearray_def encode_varint_def
      pack_uint_le_def btc_output_bytes_def sample_coinbase_head_def sample_coinbase_tail_def
      MAGIC_NUMBER_def to_le_def to_be_numeral to_be_simps byte_of_def)


subsection \<open>Shared state of the coordinator\<close>

lemma make_coinbase_total:
  assumes "- (2 ^ 63) \<le> cj_height cj" and "cj_height cj < 2 ^ 63"
  shows "\<exists>r. make_coinbase_transaction cj h p n ws = Inr r"
proof -
  have "length (rstrip_zeros (to_le 8 x)) \<le> 8" for x
    using length_dropWhile_le [of "\<lambda>x. x = 0" "rev (to_le 8 x)"] by (simp add: rstrip_zeros_def)
  then have "\<exists>bs. encode_bytearray (rstrip_zeros (to_le 8 x)) = Inr bs" for x
    by (simp add: encode_bytearray_def encode_varint_def pack_uint_le_def order_le_less_trans [where y = "8 :: nat"])
  then obtain f where "encode_bytearray (rstrip_zeros (to_le 8 x)) = Inr (f x)" for x by metis
  with assms show ?thesis by (simp add: make_coinbase_transaction_def pack_int64_le_def Let_def)
qed

text \<open>
  The witness of a coinbase leaks into all later ones. One job with a witness commitment
  appends to the default witness list of the class; from then on every coinbase transaction
  that is made has a witness, with or without a commitment of its own, so that its
  serialisation is no longer the one its txid is computed from.
\<close>

theorem coinbase_witness_leak:
  assumes "make_coinbase_transaction cj h p n ws = Inr (tx, ws')" and "cj_witness_commitment cj \<noteq> None"
    and "make_coinbase_transaction cj2 h2 p2 n2 ws' = Inr (tx2, ws2)"
  shows "ws' = ws @ [replicate 32 0] \<and> btx_has_witness tx2 \<and> \<not> include_witness tx2"
  using assms
  by (auto simp: make_coinbase_transaction_def Let_def result_iff btx_has_witness_def
      btc_input_has_witness_def btc_input_coinbase_def)

theorem coinbase_witness_leak_witness:
  "\<exists>tx ws' tx2 ws2. make_coinbase_transaction \<lparr>cj_height = 500, cj_coinbase_value = 1,
      cj_witness_commitment = Some [7], cj_append_to_input = True\<rparr> (replicate 32 7) [] None [] = Inr (tx, ws') \<and>
    make_coinbase_transaction \<lparr>cj_height = 501, cj_coinbase_value = 1,
      cj_witness_commitment = None, cj_append_to_input = True\<rparr> (replicate 32 7) [] None ws' = Inr (tx2, ws2) \<and>
    btx_has_witness tx2"
proof -
  let ?j1 = "\<lparr>cj_height = 500, cj_coinbase_value = 1, cj_witness_commitment = Some [7], cj_append_to_input = True\<rparr>"
  let ?j2 = "\<lparr>cj_height = 501, cj_coinbase_value = 1, cj_witness_commitment = None, cj_append_to_input = True\<rparr>"
  obtain tx ws' where 1: "make_coinbase_transaction ?j1 (replicate 32 7) [] None [] = Inr (tx, ws')"
    using make_coinbase_total [of ?j1] by fastforce
  obtain tx2 ws2 where 2: "make_coinbase_transaction ?j2 (replicate 32 7) [] None ws' = Inr (tx2, ws2)"
    using make_coinbase_total [of ?j2] by fastforce
  from coinbase_witness_leak [OF 1 _ 2] 1 2 show ?thesis by auto
qed

text \<open>
  The sequential extra nonces: the largest one is computed as \<open>2 ^ 2 - 1\<close> for a field of two
  bytes, so that the fifth subscription gets the extra nonce of the first.
\<close>

theorem next_xnonce1_cycle:
  "\<exists>b0 b1 b2 b3. next_xnonce1 0 = Inr (b0, 1) \<and> next_xnonce1 1 = Inr (b1, 2) \<and>
     next_xnonce1 2 = Inr (b2, 3) \<and> next_xnonce1 3 = Inr (b3, 0)"
  by (simp add: next_xnonce1_def XNONCE1_SIZE_def MAX_XNONCE1_def int_to_bytes_def)

end
