(* ===== verification/Vertex.thy ===== *)
theory Vertex
  imports Merged_Mining Token_Creation_Format
begin

text \<open>
  The four classes of vertices together: the version enumeration and the dispatch of
  \<^verbatim>\<open>tx_or_block_from_bytes\<close> (\<^verbatim>\<open>hathor/transaction/base_transaction.py\<close>).
\<close>

subsection \<open>Versions\<close>

datatype tx_version = REGULAR_BLOCK | REGULAR_TRANSACTION | TOKEN_CREATION_TRANSACTION | MERGE_MINED_BLOCK

fun tx_version_value :: "tx_version \<Rightarrow> int" where
  "tx_version_value REGULAR_BLOCK = 0"
| "tx_version_value REGULAR_TRANSACTION = 1"
| "tx_version_value TOKEN_CREATION_TRANSACTION = 2"
| "tx_version_value MERGE_MINED_BLOCK = 3"

definition tx_version_member :: "int \<Rightarrow> tx_version option" where
  "tx_version_member n =
     (if n = 0 then Some REGULAR_BLOCK else if n = 1 then Some REGULAR_TRANSACTION
      else if n = 2 then Some TOKEN_CREATION_TRANSACTION else if n = 3 then Some MERGE_MINED_BLOCK
      else None)"

text \<open>
  \<^verbatim>\<open>TxVersion(value)\<close>: a value that is no member goes through \<^verbatim>\<open>_missing_\<close>, which drops the
  high byte and looks the rest up again; the second lookup cannot drop anything.
\<close>

definition tx_version_of :: "int \<Rightarrow> tx_version result" where
  "tx_version_of n =
     (case tx_version_member n of
        Some v \<Rightarrow> Inr v
      | None \<Rightarrow>
          (let ver = n mod 256 in
           if ver = n then Inl (PyE ValueError)
           else of_option (PyE ValueError) (tx_version_member ver)))"

subsection \<open>Vertices\<close>

datatype vertex =
    VTransaction transaction
  | VTokenCreation token_creation_tx
  | VBlock block
  | VMergeMined merge_mined_block

definition vertex_of_struct :: "(bytes \<Rightarrow> bytes) \<Rightarrow> tx_version \<Rightarrow> bytes \<Rightarrow> vertex result" where
  "vertex_of_struct sha256 v d =
     (case v of
        REGULAR_BLOCK \<Rightarrow> bindE (blk_create_from_struct sha256 d) (\<lambda>b. Inr (VBlock b))
      | REGULAR_TRANSACTION \<Rightarrow> bindE (tx_create_from_struct sha256 d) (\<lambda>t. Inr (VTransaction t))
      | TOKEN_CREATION_TRANSACTION \<Rightarrow> bindE (tc_create_from_struct sha256 d) (\<lambda>t. Inr (VTokenCreation t))
      | MERGE_MINED_BLOCK \<Rightarrow> bindE (mm_create_from_struct sha256 d) (\<lambda>b. Inr (VMergeMined b)))"

definition tx_or_block_from_bytes :: "(bytes \<Rightarrow> bytes) \<Rightarrow> bytes \<Rightarrow> vertex result" where
  "tx_or_block_from_bytes sha256 d =
     (let ver = int (from_be (take 2 d)) in
      catchE (bindE (tx_version_of ver) (\<lambda>v. vertex_of_struct sha256 v d))
        (\<lambda>e. if is_ValueError e then Inl (PyE StructError) else Inl e))"

fun vertex_bytes :: "vertex \<Rightarrow> bytes result" where
  "vertex_bytes (VTransaction t) = tx_get_struct t"
| "vertex_bytes (VTokenCreation t) = tc_get_struct t"
| "vertex_bytes (VBlock b) = blk_get_struct b"
| "vertex_bytes (VMergeMined b) = mm_get_struct b"

fun vertex_calculate_hash :: "(bytes \<Rightarrow> bytes) \<Rightarrow> vertex \<Rightarrow> bytes result" where
  "vertex_calculate_hash sha256 (VTransaction t) = tx_calculate_hash sha256 t"
| "vertex_calculate_hash sha256 (VTokenCreation t) = tc_calculate_hash sha256 t"
| "vertex_calculate_hash sha256 (VBlock b) = blk_calculate_hash sha256 b"
| "vertex_calculate_hash sha256 (VMergeMined b) = mm_calculate_hash sha256 b"

fun vertex_base :: "vertex \<Rightarrow> base_transaction" where
  "vertex_base (VTransaction t) = base_transaction.truncate t"
| "vertex_base (VTokenCreation t) = base_transaction.truncate t"
| "vertex_base (VBlock b) = base_transaction.truncate b"
| "vertex_base (VMergeMined b) = base_transaction.truncate b"

fun is_block :: "vertex \<Rightarrow> bool" where
  "is_block (VBlock _) = True"
| "is_block (VMergeMined _) = True"
| "is_block _ = False"

fun vertex_class :: "vertex \<Rightarrow> tx_version" where
  "vertex_class (VTransaction _) = REGULAR_TRANSACTION"
| "vertex_class (VTokenCreation _) = TOKEN_CREATION_TRANSACTION"
| "vertex_class (VBlock _) = REGULAR_BLOCK"
| "vertex_class (VMergeMined _) = MERGE_MINED_BLOCK"

subsection \<open>Dispatch and class agree\<close>

text \<open>What the constructors and \<^verbatim>\<open>update_hash\<close> establish for a vertex of each class.\<close>

fun vertex_wf :: "vertex \<Rightarrow> bool" where
  "vertex_wf (VTransaction t) \<longleftrightarrow> tx_wf t"
| "vertex_wf (VTokenCreation t) \<longleftrightarrow> hashes_wf (parents t) \<and> list_all txinput_wf (inputs t) \<and>
     (\<exists>h. tx_hash t = Some h \<and> tokens t = [h])"
| "vertex_wf (VBlock b) \<longleftrightarrow> hashes_wf (parents b) \<and> inputs b = []"
| "vertex_wf (VMergeMined b) \<longleftrightarrow> hashes_wf (parents b) \<and> inputs b = [] \<and> nonce b = 0 \<and>
     (\<exists>a. mm_aux_pow b = Some a \<and> aux_pow_wf a)"

lemma tx_version_of_class:
  assumes "v mod 256 = tx_version_value c"
  shows "tx_version_of v = Inr c"
  using assms by (cases c) (auto simp: tx_version_of_def tx_version_member_def Let_def)

lemma bytes_start_version:
  assumes "vertex_bytes v = Inr bs"
  shows "int (from_be (take 2 bs)) = version (vertex_base v)"
proof -
  have "\<exists>t. bs = to_be 2 (nat (version (vertex_base v))) @ t \<and>
      0 \<le> version (vertex_base v) \<and> version (vertex_base v) < 256 ^ 2"
    using assms
    by (cases v) (auto simp: tx_get_struct_def tx_get_funds_struct_def tc_get_struct_def tc_get_funds_struct_def
        blk_get_struct_def mm_get_struct_def blk_get_funds_struct_def base_transaction.defs result_iff)
  then show ?thesis by (auto simp: nat_less_pow256)
qed

lemma from_bytes_dispatch:
  assumes "int (from_be (take 2 bs)) mod 256 = tx_version_value (vertex_class v)"
    and "vertex_of_struct sha256 (vertex_class v) bs = Inr v"
  shows "tx_or_block_from_bytes sha256 bs = Inr v"
  using tx_version_of_class [OF assms(1)] assms(2) by (simp add: tx_or_block_from_bytes_def Let_def)

lemma vertex_of_struct_bytes:
  assumes "vertex_wf v" and "vertex_bytes v = Inr bs" and "vertex_calculate_hash sha256 v = Inr h"
    and "tx_hash (vertex_base v) = Some h"
  shows "vertex_of_struct sha256 (vertex_class v) bs = Inr v"
proof (cases v)
  case (VTransaction t)
  with assms tx_create_get_struct [of t bs sha256 h] show ?thesis
    by (simp add: vertex_of_struct_def base_transaction.defs)
next
  case (VTokenCreation t)
  with assms tc_create_get_struct [of t bs sha256 h] show ?thesis
    by (auto simp: vertex_of_struct_def base_transaction.defs)
next
  case (VBlock b)
  with assms blk_create_get_struct [of b bs sha256 h] show ?thesis
    by (simp add: vertex_of_struct_def base_transaction.defs)
next
  case (VMergeMined b)
  with assms mm_create_get_struct [of b _ bs sha256 h "[]"] show ?thesis
    by (auto simp: vertex_of_struct_def base_transaction.defs)
qed

text \<open>
  C5: any vertex of the DAG, of any of the four classes, is read back from its bytes as itself
  by \<^verbatim>\<open>tx_or_block_from_bytes\<close>, which has only the first two bytes to choose the class; the
  high byte of the version is free.
\<close>

theorem vertex_roundtrip:
  assumes "vertex_wf v" and "vertex_bytes v = Inr bs" and "vertex_calculate_hash sha256 v = Inr h"
    and "tx_hash (vertex_base v) = Some h"
    and "version (vertex_base v) mod 256 = tx_version_value (vertex_class v)"
  shows "tx_or_block_from_bytes sha256 bs = Inr v"
  using from_bytes_dispatch vertex_of_struct_bytes [OF assms(1-4)] bytes_start_version [OF assms(2)] assms(5)
  by simp

theorem vertex_roundtrip_witness:
  "\<exists>bs. vertex_bytes (VMergeMined sample_mm_block) = Inr bs \<and>
     tx_or_block_from_bytes sample_sha256 bs = Inr (VMergeMined sample_mm_block)"
  using vertex_roundtrip [of "VMergeMined sample_mm_block" _ sample_sha256 "replicate 32 0"]
    sample_mm_block_wf sample_mm_block_struct sample_mm_block_hash
  by (auto simp: sample_mm_block_def base_transaction.defs)

text \<open>
  The bytes of a merge-mined block can be followed by anything. Unlike the other three
  decoders, which reject trailing bytes, \<^verbatim>\<open>MergeMinedBlock.create_from_struct\<close> ignores them: one
  block has infinitely many serialisations, all with the same hash.
\<close>

theorem mm_trailing_bytes:
  assumes "vertex_wf (VMergeMined b)" and "mm_get_struct b = Inr bs" and "mm_calculate_hash sha256 b = Inr h"
    and "tx_hash b = Some h" and "version b mod 256 = 3"
  shows "tx_or_block_from_bytes sha256 (bs @ junk) = Inr (VMergeMined b)"
proof (rule from_bytes_dispatch)
  have "length bs \<ge> 2"
    using assms(2) by (auto simp: mm_get_struct_def blk_get_funds_struct_def result_iff)
  with bytes_start_version [of "VMergeMined b" bs] assms(2,5)
  show "int (from_be (take 2 (bs @ junk))) mod 256 = tx_version_value (vertex_class (VMergeMined b))"
    by (simp add: base_transaction.defs)
  from assms mm_create_get_struct [of b _ bs sha256 h junk]
  show "vertex_of_struct sha256 (vertex_class (VMergeMined b)) (bs @ junk) = Inr (VMergeMined b)"
    by (auto simp: vertex_of_struct_def)
qed

theorem mm_trailing_bytes_witness:
  "\<exists>bs. mm_get_struct sample_mm_block = Inr bs \<and>
     tx_or_block_from_bytes sample_sha256 (bs @ [0xff]) = Inr (VMergeMined sample_mm_block)"
  using mm_trailing_bytes [of sample_mm_block _ sample_sha256 "replicate 32 0" "[0xff]"]
    sample_mm_block_wf sample_mm_block_struct sample_mm_block_hash
  by (auto simp: sample_mm_block_def)

end
