(* ===== verification/Script_Eval.thy ===== *)
theory Script_Eval
  imports Script_Build Vertex
begin

text \<open>
  Evaluating scripts, the second half of \<^verbatim>\<open>hathor/transaction/scripts.py\<close>: the operations on
  the stack, \<^verbatim>\<open>execute_eval\<close> and \<^verbatim>\<open>script_eval\<close>. The head of the list is the top of the stack;
  the log of messages, which only ends up in the text of an exception, is left out.
\<close>

datatype item = IBytes bytes | IInt int

type_synonym stack = "item list"

record script_extras =
  ex_tx :: vertex
  ex_txin :: txinput
  ex_spent_tx :: vertex

text \<open>\<^verbatim>\<open>get_sighash_all()\<close> of the two classes of transactions; blocks have no such method.\<close>

fun vertex_sighash_all :: "vertex \<Rightarrow> bytes result" where
  "vertex_sighash_all (VTransaction t) = tx_sighash_bytes True t"
| "vertex_sighash_all (VTokenCreation t) = tc_get_sighash_all True t"
| "vertex_sighash_all _ = Inl (PyE AttributeError)"

text \<open>\<^verbatim>\<open>assert isinstance(x, bytes)\<close>.\<close>

fun as_bytes :: "item \<Rightarrow> bytes result" where
  "as_bytes (IBytes b) = Inr b"
| "as_bytes (IInt _) = Inl (PyE AssertionError)"

subsection \<open>Pushing data\<close>

definition get_data_loop_step :: "bytes \<Rightarrow> nat \<Rightarrow> (bytes \<times> nat) result" where
  "get_data_loop_step d position =
     (let n = unat (d ! position); position = position + 1 in
      if position + n > length d then Inl (ScriptE OutOfData)
      else Inr (take n (drop position d), position + n))"

function get_data_loop :: "int \<Rightarrow> bytes \<Rightarrow> nat \<Rightarrow> int \<Rightarrow> bytes result" where
  "get_data_loop k d position iteration =
     (if position < length d then
        bindE (get_data_loop_step d position) (\<lambda>(v, position').
        if iteration = k then Inr v else get_data_loop k d position' (iteration + 1))
      else Inl (ScriptE DataIndexError))"
  by pat_completeness auto
termination
  by (relation "measure (\<lambda>(_, d, p, _). length d - p)")
    (auto simp: get_data_loop_step_def Let_def split: if_splits)

definition get_data_value :: "int \<Rightarrow> bytes \<Rightarrow> bytes result" where
  "get_data_value k d = get_data_loop k d 0 0"

definition op_pushdata :: "nat \<Rightarrow> bytes \<Rightarrow> stack \<Rightarrow> (nat \<times> stack) result" where
  "op_pushdata position full_data stack =
     (let n = unat (full_data ! position) in
      bindE (guardE (n \<le> 75) (PyE AssertionError)) (\<lambda>_.
      (let position = position + 1 in
       if position + n > length full_data then Inl (ScriptE OutOfData)
       else Inr (position + n, IBytes (take n (drop position full_data)) # stack))))"

definition op_pushdata1 :: "nat \<Rightarrow> bytes \<Rightarrow> stack \<Rightarrow> (nat \<times> stack) result" where
  "op_pushdata1 position full_data stack =
     (let data_len = length full_data; position = position + 1 in
      if position \<ge> data_len then Inl (ScriptE OutOfData)
      else (let n = unat (full_data ! position) in
            if position + n \<ge> data_len then Inl (ScriptE OutOfData)
            else (let position = position + 1 in
                  Inr (position + n, IBytes (take n (drop position full_data)) # stack))))"

definition op_integer :: "byte \<Rightarrow> stack \<Rightarrow> stack result" where
  "op_integer opcode stack =
     (let to_append = uint opcode - uint OP_0 in
      if to_append < 0 \<or> to_append > 16 then Inl (ScriptE ScriptError)
      else Inr (IInt to_append # stack))"

subsection \<open>Operations on the stack\<close>

fun op_dup :: "stack \<Rightarrow> stack result" where
  "op_dup [] = Inl (ScriptE MissingStackItems)"
| "op_dup (x # st) = Inr (x # x # st)"

fun op_greaterthan_timestamp :: "script_extras \<Rightarrow> stack \<Rightarrow> stack result" where
  "op_greaterthan_timestamp ex [] = Inl (ScriptE MissingStackItems)"
| "op_greaterthan_timestamp ex (buf # st) =
     bindE (as_bytes buf) (\<lambda>b.
     bindE (guardE (length b = 4) (PyE StructError)) (\<lambda>_.
     if timestamp (vertex_base (ex_tx ex)) \<le> int (from_be b) then Inl (ScriptE TimeLocked)
     else Inr st))"

fun op_equal :: "stack \<Rightarrow> stack result" where
  "op_equal (elem1 # elem2 # st) =
     bindE (as_bytes elem1) (\<lambda>a. bindE (as_bytes elem2) (\<lambda>b. Inr (IInt (if a = b then 1 else 0) # st)))"
| "op_equal _ = Inl (ScriptE MissingStackItems)"

definition is_falsy :: "item \<Rightarrow> bool" where
  "is_falsy i \<longleftrightarrow> i = IInt 0 \<or> i = IBytes []"

definition op_equalverify :: "stack \<Rightarrow> stack result" where
  "op_equalverify stack =
     bindE (op_equal stack) (\<lambda>st.
     case st of
       [] \<Rightarrow> Inl (PyE IndexError)
     | is_equal # st' \<Rightarrow> if is_falsy is_equal then Inl (ScriptE EqualVerifyFailed) else Inr st')"

fun op_checksig :: "crypto \<Rightarrow> script_extras \<Rightarrow> stack \<Rightarrow> stack result" where
  "op_checksig cr ex (pubkey # signature # st) =
     bindE (as_bytes pubkey) (\<lambda>p.
     bindE (as_bytes signature) (\<lambda>s.
     bindE (get_public_key_from_bytes_compressed cr p) (\<lambda>public_key.
     bindE (vertex_sighash_all (ex_tx ex)) (\<lambda>data_to_sign.
     Inr (IInt (if ecdsa_verify cr public_key s (sha256 cr data_to_sign) then 1 else 0) # st)))))"
| "op_checksig cr ex _ = Inl (ScriptE MissingStackItems)"

fun op_hash160 :: "crypto \<Rightarrow> stack \<Rightarrow> stack result" where
  "op_hash160 cr [] = Inl (ScriptE MissingStackItems)"
| "op_hash160 cr (elem1 # st) = bindE (as_bytes elem1) (\<lambda>b. Inr (IBytes (get_hash160 cr b) # st))"

fun op_checkdatasig :: "crypto \<Rightarrow> stack \<Rightarrow> stack result" where
  "op_checkdatasig cr (pubkey # signature # d # st) =
     bindE (as_bytes pubkey) (\<lambda>p.
     bindE (as_bytes signature) (\<lambda>s.
     bindE (as_bytes d) (\<lambda>db.
     bindE (get_public_key_from_bytes_compressed cr p) (\<lambda>public_key.
     if ecdsa_verify cr public_key s db then Inr (IBytes db # st)
     else Inl (ScriptE OracleChecksigFailed)))))"
| "op_checkdatasig cr _ = Inl (ScriptE MissingStackItems)"

fun op_data_strequal :: "stack \<Rightarrow> stack result" where
  "op_data_strequal (value # data_k # d # st) =
     bindE (as_bytes value) (\<lambda>v.
     bindE (as_bytes d) (\<lambda>db.
     case data_k of
       IBytes _ \<Rightarrow> Inl (ScriptE VerifyFailed)
     | IInt k \<Rightarrow>
         bindE (get_data_value k db) (\<lambda>data_value.
         if data_value \<noteq> v then
           bindE (utf8_decode data_value) (\<lambda>_. bindE (utf8_decode v) (\<lambda>_. Inl (ScriptE VerifyFailed)))
         else Inr (IBytes db # st))))"
| "op_data_strequal _ = Inl (ScriptE MissingStackItems)"

text \<open>\<^verbatim>\<open>except (ValueError, struct.error) as e: raise VerifyFailed from e\<close>.\<close>

definition or_verify_failed :: "'a result \<Rightarrow> 'a result" where
  "or_verify_failed m =
     catchE m (\<lambda>e. if is_ValueError e \<or> e = PyE StructError then Inl (ScriptE VerifyFailed) else Inl e)"

fun op_data_greaterthan :: "stack \<Rightarrow> stack result" where
  "op_data_greaterthan (value # data_k # d # st) =
     bindE (as_bytes value) (\<lambda>v.
     bindE (as_bytes d) (\<lambda>db.
     case data_k of
       IBytes _ \<Rightarrow> Inl (ScriptE VerifyFailed)
     | IInt k \<Rightarrow>
         bindE (get_data_value k db) (\<lambda>data_value.
         bindE (or_verify_failed (binary_to_int data_value)) (\<lambda>data_int.
         bindE (or_verify_failed (binary_to_int v)) (\<lambda>value_int.
         if data_int \<le> value_int then Inl (ScriptE VerifyFailed) else Inr (IBytes db # st))))))"
| "op_data_greaterthan _ = Inl (ScriptE MissingStackItems)"

text \<open>The loop of \<^verbatim>\<open>op_data_match_value\<close> and \<^verbatim>\<open>op_data_match_interval\<close>: \<open>n\<close> keys, each above its value.\<close>

fun pop_items :: "nat \<Rightarrow> stack \<Rightarrow> ((int \<times> bytes) list \<times> stack) result" where
  "pop_items 0 st = Inr ([], st)"
| "pop_items (Suc n) (pubkey # buf # st) =
     bindE (as_bytes pubkey) (\<lambda>p.
     bindE (as_bytes buf) (\<lambda>b.
     bindE (binary_to_int b) (\<lambda>v.
     bindE (pop_items n st) (\<lambda>(is, st'). Inr ((v, p) # is, st')))))"
| "pop_items (Suc n) _ = Inl (PyE IndexError)"

definition first_byte :: "bytes \<Rightarrow> nat result" where
  "first_byte b = (case b of [] \<Rightarrow> Inl (PyE IndexError) | x # _ \<Rightarrow> Inr (unat x))"

fun as_int :: "item \<Rightarrow> int result" where
  "as_int (IInt n) = Inr n"
| "as_int (IBytes _) = Inl (PyE AssertionError)"

text \<open>\<^verbatim>\<open>items[value] = pubkey\<close> in a loop: a later key replaces an earlier one.\<close>

definition dict_get :: "('k \<times> 'v) list \<Rightarrow> 'k \<Rightarrow> 'v option" where
  "dict_get kvs k = map_of (rev kvs) k"

fun op_data_match_value :: "stack \<Rightarrow> stack result" where
  "op_data_match_value [] = Inl (ScriptE MissingStackItems)"
| "op_data_match_value (data_n_items # st) =
     bindE (as_bytes data_n_items) (\<lambda>nb.
     bindE (first_byte nb) (\<lambda>n_items.
     if length st < 2 * n_items + 3 then Inl (ScriptE MissingStackItems)
     else bindE (or_verify_failed (pop_items n_items st)) (\<lambda>(items, st').
       case st' of
         last_pubkey # data_k # d # st'' \<Rightarrow>
           bindE (as_int data_k) (\<lambda>k.
           bindE (as_bytes d) (\<lambda>db.
           bindE (get_data_value k db) (\<lambda>data_value.
           bindE (binary_to_int data_value) (\<lambda>data_int.
           bindE (as_bytes (case dict_get items data_int of Some p \<Rightarrow> IBytes p | None \<Rightarrow> last_pubkey)) (\<lambda>w.
           Inr (IBytes w # st''))))))
       | _ \<Rightarrow> Inl (PyE IndexError))))"

fun op_data_match_interval :: "stack \<Rightarrow> stack result" where
  "op_data_match_interval [] = Inl (ScriptE MissingStackItems)"
| "op_data_match_interval (data_n_items # st) =
     bindE (as_bytes data_n_items) (\<lambda>nb.
     bindE (first_byte nb) (\<lambda>n_items.
     if length st < 2 * n_items + 3 then Inl (ScriptE MissingStackItems)
     else bindE (or_verify_failed (
            bindE (pop_items n_items st) (\<lambda>(items, st').
            case st' of
              last_pubkey # data_k # d # st'' \<Rightarrow>
                bindE (as_int data_k) (\<lambda>k.
                bindE (as_bytes d) (\<lambda>db.
                bindE (get_data_value k db) (\<lambda>data_value.
                bindE (binary_to_int data_value) (\<lambda>data_int. Inr (items, last_pubkey, data_int, st'')))))
            | _ \<Rightarrow> Inl (PyE IndexError)))) (\<lambda>(items, last_pubkey, data_int, st'').
          Inr (case List.find (\<lambda>(v, _). data_int > v) items of
                 Some (_, p) \<Rightarrow> IBytes p # st'' | None \<Rightarrow> last_pubkey # st''))))"

text \<open>\<^verbatim>\<open>base58.b58encode\<close> of an integer raises, since an integer has no length.\<close>

fun find_p2pkh :: "crypto \<Rightarrow> net_settings \<Rightarrow> pystr \<Rightarrow> int \<Rightarrow> txoutput list \<Rightarrow> unit result" where
  "find_p2pkh cr se address_b58 contract_value [] = Inl (ScriptE VerifyFailed)"
| "find_p2pkh cr se address_b58 contract_value (out # outs) =
     bindE (P2PKH_parse_script cr se (to_script out)) (\<lambda>r.
     case r of
       Some (P2PKH a _) \<Rightarrow>
         if a = address_b58 \<and> to_value out = contract_value then Inr ()
         else find_p2pkh cr se address_b58 contract_value outs
     | _ \<Rightarrow> find_p2pkh cr se address_b58 contract_value outs)"

fun op_find_p2pkh :: "crypto \<Rightarrow> net_settings \<Rightarrow> script_extras \<Rightarrow> stack \<Rightarrow> stack result" where
  "op_find_p2pkh cr se ex [] = Inl (ScriptE MissingStackItems)"
| "op_find_p2pkh cr se ex (address # st) =
     bindE (py_nth (outputs (vertex_base (ex_spent_tx ex))) (ti_index (ex_txin ex))) (\<lambda>spent.
     case address of
       IInt _ \<Rightarrow> Inl (PyE TypeError)
     | IBytes a \<Rightarrow>
         bindE (find_p2pkh cr se (get_address_b58_from_bytes cr a) (to_value spent)
                  (outputs (vertex_base (ex_tx ex)))) (\<lambda>_. Inr (IInt 1 # st)))"

text \<open>
  \<^verbatim>\<open>op_checkmultisig\<close>: each signature is tried on the keys from the current one on; the keys
  up to the one that matched are dropped.
\<close>

fun find_pubkey :: "crypto \<Rightarrow> script_extras \<Rightarrow> item \<Rightarrow> item list \<Rightarrow> item list option result" where
  "find_pubkey cr ex signature [] = Inr None"
| "find_pubkey cr ex signature (pubkey # pubkeys) =
     bindE (op_checksig cr ex [pubkey, signature]) (\<lambda>new_stack.
     if new_stack = [IInt 1] then Inr (Some pubkeys) else find_pubkey cr ex signature pubkeys)"

fun check_signatures :: "crypto \<Rightarrow> script_extras \<Rightarrow> item list \<Rightarrow> item list \<Rightarrow> bool result" where
  "check_signatures cr ex [] pubkeys = Inr True"
| "check_signatures cr ex (signature # signatures) pubkeys =
     bindE (find_pubkey cr ex signature pubkeys) (\<lambda>r.
     case r of None \<Rightarrow> Inr False | Some pubkeys' \<Rightarrow> check_signatures cr ex signatures pubkeys')"

fun op_checkmultisig :: "crypto \<Rightarrow> script_extras \<Rightarrow> stack \<Rightarrow> stack result" where
  "op_checkmultisig cr ex [] = Inl (ScriptE MissingStackItems)"
| "op_checkmultisig cr ex (IBytes _ # st) = Inl (ScriptE InvalidStackData)"
| "op_checkmultisig cr ex (IInt pubkey_count # st) =
     (if int (length st) < pubkey_count then Inl (ScriptE MissingStackItems)
      else (let pubkeys = take (nat pubkey_count) st; st = drop (nat pubkey_count) st in
        case st of
          [] \<Rightarrow> Inl (ScriptE MissingStackItems)
        | IBytes _ # st \<Rightarrow> Inl (ScriptE InvalidStackData)
        | IInt signatures_count # st \<Rightarrow>
            if int (length st) < signatures_count then Inl (ScriptE MissingStackItems)
            else (let signatures = take (nat signatures_count) st; st = drop (nat signatures_count) st in
              bindE (check_signatures cr ex signatures pubkeys) (\<lambda>valid.
              Inr (IInt (if valid then 1 else 0) # st)))))"

subsection \<open>The evaluator\<close>

definition MAP_OPCODE_TO_FN ::
  "crypto \<Rightarrow> net_settings \<Rightarrow> script_extras \<Rightarrow> byte \<Rightarrow> (stack \<Rightarrow> stack result) option" where
  "MAP_OPCODE_TO_FN cr se ex opcode =
     (if opcode = OP_DUP then Some op_dup
      else if opcode = OP_EQUAL then Some op_equal
      else if opcode = OP_EQUALVERIFY then Some op_equalverify
      else if opcode = OP_CHECKSIG then Some (op_checksig cr ex)
      else if opcode = OP_HASH160 then Some (op_hash160 cr)
      else if opcode = OP_GREATERTHAN_TIMESTAMP then Some (op_greaterthan_timestamp ex)
      else if opcode = OP_CHECKMULTISIG then Some (op_checkmultisig cr ex)
      else if opcode = OP_DATA_STREQUAL then Some op_data_strequal
      else if opcode = OP_DATA_GREATERTHAN then Some op_data_greaterthan
      else if opcode = OP_DATA_MATCH_VALUE then Some op_data_match_value
      else if opcode = OP_CHECKDATASIG then Some (op_checkdatasig cr)
      else if opcode = OP_FIND_P2PKH then Some (op_find_p2pkh cr se ex)
      else None)"

text \<open>One turn of the loop of \<^verbatim>\<open>execute_eval\<close>: the new position and the new stack.\<close>

definition eval_step ::
  "crypto \<Rightarrow> net_settings \<Rightarrow> script_extras \<Rightarrow> bytes \<Rightarrow> nat \<Rightarrow> stack \<Rightarrow> (nat \<times> stack) result" where
  "eval_step cr se ex d pos stack =
     (let opcode = d ! pos in
      if unat opcode \<ge> 1 \<and> unat opcode \<le> 75 then op_pushdata pos d stack
      else if opcode = OP_PUSHDATA1 then op_pushdata1 pos d stack
      else if opcode \<ge> OP_0 \<and> opcode \<le> OP_16 then
        bindE (op_integer opcode stack) (\<lambda>st. Inr (pos + 1, st))
      else
        (case MAP_OPCODE_TO_FN cr se ex opcode of
           None \<Rightarrow> Inl (ScriptE ScriptError)
         | Some fn \<Rightarrow> bindE (fn stack) (\<lambda>st. Inr (pos + 1, st))))"

lemma eval_step_increases:
  assumes "eval_step cr se ex d pos stack = Inr (pos', st)"
  shows "pos < pos'"
  using assms
  by (auto simp: eval_step_def op_pushdata_def op_pushdata1_def Let_def result_iff split: if_splits option.splits)

function eval_loop ::
  "crypto \<Rightarrow> net_settings \<Rightarrow> script_extras \<Rightarrow> bytes \<Rightarrow> nat \<Rightarrow> stack \<Rightarrow> stack result" where
  "eval_loop cr se ex d pos stack =
     (if pos < length d then
        bindE (eval_step cr se ex d pos stack) (\<lambda>(pos', st). eval_loop cr se ex d pos' st)
      else Inr stack)"
  by pat_completeness auto
termination
  by (relation "measure (\<lambda>(_, _, _, d, pos, _). length d - pos)") (auto dest: eval_step_increases)

fun evaluate_final_stack :: "stack \<Rightarrow> unit result" where
  "evaluate_final_stack [] = Inr ()"
| "evaluate_final_stack (x # st) = guardE (x \<noteq> IInt 0) (ScriptE FinalStackInvalid)"

definition execute_eval :: "crypto \<Rightarrow> net_settings \<Rightarrow> bytes \<Rightarrow> script_extras \<Rightarrow> unit result" where
  "execute_eval cr se d ex = bindE (eval_loop cr se ex d 0 []) evaluate_final_stack"

text \<open>
  \<^verbatim>\<open>MultiSig.get_multisig_data\<close>. Its loop does not move when the opcode is not a push: a run
  that never ends is the value \<open>None\<close>.
\<close>

partial_function (option) multisig_loop :: "bytes \<Rightarrow> nat \<Rightarrow> nat \<Rightarrow> stack \<Rightarrow> (nat \<times> stack) result option" where
  "multisig_loop d pos last_pos stack =
     (if pos < length d then
        (let opcode = d ! pos;
             step = (if unat opcode \<ge> 1 \<and> unat opcode \<le> 75 then op_pushdata pos d stack
                     else if opcode = OP_PUSHDATA1 then op_pushdata1 pos d stack
                     else Inr (pos, stack)) in
         case step of
           Inl e \<Rightarrow> Some (Inl e)
         | Inr (pos', stack') \<Rightarrow> multisig_loop d pos' pos stack')
      else Some (Inr (last_pos, stack)))"

definition get_multisig_data :: "bytes \<Rightarrow> bytes result option" where
  "get_multisig_data input_data =
     map_option (\<lambda>r.
       bindE r (\<lambda>(last_pos, stack).
       case stack of
         [] \<Rightarrow> Inl (PyE IndexError)
       | x # _ \<Rightarrow> bindE (as_bytes x) (\<lambda>redeem_script. Inr (take last_pos input_data @ redeem_script))))
     (multisig_loop input_data 0 0 [])"

definition script_eval :: "crypto \<Rightarrow> net_settings \<Rightarrow> vertex \<Rightarrow> txinput \<Rightarrow> vertex \<Rightarrow> unit result option" where
  "script_eval cr se tx txin spent_tx =
     (case py_nth (outputs (vertex_base spent_tx)) (ti_index txin) of
        Inl e \<Rightarrow> Some (Inl e)
      | Inr out \<Rightarrow>
          (let ex = \<lparr>ex_tx = tx, ex_txin = txin, ex_spent_tx = spent_tx\<rparr> in
           case execute_eval cr se (ti_data txin @ to_script out) ex of
             Inl e \<Rightarrow> Some (Inl e)
           | Inr _ \<Rightarrow>
               if re_search MultiSig_re_match (to_script out) \<noteq> None then
                 map_option (\<lambda>r. bindE r (\<lambda>multisig_data. execute_eval cr se multisig_data ex))
                   (get_multisig_data (ti_data txin))
               else Some (Inr ())))"

subsection \<open>Running a script from its front\<close>

declare eval_loop.simps [simp del] get_data_loop.simps [simp del]

text \<open>The evaluator only looks at what follows the current position.\<close>

lemma eval_step_shift:
  assumes "p < length d"
  shows "eval_step cr se ex (pre @ d) (length pre + p) st =
    bindE (eval_step cr se ex d p st) (\<lambda>(p', st'). Inr (length pre + p', st'))"
  using assms
  by (auto simp: eval_step_def op_pushdata_def op_pushdata1_def Let_def bindE_assoc nth_append
      split: option.splits if_splits intro!: bindE_cong)

lemma eval_loop_shift: "eval_loop cr se ex (pre @ d) (length pre + p) st = eval_loop cr se ex d p st"
proof (induction cr se ex d p st rule: eval_loop.induct)
  case (1 cr se ex d p st)
  show ?case
  proof (cases "p < length d")
    case True
    show ?thesis
    proof (cases "eval_step cr se ex d p st")
      case (Inl e)
      with True eval_step_shift [OF True] show ?thesis
        by (simp add: eval_loop.simps [of _ _ _ "pre @ d"] eval_loop.simps [of _ _ _ d p])
    next
      case (Inr r)
      obtain p' st' where r: "r = (p', st')" by (cases r)
      from "1.IH" [OF True Inr] have "eval_loop cr se ex (pre @ d) (length pre + p') st' = eval_loop cr se ex d p' st'"
        by (simp add: r)
      with True Inr eval_step_shift [OF True] show ?thesis
        by (simp add: r eval_loop.simps [of _ _ _ "pre @ d" "length pre + p"] eval_loop.simps [of _ _ _ d p])
    qed
  next
    case False
    then show ?thesis by (simp add: eval_loop.simps)
  qed
qed

definition run :: "crypto \<Rightarrow> net_settings \<Rightarrow> script_extras \<Rightarrow> bytes \<Rightarrow> stack \<Rightarrow> stack result" where
  "run cr se ex d st = eval_loop cr se ex d 0 st"

lemma execute_eval_run: "execute_eval cr se d ex = bindE (run cr se ex d []) evaluate_final_stack"
  by (simp add: execute_eval_def run_def)

lemma run_Nil [simp]: "run cr se ex [] st = Inr st"
  by (simp add: run_def eval_loop.simps)

lemma run_step:
  assumes "eval_step cr se ex (c @ d) 0 st = Inr (length c, st')" and "c \<noteq> []"
  shows "run cr se ex (c @ d) st = run cr se ex d st'"
  using assms eval_loop_shift [of cr se ex c d 0 st']
  by (simp add: run_def eval_loop.simps [of _ _ _ "c @ d"])

lemma run_push_short:
  assumes "1 \<le> length x" and "length x \<le> 75"
  shows "run cr se ex (byte_of (length x) # x @ d) st = run cr se ex d (IBytes x # st)"
  using assms run_step [of cr se ex "byte_of (length x) # x" d st]
  by (simp add: eval_step_def op_pushdata_def Let_def)

lemma run_push_long:
  assumes "length x \<le> 255"
  shows "run cr se ex (OP_PUSHDATA1 # byte_of (length x) # x @ d) st = run cr se ex d (IBytes x # st)"
proof -
  have "unat OP_PUSHDATA1 = 76" by (simp add: OP_PUSHDATA1_def)
  then show ?thesis
    using assms run_step [of cr se ex "OP_PUSHDATA1 # byte_of (length x) # x" d st]
    by (simp add: eval_step_def op_pushdata1_def Let_def)
qed

text \<open>Whatever \<^verbatim>\<open>pushData\<close> writes, the evaluator pushes, unless it is empty.\<close>

lemma run_push_data:
  assumes "push_data x = Inr b" and "x \<noteq> []"
  shows "run cr se ex (b @ d) st = run cr se ex d (IBytes x # st)"
proof (cases "length x \<le> 75")
  case True
  with assms have "b = byte_of (length x) # x" "1 \<le> length x"
    by (auto simp: push_data_def Suc_le_eq)
  with True run_push_short show ?thesis by simp
next
  case False
  with assms have "b = OP_PUSHDATA1 # byte_of (length x) # x" "length x \<le> 255"
    by (auto simp: push_data_def split: if_splits)
  with run_push_long show ?thesis by simp
qed

lemma run_push_all:
  assumes "concatE push_data xs = Inr b" and "[] \<notin> set xs"
  shows "run cr se ex (b @ d) st = run cr se ex d (rev (map IBytes xs) @ st)"
  using assms
proof (induction xs arbitrary: b st)
  case (Cons x xs)
  then obtain a c where a: "push_data x = Inr a" and "concatE push_data xs = Inr c" "b = a @ c" "x \<noteq> []"
    by (auto simp: result_iff)
  with Cons run_push_data [OF a] show ?case by simp
qed simp

lemma run_op:
  assumes "MAP_OPCODE_TO_FN cr se ex opc = Some fn" and "opc > OP_16"
  shows "run cr se ex (opc # d) st = bindE (fn st) (run cr se ex d)"
proof -
  from assms(2) have "unat opc > 96" by (simp add: word_less_nat_alt OP_16_def)
  then have "\<not> unat opc \<le> 75" "opc \<noteq> OP_PUSHDATA1" "\<not> opc \<le> OP_16"
    using assms(2) by (auto simp: OP_PUSHDATA1_def)
  then have step: "eval_step cr se ex (opc # d) 0 st = bindE (fn st) (\<lambda>st. Inr (1, st))"
    using assms(1) by (simp add: eval_step_def Let_def)
  show ?thesis
  proof (cases "fn st")
    case (Inl e)
    with step show ?thesis by (simp add: run_def eval_loop.simps [of _ _ _ "opc # d"])
  next
    case (Inr st')
    with step run_step [of cr se ex "[opc]" d st st'] show ?thesis by simp
  qed
qed

lemma run_ops [simp]:
  "run cr se ex (OP_DUP # d) st = bindE (op_dup st) (run cr se ex d)"
  "run cr se ex (OP_EQUAL # d) st = bindE (op_equal st) (run cr se ex d)"
  "run cr se ex (OP_EQUALVERIFY # d) st = bindE (op_equalverify st) (run cr se ex d)"
  "run cr se ex (OP_CHECKSIG # d) st = bindE (op_checksig cr ex st) (run cr se ex d)"
  "run cr se ex (OP_HASH160 # d) st = bindE (op_hash160 cr st) (run cr se ex d)"
  "run cr se ex (OP_GREATERTHAN_TIMESTAMP # d) st = bindE (op_greaterthan_timestamp ex st) (run cr se ex d)"
  "run cr se ex (OP_CHECKMULTISIG # d) st = bindE (op_checkmultisig cr ex st) (run cr se ex d)"
  by (rule run_op, simp add: MAP_OPCODE_TO_FN_def opcode_defs, simp add: opcode_defs)+

lemma run_number:
  assumes "op_number n = Inr b"
  shows "run cr se ex (b # d) st = run cr se ex d (IInt n # st)"
proof -
  from assms have n: "0 \<le> n" "n \<le> 16" and b: "b = byte_of (0x50 + nat n)"
    by (auto simp: op_number_def split: if_splits)
  then have u: "unat b = 0x50 + nat n" by simp
  have "uint b = int (0x50 + nat n)" by (simp only: uint_nat u)
  then have "uint b = 0x50 + n" using n by simp
  with u n have "eval_step cr se ex (b # d) 0 st = Inr (1, IInt n # st)"
    by (auto simp: eval_step_def op_integer_def Let_def OP_0_def OP_16_def OP_PUSHDATA1_def word_le_nat_alt)
  with run_step [of cr se ex "[b]" d st "IInt n # st"] show ?thesis by simp
qed

end
