(* ===== verification/Script_Spend.thy ===== *)
theory Script_Spend
  imports Script_Eval "HOL-Library.Sublist"
begin

text \<open>
  What it takes to spend an output: the theorems about \<^verbatim>\<open>script_eval\<close> for the scripts that the
  code itself builds, and for input data that it does not.
\<close>

subsection \<open>Pay to public key hash\<close>

lemma op_greaterthan_timestamp_ok:
  assumes "timelock_ok (Some t)"
  shows "op_greaterthan_timestamp ex (IBytes (to_be 4 (nat t)) # st) =
    (if timestamp (vertex_base (ex_tx ex)) \<le> t then Inl (ScriptE TimeLocked) else Inr st)"
proof -
  have "from_be (to_be 4 (nat t)) = nat t"
    by (rule from_be_to_be_id) (use assms in \<open>auto simp: timelock_ok_def\<close>)
  then show ?thesis using assms by (simp add: timelock_ok_def)
qed

lemma run_timelock:
  assumes "timelock_ok lock" and "timelock_prefix lock = Inr p"
  shows "run cr se ex (p @ d) st =
    (if lock \<noteq> None \<and> timestamp (vertex_base (ex_tx ex)) \<le> the lock then Inl (ScriptE TimeLocked)
     else run cr se ex d st)"
proof (cases lock)
  case None
  with assms show ?thesis by (simp add: timelock_prefix_def)
next
  case (Some t)
  let ?T = "to_be 4 (nat t)"
  from assms Some have "p = byte_of (length ?T) # ?T @ [OP_GREATERTHAN_TIMESTAMP]"
    by (simp add: timelock_prefix_ok byte_of_lits OP_GREATERTHAN_TIMESTAMP_def)
  then have "run cr se ex (p @ d) st =
      bindE (op_greaterthan_timestamp ex (IBytes ?T # st)) (run cr se ex d)"
    using run_push_short [of ?T cr se ex "OP_GREATERTHAN_TIMESTAMP # d" st]
    by (simp del: op_greaterthan_timestamp.simps)
  with assms(1) Some show ?thesis
    by (simp add: op_greaterthan_timestamp_ok del: op_greaterthan_timestamp.simps)
qed

lemma run_P2PKH:
  assumes "P2PKH_create_output_script address lock = Inr out" and "timelock_ok lock"
    and "pubkey_valid cr pk" and "vertex_sighash_all (ex_tx ex) = Inr d"
  shows "run cr se ex out [IBytes pk, IBytes sig] =
    (if lock \<noteq> None \<and> timestamp (vertex_base (ex_tx ex)) \<le> the lock then Inl (ScriptE TimeLocked)
     else if get_hash160 cr pk \<noteq> take 20 (drop 1 address) then Inl (ScriptE EqualVerifyFailed)
     else Inr [IInt (if ecdsa_verify cr pk sig (sha256 cr d) then 1 else 0)])"
proof -
  let ?h = "take 20 (drop 1 address)"
  from assms(1) obtain p q where p: "timelock_prefix lock = Inr p" and q: "push_data ?h = Inr q"
    and out: "out = p @ [OP_DUP, OP_HASH160] @ q @ [OP_EQUALVERIFY, OP_CHECKSIG]" and "length ?h = 20"
    by (auto simp: P2PKH_create_output_script_def result_iff)
  then have "?h \<noteq> []" by auto
  from run_push_data [OF q this] show ?thesis
    using assms(3,4)
    by (auto simp: out run_timelock [OF assms(2) p] op_equalverify_def is_falsy_def
        get_public_key_from_bytes_compressed_def)
qed


definition sample_pubkey :: bytes where
  "sample_pubkey = replicate 33 7"

definition sample_extras :: script_extras where
  "sample_extras = \<lparr>ex_tx = VTransaction sample_tx,
     ex_txin = \<lparr>ti_tx_id = replicate 32 9, ti_index = 0, ti_data = []\<rparr>, ex_spent_tx = VBlock sample_block\<rparr>"

lemma sample_extras_sighash: "\<exists>d. vertex_sighash_all (ex_tx sample_extras) = Inr d"
  by (simp add: sample_extras_def sample_tx_def tx_sighash_bytes_def get_sighash_bytes_def encoder_defs)


subsection \<open>Input data that swallows the output script\<close>

lemma swallow_output_script:
  assumes "1 \<le> length out" and "length out \<le> 75"
  shows "execute_eval cr se (byte_of (length out) # out) ex = Inr ()"
  using run_push_short [OF assms, of cr se ex "[]" "[]"] by (simp add: execute_eval_run)

text \<open>
  C11: every pay-to-public-key-hash output can be spent by anyone, without a key. Input data
  that is the single byte \<^verbatim>\<open>len(output_script)\<close> turns the whole output script into one push
  (the evaluator runs the concatenation of the two), and the bytes this leaves on the stack
  count as true: \<^verbatim>\<open>script_eval\<close> accepts the input, whatever the transaction, the address, the
  time lock and the cryptography are.
\<close>

theorem P2PKH_spent_by_anyone:
  assumes "P2PKH_create_output_script address lock = Inr (to_script out)" and "timelock_ok lock"
    and "py_nth (outputs (vertex_base spent_tx)) (ti_index txin) = Inr out"
    and "ti_data txin = [byte_of (length (to_script out))]"
  shows "script_eval cr se tx txin spent_tx = Some (Inr ())"
  using assms(3,4) P2PKH_not_MultiSig [OF assms(1,2)] swallow_output_script [of "to_script out"]
  by (simp add: script_eval_def Let_def)

definition p2pkh_block :: "bytes \<Rightarrow> block" where
  "p2pkh_block s = sample_block\<lparr>outputs := [\<lparr>to_value = 6400, to_script = s, to_token_data = 0\<rparr>]\<rparr>"

theorem P2PKH_spent_by_anyone_witness:
  "\<exists>s. P2PKH_create_output_script sample_address None = Inr s \<and>
     script_eval sample_crypto mainnet_settings (VTransaction sample_tx)
       \<lparr>ti_tx_id = replicate 32 9, ti_index = 0, ti_data = [byte_of (length s)]\<rparr>
       (VBlock (p2pkh_block s)) = Some (Inr ())"
proof -
  have "length sample_address = 25" by (rule address_wf_length [OF sample_crypto_ok sample_address_wf])
  then have "\<exists>s. P2PKH_create_output_script sample_address None = Inr s"
    by (simp add: P2PKH_create_output_script_def timelock_prefix_def push_data_20)
  then obtain s where s: "P2PKH_create_output_script sample_address None = Inr s" ..
  have "timelock_ok None" by (simp add: timelock_ok_def)
  from P2PKH_spent_by_anyone [of sample_address None "\<lparr>to_value = 6400, to_script = s, to_token_data = 0\<rparr>"
      "VBlock (p2pkh_block s)" "\<lparr>ti_tx_id = replicate 32 9, ti_index = 0, ti_data = [byte_of (length s)]\<rparr>"]
    s this show ?thesis
    by (auto simp: py_nth_def p2pkh_block_def base_transaction.defs)
qed

subsection \<open>Input data on which the evaluation never ends\<close>

definition multisig_stuck :: "bytes \<Rightarrow> nat \<Rightarrow> bool" where
  "multisig_stuck d pos \<longleftrightarrow> pos < length d \<and> (unat (d ! pos) = 0 \<or> unat (d ! pos) > 76)"

lemma multisig_loop_stuck:
  assumes "multisig_loop d pos last_pos st = Some r"
  shows "\<not> multisig_stuck d pos"
  using assms
proof (induction rule: multisig_loop.raw_induct [rotated 1, consumes 1])
  case (1 loop d pos last_pos st r)
  show ?case
  proof
    assume stuck: "multisig_stuck d pos"
    then have "d ! pos \<noteq> OP_PUSHDATA1" by (auto simp: multisig_stuck_def OP_PUSHDATA1_def)
    with stuck 1(2) have "loop d pos pos st = Some r"
      by (auto simp: multisig_stuck_def Let_def split: if_splits)
    from 1(1) [OF this] stuck show False by simp
  qed
qed

text \<open>
  C12: a transaction can make a node hang. For every output of a multisig address, the two bytes
  \<^verbatim>\<open>OP_1\<close> and \<^verbatim>\<open>len(output_script)\<close> as input data pass the first evaluation, and then
  \<^verbatim>\<open>get_multisig_data\<close> never returns: its loop does not move past an opcode that is not a push.
\<close>

theorem MultiSig_eval_diverges:
  assumes "MultiSig_create_output_script address lock = Inr (to_script out)" and "timelock_ok lock"
    and "py_nth (outputs (vertex_base spent_tx)) (ti_index txin) = Inr out"
    and "ti_data txin = [OP_1, byte_of (length (to_script out))]"
  shows "script_eval cr se tx txin spent_tx = None"
proof -
  note shape = MultiSig_is_MultiSig [OF assms(1,2)]
  have "op_number 1 = Inr OP_1" by (simp add: op_number_def OP_1_def byte_of_def)
  from run_number [OF this] have "execute_eval cr se (ti_data txin @ to_script out) ex = Inr ()" for ex
    using run_push_short [OF shape(2,3), of cr se _ "[]"] by (simp add: assms(4) execute_eval_run)
  moreover have "multisig_stuck (ti_data txin) 0"
    by (simp add: multisig_stuck_def assms(4) OP_1_def)
  then have "multisig_loop (ti_data txin) 0 0 [] = None"
    using multisig_loop_stuck by (cases "multisig_loop (ti_data txin) 0 0 []") auto
  ultimately show ?thesis
    using assms(3) shape(1) by (simp add: script_eval_def get_multisig_data_def Let_def)
qed

theorem MultiSig_eval_diverges_witness:
  "\<exists>s. MultiSig_create_output_script sample_address None = Inr s \<and>
     script_eval sample_crypto mainnet_settings (VTransaction sample_tx)
       \<lparr>ti_tx_id = replicate 32 9, ti_index = 0, ti_data = [OP_1, byte_of (length s)]\<rparr>
       (VBlock (p2pkh_block s)) = None"
proof -
  have "length sample_address = 25" by (rule address_wf_length [OF sample_crypto_ok sample_address_wf])
  then have "\<exists>s. MultiSig_create_output_script sample_address None = Inr s"
    by (simp add: MultiSig_create_output_script_def timelock_prefix_def push_data_20)
  then obtain s where s: "MultiSig_create_output_script sample_address None = Inr s" ..
  have "timelock_ok None" by (simp add: timelock_ok_def)
  from MultiSig_eval_diverges [of sample_address None "\<lparr>to_value = 6400, to_script = s, to_token_data = 0\<rparr>"
      "VBlock (p2pkh_block s)" "\<lparr>ti_tx_id = replicate 32 9, ti_index = 0, ti_data = [OP_1, byte_of (length s)]\<rparr>"]
    s this show ?thesis
    by (auto simp: py_nth_def p2pkh_block_def base_transaction.defs)
qed

subsection \<open>Multiple signatures\<close>

text \<open>
  The greedy search of \<^verbatim>\<open>op_checkmultisig\<close> on keys and signatures that are bytes, and what it
  decides: whether the signatures match some of the keys, in order.
\<close>

fun greedy :: "('k \<Rightarrow> 's \<Rightarrow> bool) \<Rightarrow> 's list \<Rightarrow> 'k list \<Rightarrow> bool" where
  "greedy ok [] ks = True"
| "greedy ok (s # ss) ks = (case dropWhile (\<lambda>k. \<not> ok k s) ks of [] \<Rightarrow> False | _ # ks' \<Rightarrow> greedy ok ss ks')"

definition ordered_matching :: "('k \<Rightarrow> 's \<Rightarrow> bool) \<Rightarrow> 's list \<Rightarrow> 'k list \<Rightarrow> bool" where
  "ordered_matching ok ss ks \<longleftrightarrow> (\<exists>ms. subseq ms ks \<and> list_all2 ok ms ss)"

lemma ordered_matching_skip:
  assumes "\<not> ok k s"
  shows "ordered_matching ok (s # ss) (k # ks) \<longleftrightarrow> ordered_matching ok (s # ss) ks"
proof
  assume "ordered_matching ok (s # ss) (k # ks)"
  then obtain m ms where "subseq (m # ms) (k # ks)" "ok m s" "list_all2 ok ms ss"
    by (auto simp: ordered_matching_def list_all2_Cons2)
  moreover from this assms have "m \<noteq> k" by auto
  ultimately show "ordered_matching ok (s # ss) ks"
    unfolding ordered_matching_def by (intro exI [of _ "m # ms"]) (auto simp: subseq_Cons2_iff)
next
  assume "ordered_matching ok (s # ss) ks"
  then show "ordered_matching ok (s # ss) (k # ks)"
    unfolding ordered_matching_def by (meson list_emb_Cons)
qed

lemma ordered_matching_take:
  assumes "ok k s"
  shows "ordered_matching ok (s # ss) (k # ks) \<longleftrightarrow> ordered_matching ok ss ks"
proof
  assume "ordered_matching ok (s # ss) (k # ks)"
  then obtain m ms where "subseq (m # ms) (k # ks)" "list_all2 ok ms ss"
    by (auto simp: ordered_matching_def list_all2_Cons2)
  then show "ordered_matching ok ss ks"
    unfolding ordered_matching_def by (intro exI [of _ ms]) (auto split: if_splits dest: subseq_Cons')
next
  assume "ordered_matching ok ss ks"
  then obtain ms where "subseq ms ks" "list_all2 ok ms ss" by (auto simp: ordered_matching_def)
  with assms show "ordered_matching ok (s # ss) (k # ks)"
    unfolding ordered_matching_def by (intro exI [of _ "k # ms"]) auto
qed

lemma greedy_iff: "greedy ok ss ks \<longleftrightarrow> ordered_matching ok ss ks"
proof (induction ss arbitrary: ks)
  case Nil
  then show ?case by (auto simp: ordered_matching_def)
next
  case (Cons s ss)
  show ?case
  proof (induction ks)
    case Nil
    then show ?case by (auto simp: ordered_matching_def list_all2_Cons2)
  next
    case (Cons k ks)
    with Cons.IH \<open>\<And>ks. greedy ok ss ks \<longleftrightarrow> ordered_matching ok ss ks\<close> show ?case
      by (cases "ok k s") (simp_all add: ordered_matching_take ordered_matching_skip)
  qed
qed

lemma check_signatures_greedy:
  assumes "list_all (pubkey_valid cr) ks" and "vertex_sighash_all (ex_tx ex) = Inr d"
  shows "check_signatures cr ex (map IBytes ss) (map IBytes ks) =
    Inr (greedy (\<lambda>k s. ecdsa_verify cr k s (sha256 cr d)) ss ks)"
  using assms(1)
proof (induction ss arbitrary: ks)
  case Nil
  then show ?case by simp
next
  case (Cons s ss)
  have find: "list_all (pubkey_valid cr) ks \<Longrightarrow> find_pubkey cr ex (IBytes s) (map IBytes ks) =
      Inr (case dropWhile (\<lambda>k. \<not> ecdsa_verify cr k s (sha256 cr d)) ks of [] \<Rightarrow> None | _ # r \<Rightarrow> Some (map IBytes r))" for ks
    by (induction ks) (simp_all add: assms(2) get_public_key_from_bytes_compressed_def)
  have "list_all (pubkey_valid cr) r" if "dropWhile P ks = k # r" for k r P
    using Cons.prems set_dropWhileD [of _ P ks] unfolding that list_all_iff by auto
  with Cons.IH find [OF Cons.prems] show ?case
    by (cases "dropWhile (\<lambda>k. \<not> ecdsa_verify cr k s (sha256 cr d)) ks") (simp_all del: dropWhile_eq_Nil_conv)
qed

text \<open>
  C13: \<^verbatim>\<open>op_checkmultisig\<close> decides an ordered matching. On a stack with \<open>n\<close> valid public keys and \<open>m\<close>
  signatures it consumes them with their counts, and pushes 1 exactly when there are \<open>m\<close> of the
  keys, in their order, that verify the signatures one by one; the greedy search of the code
  never misses such a choice, and accepts nothing else.
\<close>

theorem op_checkmultisig_matching:
  assumes "list_all (pubkey_valid cr) pubkeys" and "vertex_sighash_all (ex_tx ex) = Inr d"
  shows "op_checkmultisig cr ex
      (IInt (int (length pubkeys)) # map IBytes pubkeys @ IInt (int (length sigs)) # map IBytes sigs @ st) =
    Inr (IInt (if \<exists>ks. subseq ks pubkeys \<and> list_all2 (\<lambda>k s. ecdsa_verify cr k s (sha256 cr d)) ks sigs
               then 1 else 0) # st)"
  by (simp add: Let_def check_signatures_greedy [OF assms] greedy_iff ordered_matching_def)

theorem op_checkmultisig_matching_witness:
  "op_checkmultisig sample_crypto sample_extras
     [IInt 2, IBytes (replicate 33 7), IBytes (replicate 33 8), IInt 1, IBytes (replicate 3 8)] = Inr [IInt 1]"
proof -
  let ?ks = "[replicate 33 7, replicate 33 8] :: bytes list"
  obtain d where d: "vertex_sighash_all (ex_tx sample_extras) = Inr d" using sample_extras_sighash ..
  have "list_all (pubkey_valid sample_crypto) ?ks" by (simp add: sample_crypto_def)
  from op_checkmultisig_matching [OF this d, of "[replicate 3 8]" "[]"]
  have "op_checkmultisig sample_crypto sample_extras
      [IInt 2, IBytes (replicate 33 7), IBytes (replicate 33 8), IInt 1, IBytes (replicate 3 8)] =
    Inr [IInt (if \<exists>ks. subseq ks ?ks \<and>
      list_all2 (\<lambda>k s. ecdsa_verify sample_crypto k s (sha256 sample_crypto d)) ks [replicate 3 8] then 1 else 0)]"
    by (simp del: op_checkmultisig.simps)
  moreover have "\<exists>ks. subseq ks ?ks \<and>
      list_all2 (\<lambda>k s. ecdsa_verify sample_crypto k s (sha256 sample_crypto d)) ks [replicate 3 8]"
    by (intro exI [of _ "[replicate 33 8]"]) (simp add: sample_crypto_def)
  ultimately show ?thesis by (simp del: op_checkmultisig.simps)
qed

lemma multisig_loop_push:
  assumes "push_data x = Inr b" and "x \<noteq> []"
  shows "multisig_loop (pre @ b @ rest) (length pre) last_pos st =
    multisig_loop (pre @ b @ rest) (length (pre @ b)) (length pre) (IBytes x # st)"
proof (cases "length x \<le> 75")
  case True
  with assms have b: "b = byte_of (length x) # x" and "1 \<le> length x"
    by (auto simp: push_data_def Suc_le_eq)
  with True show ?thesis
    by (subst multisig_loop.simps) (simp add: nth_append op_pushdata_def Let_def)
next
  case False
  with assms have b: "b = OP_PUSHDATA1 # byte_of (length x) # x" and "length x \<le> 255"
    by (auto simp: push_data_def split: if_splits)
  then show ?thesis
    by (subst multisig_loop.simps) (simp add: nth_append op_pushdata1_def Let_def OP_PUSHDATA1_def)
qed

lemma multisig_loop_pushes:
  assumes "concatE push_data xs = Inr b" and "[] \<notin> set xs"
  shows "\<exists>last_pos'. multisig_loop (pre @ b @ rest) (length pre) last_pos st =
    multisig_loop (pre @ b @ rest) (length (pre @ b)) last_pos' (rev (map IBytes xs) @ st)"
  using assms
proof (induction xs arbitrary: pre b last_pos st)
  case (Cons x xs)
  then obtain a c where a: "push_data x = Inr a" and c: "concatE push_data xs = Inr c" and b: "b = a @ c"
    and x: "x \<noteq> []" "[] \<notin> set xs" by (auto simp: result_iff)
  from Cons.IH [OF c x(2), of "pre @ a" "length pre" "IBytes x # st"]
  show ?case using multisig_loop_push [OF a x(1), of pre "c @ rest"] by (simp add: b)
qed auto

lemma get_multisig_data_pushes:
  assumes "concatE push_data sigs = Inr b" and "[] \<notin> set sigs" and "push_data redeem = Inr r" and "redeem \<noteq> []"
  shows "get_multisig_data (b @ r) = Some (Inr (b @ redeem))"
proof -
  obtain lp where "multisig_loop (b @ r) 0 0 [] = multisig_loop (b @ r) (length b) lp (rev (map IBytes sigs))"
    using multisig_loop_pushes [OF assms(1,2), of "[]" r 0 "[]"] by auto
  also have "\<dots> = multisig_loop (b @ r) (length (b @ r)) (length b) (IBytes redeem # rev (map IBytes sigs))"
    using multisig_loop_push [OF assms(3,4), of b "[]" lp] by simp
  also have "\<dots> = Some (Inr (length b, IBytes redeem # rev (map IBytes sigs)))"
    by (subst multisig_loop.simps) simp
  finally show ?thesis by (simp add: get_multisig_data_def)
qed

lemma run_MultiSig:
  assumes "MultiSig_create_output_script address lock = Inr out" and "timelock_ok lock"
  shows "run cr se ex out (IBytes redeem # st) =
    (if lock \<noteq> None \<and> timestamp (vertex_base (ex_tx ex)) \<le> the lock then Inl (ScriptE TimeLocked)
     else Inr (IInt (if get_hash160 cr redeem = take 20 (drop 1 address) then 1 else 0) # st))"
proof -
  let ?h = "take 20 (drop 1 address)"
  from assms(1) obtain p q where p: "timelock_prefix lock = Inr p" and q: "push_data ?h = Inr q"
    and out: "out = p @ [OP_HASH160] @ q @ [OP_EQUAL]" and "length ?h = 20"
    by (auto simp: MultiSig_create_output_script_def result_iff)
  then have "?h \<noteq> []" by auto
  from run_push_data [OF q this] show ?thesis by (auto simp: out run_timelock [OF assms(2) p])
qed

lemma subseq_rev_mono: "subseq xs ys \<Longrightarrow> subseq (rev xs) (rev ys)"
proof (induction rule: list_emb.induct)
  case (list_emb_Cons xs ys y)
  from list_emb_append_mono [OF this(2), of "[]" "[y]"] show ?case by simp
next
  case (list_emb_Cons2 x y xs ys)
  from list_emb_append_mono [OF this(3), of "[x]" "[y]"] this(1) show ?case by simp
qed simp

lemma ordered_matching_rev: "ordered_matching ok ss ks \<Longrightarrow> ordered_matching ok (rev ss) (rev ks)"
  unfolding ordered_matching_def using subseq_rev_mono list_all2_rev by blast

lemma run_redeem_script:
  assumes "generate_multisig_redeem_script (int (length sigs)) pubkeys = Inr redeem" and "[] \<notin> set pubkeys"
    and "list_all (pubkey_valid cr) pubkeys" and "vertex_sighash_all (ex_tx ex) = Inr d"
  shows "run cr se ex redeem (rev (map IBytes sigs) @ st) =
    Inr (IInt (if ordered_matching (\<lambda>k s. ecdsa_verify cr k s (sha256 cr d)) sigs pubkeys then 1 else 0) # st)"
proof -
  from assms(1) obtain m b n where m: "op_number (int (length sigs)) = Inr m"
    and b: "concatE push_data pubkeys = Inr b" and n: "op_number (int (length pubkeys)) = Inr n"
    and redeem: "redeem = m # b @ [n, OP_CHECKMULTISIG]"
    by (auto simp: generate_multisig_redeem_script_def result_iff)
  have "list_all (pubkey_valid cr) (rev pubkeys)" using assms(3) by simp
  from check_signatures_greedy [OF this assms(4), of "rev sigs"]
  have "check_signatures cr ex (rev (map IBytes sigs)) (rev (map IBytes pubkeys)) =
      Inr (ordered_matching (\<lambda>k s. ecdsa_verify cr k s (sha256 cr d)) (rev sigs) (rev pubkeys))"
    by (simp add: rev_map greedy_iff)
  moreover have "ordered_matching ok (rev sigs) (rev pubkeys) \<longleftrightarrow> ordered_matching ok sigs pubkeys" for ok
    using ordered_matching_rev [of ok sigs pubkeys] ordered_matching_rev [of ok "rev sigs" "rev pubkeys"] by auto
  ultimately show ?thesis
    by (simp add: redeem run_number [OF m] run_push_all [OF b assms(2)] run_number [OF n] Let_def)
qed

text \<open>
  The outcome of spending a multisig output with the input data the wallet builds: both
  evaluations succeed exactly when the output is no longer time-locked, the redeem script
  hashes to the address, and the signatures match as many of its public keys, in order.
\<close>

theorem MultiSig_spend:
  assumes "generate_multisig_redeem_script (int (length sigs)) pubkeys = Inr redeem"
    and "[] \<notin> set pubkeys" and "[] \<notin> set sigs" and "list_all (pubkey_valid cr) pubkeys"
    and "MultiSig_create_input_data redeem sigs = Inr (ti_data txin)"
    and "MultiSig_create_output_script address lock = Inr (to_script out)" and "timelock_ok lock"
    and "py_nth (outputs (vertex_base spent_tx)) (ti_index txin) = Inr out"
    and "vertex_sighash_all tx = Inr d"
  shows "script_eval cr se tx txin spent_tx = Some (
    if lock \<noteq> None \<and> timestamp (vertex_base tx) \<le> the lock then Inl (ScriptE TimeLocked)
    else if get_hash160 cr redeem \<noteq> take 20 (drop 1 address) then Inl (ScriptE FinalStackInvalid)
    else if \<exists>ks. subseq ks pubkeys \<and> list_all2 (\<lambda>k s. ecdsa_verify cr k s (sha256 cr d)) ks sigs
      then Inr () else Inl (ScriptE FinalStackInvalid))"
proof -
  from assms(1) have r: "redeem \<noteq> []" by (auto simp: generate_multisig_redeem_script_def result_iff)
  from assms(5) obtain b q where b: "concatE push_data sigs = Inr b" and q: "push_data redeem = Inr q"
    and inp: "ti_data txin = b @ q"
    by (auto simp: MultiSig_create_input_data_def result_iff)
  define ex where "ex = \<lparr>ex_tx = tx, ex_txin = txin, ex_spent_tx = spent_tx\<rparr>"
  have first: "run cr se ex (ti_data txin @ to_script out) [] =
      run cr se ex (to_script out) (IBytes redeem # rev (map IBytes sigs))"
    by (simp add: inp run_push_all [OF b assms(3)] run_push_data [OF q r])
  have second: "run cr se ex (b @ redeem) [] =
      Inr [IInt (if ordered_matching (\<lambda>k s. ecdsa_verify cr k s (sha256 cr d)) sigs pubkeys then 1 else 0)]"
    using run_redeem_script [OF assms(1,2,4), of ex d se "[]"] assms(9)
    by (simp add: run_push_all [OF b assms(3)] ex_def)
  have data: "get_multisig_data (ti_data txin) = Some (Inr (b @ redeem))"
    unfolding inp by (rule get_multisig_data_pushes [OF b assms(3) q r])
  show ?thesis
    unfolding ordered_matching_def [symmetric]
    using assms(8) MultiSig_is_MultiSig(1) [OF assms(6,7)]
    by (simp add: script_eval_def Let_def ex_def [symmetric] execute_eval_run first run_MultiSig [OF assms(6,7)]
        data second) (auto simp: ex_def)
qed

theorem MultiSig_spend_witness:
  "\<exists>redeem inp s. generate_multisig_redeem_script 1 [replicate 33 7, replicate 33 8] = Inr redeem \<and>
     MultiSig_create_input_data redeem [replicate 3 8] = Inr inp \<and>
     MultiSig_create_output_script
       (get_address_from_redeem_script_hash sample_crypto (get_hash160 sample_crypto redeem) [0x64]) None = Inr s \<and>
     script_eval sample_crypto mainnet_settings (VTransaction sample_tx)
       \<lparr>ti_tx_id = replicate 32 9, ti_index = 0, ti_data = inp\<rparr> (VBlock (p2pkh_block s)) = Some (Inr ())"
proof -
  let ?ks = "[replicate 33 7, replicate 33 8] :: bytes list" and ?sigs = "[replicate 3 8] :: bytes list"
  have "\<exists>redeem. generate_multisig_redeem_script 1 ?ks = Inr redeem \<and> length redeem \<le> 75"
    by (simp add: generate_multisig_redeem_script_def op_number_def push_data_def)
  then obtain redeem where redeem: "generate_multisig_redeem_script (int (length ?sigs)) ?ks = Inr redeem"
    and len: "length redeem \<le> 75" by auto
  have "\<exists>inp. MultiSig_create_input_data redeem ?sigs = Inr inp"
    using len by (simp add: MultiSig_create_input_data_def push_data_def)
  then obtain inp where inp: "MultiSig_create_input_data redeem ?sigs = Inr inp" ..
  define a where "a = get_address_from_redeem_script_hash sample_crypto (get_hash160 sample_crypto redeem) [0x64]"
  have h: "length (get_hash160 sample_crypto redeem) = 20" "length (get_checksum sample_crypto x) = 4" for x
    using crypto_okD [OF sample_crypto_ok] by auto
  then have a: "length a = 25" "take 20 (drop 1 a) = get_hash160 sample_crypto redeem"
    by (simp_all add: a_def get_address_from_redeem_script_hash_def Let_def)
  have "\<exists>s. MultiSig_create_output_script a None = Inr s"
    using a h(1) by (simp add: MultiSig_create_output_script_def timelock_prefix_def push_data_20)
  then obtain s where s: "MultiSig_create_output_script a None = Inr s" ..
  have side: "[] \<notin> set ?ks" "[] \<notin> set ?sigs" "list_all (pubkey_valid sample_crypto) ?ks" "timelock_ok None"
    by (simp_all add: sample_crypto_def timelock_ok_def)
  obtain d where d: "vertex_sighash_all (VTransaction sample_tx) = Inr d"
    using sample_extras_sighash by (auto simp: sample_extras_def)
  have "\<exists>ks. subseq ks ?ks \<and> list_all2 (\<lambda>k s. ecdsa_verify sample_crypto k s (sha256 sample_crypto d)) ks ?sigs"
    by (intro exI [of _ "[replicate 33 8]"]) (simp add: sample_crypto_def)
  then have "script_eval sample_crypto mainnet_settings (VTransaction sample_tx)
      \<lparr>ti_tx_id = replicate 32 9, ti_index = 0, ti_data = inp\<rparr> (VBlock (p2pkh_block s)) = Some (Inr ())"
    using MultiSig_spend [OF redeem side(1-3), of "\<lparr>ti_tx_id = replicate 32 9, ti_index = 0, ti_data = inp\<rparr>" a None
        "\<lparr>to_value = 6400, to_script = s, to_token_data = 0\<rparr>" "VBlock (p2pkh_block s)" "VTransaction sample_tx" d]
      inp s side(4) d a(2)
    by (simp add: py_nth_def p2pkh_block_def base_transaction.defs)
  with redeem inp s show ?thesis by (auto simp: a_def)
qed

subsection \<open>Values in the data of an oracle\<close>

text \<open>The format that \<^verbatim>\<open>get_data_value\<close> reads: each value is preceded by its length.\<close>

definition data_values :: "bytes list \<Rightarrow> bytes" where
  "data_values vs = concat (map (\<lambda>v. byte_of (length v) # v) vs)"

lemma get_data_loop_values:
  assumes "list_all (\<lambda>v. length v \<le> 255) vs"
  shows "get_data_loop k (pre @ data_values vs) (length pre) i =
    (if i \<le> k \<and> k - i < int (length vs) then Inr (vs ! nat (k - i)) else Inl (ScriptE DataIndexError))"
  using assms
proof (induction vs arbitrary: pre i)
  case Nil
  then show ?case by (simp add: data_values_def get_data_loop.simps)
next
  case (Cons v vs)
  let ?d = "pre @ data_values (v # vs)"
  have d: "?d = (pre @ byte_of (length v) # v) @ data_values vs" by (simp add: data_values_def)
  have "get_data_loop_step ?d (length pre) = Inr (v, length (pre @ byte_of (length v) # v))"
    using Cons.prems by (simp add: get_data_loop_step_def data_values_def Let_def nth_append)
  then have "get_data_loop k ?d (length pre) i =
      (if i = k then Inr v else get_data_loop k ?d (length (pre @ byte_of (length v) # v)) (i + 1))"
    by (simp add: get_data_loop.simps [of k ?d "length pre"]) (simp add: data_values_def)
  also have "get_data_loop k ?d (length (pre @ byte_of (length v) # v)) (i + 1) =
      (if i + 1 \<le> k \<and> k - (i + 1) < int (length vs) then Inr (vs ! nat (k - (i + 1)))
       else Inl (ScriptE DataIndexError))"
    unfolding d by (rule Cons.IH) (use Cons.prems in simp)
  finally show ?case
    using nat_diff_distrib' [of "k - i" 1] by (auto simp: nth_Cons' algebra_simps)
qed

text \<open>
  On data in the format of the oracle, \<^verbatim>\<open>get_data_value\<close> returns the value of the given index,
  and raises \<^verbatim>\<open>DataIndexError\<close> for an index that is not there.
\<close>

theorem get_data_value_values:
  assumes "list_all (\<lambda>v. length v \<le> 255) vs"
  shows "get_data_value k (data_values vs) =
    (if 0 \<le> k \<and> k < int (length vs) then Inr (vs ! nat k) else Inl (ScriptE DataIndexError))"
  using get_data_loop_values [OF assms, of k "[]" 0] by (simp add: get_data_value_def)

theorem get_data_value_values_witness:
  "get_data_value 1 (data_values [[0x42], [1, 2, 3, 4], []]) = Inr [1, 2, 3, 4]"
  using get_data_value_values [of "[[0x42], [1, 2, 3, 4], []]" 1] by simp

end
