(* ===== verification/Script_Nano.thy ===== *)
theory Script_Nano
  imports Script_Eval
begin

text \<open>
  The class \<^verbatim>\<open>NanoContractMatchValues\<close> of \<^verbatim>\<open>hathor/transaction/scripts.py\<close>: a contract that pays
  to the key whose value an oracle reports, as a script and back.
\<close>

record nano_contract =
  oracle_pubkey_hash :: bytes
  min_timestamp :: int
  oracle_data_id :: bytes
  value_dict :: "(bytes \<times> int) list"
  fallback_pubkey_hash :: item

fun push_item :: "item \<Rightarrow> bytes result" where
  "push_item (IBytes b) = push_data b"
| "push_item (IInt n) = push_int n"

definition Nano_create_output_script :: "nano_contract \<Rightarrow> bytes result" where
  "Nano_create_output_script c =
     bindE (push_data (oracle_pubkey_hash c)) (\<lambda>o'.
     bindE (push_data (oracle_data_id c)) (\<lambda>i.
     bindE (bindE (pack_uint 4 (min_timestamp c)) push_data) (\<lambda>t.
     bindE (push_item (fallback_pubkey_hash c)) (\<lambda>f.
     bindE (concatE (\<lambda>(pubkey_hash, v).
              bindE (push_int v) (\<lambda>a. bindE (push_data pubkey_hash) (\<lambda>b. Inr (a @ b)))) (value_dict c)) (\<lambda>vs.
     bindE (push_int (int (length (value_dict c)))) (\<lambda>n.
     Inr ([OP_DUP, OP_HASH160] @ o' @ [OP_EQUALVERIFY, OP_CHECKDATASIG, OP_0] @ i @ [OP_DATA_STREQUAL, OP_1] @ t
          @ [OP_DATA_GREATERTHAN, OP_2] @ f @ vs @ n @ [OP_DATA_MATCH_VALUE, OP_FIND_P2PKH])))))))"

definition Nano_create_input_data :: "bytes \<Rightarrow> bytes \<Rightarrow> bytes \<Rightarrow> bytes result" where
  "Nano_create_input_data d oracle_sig oracle_pubkey =
     bindE (push_data d) (\<lambda>a. bindE (push_data oracle_sig) (\<lambda>b. bindE (push_data oracle_pubkey) (\<lambda>c.
     Inr (a @ b @ c))))"

text \<open>The loop over \<^verbatim>\<open>values_pubkeys[pos:]\<close>; \<open>None\<close> is \<^verbatim>\<open>return None\<close>.\<close>

fun nano_values :: "nat \<Rightarrow> bytes \<Rightarrow> (bytes \<times> int) list \<Rightarrow> (bytes \<times> int) list option result" where
  "nano_values 0 s d = Inr (if s \<noteq> [] then None else Some d)"
| "nano_values (Suc n) [] d = Inr None"
| "nano_values (Suc n) (value_len # s) d =
     (if length s < unat value_len then Inr None
      else bindE (if unat value_len = 1 then Inr (uint (s ! 0)) else binary_to_int (take (unat value_len) s)) (\<lambda>v.
        case drop (unat value_len) s of
          [] \<Rightarrow> Inr None
        | pubkey_len # s' \<Rightarrow>
            if length s' < unat pubkey_len then Inr None
            else nano_values n (drop (unat pubkey_len) s') (dict_set d (take (unat pubkey_len) s') v)))"

definition Nano_parse_script :: "bytes \<Rightarrow> nano_contract option result" where
  "Nano_parse_script script =
     (case re_search Nano_re_match script of
        None \<Rightarrow> Inr None
      | Some groups \<Rightarrow>
          bindE (get_pushdata (group groups 0)) (\<lambda>o'.
          bindE (get_pushdata (group groups 1)) (\<lambda>i.
          bindE (binary_to_int (tl (group groups 2))) (\<lambda>t.
          (let extra_data = group groups 3 in
           case extra_data of
             [] \<Rightarrow> Inl (PyE IndexError)
           | fl # _ \<Rightarrow>
               (let fallback_pubkey_len = unat fl in
                if length extra_data < fallback_pubkey_len + 2 then Inr None
                else
                  (let fallback_pubkey =
                         (if fallback_pubkey_len = 1 then IInt (uint (extra_data ! 1))
                          else IBytes (drop 1 (take fallback_pubkey_len extra_data)));
                       n_values = unat (last extra_data);
                       values_pubkeys = drop (fallback_pubkey_len + 1) (take (length extra_data - 2) extra_data) in
                   bindE (nano_values n_values values_pubkeys []) (\<lambda>r.
                   Inr (map_option (\<lambda>d. \<lparr>oracle_pubkey_hash = o', min_timestamp = t, oracle_data_id = i,
                     value_dict = d, fallback_pubkey_hash = fallback_pubkey\<rparr>) r)))))))))"

definition sample_contract :: nano_contract where
  "sample_contract = \<lparr>oracle_pubkey_hash = replicate 20 7, min_timestamp = 1578075305, oracle_data_id = [0x41],
     value_dict = [([9, 9], 3)], fallback_pubkey_hash = IBytes [1, 2, 3]\<rparr>"

lemma sample_contract_script:
  "Nano_create_output_script sample_contract =
     Inr ([0x76, 0xA9, 0x14] @ replicate 20 7 @ [0x88, 0xBA, 0x50, 1, 0x41, 0xC0, 0x51, 4, 0x5e, 0xf, 0x84, 0xa9,
       0xC1, 0x52, 3, 1, 2, 3, 1, 3, 2, 9, 9, 1, 1, 0xD1, 0xD0])"
  by (simp add: sample_contract_def Nano_create_output_script_def push_data_def push_int_def pack_uint_def
      opcode_defs to_be_numeral to_be_simps byte_of_def)

text \<open>
  The parser loses the last byte of the fallback key hash. Parsing the script of a contract
  gives the contract back, except for its fallback key hash: the slice of the parser stops
  one byte early, so that the hash that was written, here three bytes, comes back as two.
\<close>

theorem Nano_parse_truncates_fallback:
  "bindE (Nano_create_output_script sample_contract) Nano_parse_script =
     Inr (Some (sample_contract\<lparr>fallback_pubkey_hash := IBytes [1, 2]\<rparr>))"
proof -
  have "re_search Nano_re_match ([0x76, 0xA9, 0x14] @ replicate 20 7 @ [0x88, 0xBA, 0x50, 1, 0x41, 0xC0, 0x51, 4,
       0x5e, 0xf, 0x84, 0xa9, 0xC1, 0x52, 3, 1, 2, 3, 1, 3, 2, 9, 9, 1, 1, 0xD1, 0xD0]) =
     Some [Some (0x14 # replicate 20 7), Some [1, 0x41], Some [4, 0x5e, 0xf, 0x84, 0xa9],
       Some [3, 1, 2, 3, 1, 3, 2, 9, 9, 1, 1]]"
    by (simp add: re_search_def Nano_re_match_def re_pushdata_def opcode_defs byte_of_lits at_end_def)
  then show ?thesis
    unfolding sample_contract_script
    by (simp add: Nano_parse_script_def group_def get_pushdata_def binary_to_int_def from_be_Cons
        sample_contract_def)
qed

end
