(* ===== verification/Py_Float.thy ===== *)
theory Py_Float
  imports Hathor_Prelude
begin

text \<open>
  Python's floating-point numbers: IEEE-754 doubles with rounding to nearest, ties to even.
  Every finite double is an integral multiple of the smallest one, \<open>2\<close> to the power of \<open>-1074\<close>,
  so the exact value of a double is an integer in that unit, comparisons are those of the
  integers, and the arithmetic operations round an exact quotient of integers. The
  transcendental functions of the C library (\<^verbatim>\<open>pow\<close>, \<^verbatim>\<open>log\<close>) are fields of a record that the
  definitions using them take as an argument.
\<close>

subsection \<open>The fields of a double\<close>

definition fl_neg :: "float64 \<Rightarrow> bool" where
  "fl_neg w \<longleftrightarrow> 2 ^ 63 \<le> uint w"

definition fl_exp :: "float64 \<Rightarrow> int" where
  "fl_exp w = uint w div 2 ^ 52 mod 2 ^ 11"

definition fl_frac :: "float64 \<Rightarrow> int" where
  "fl_frac w = uint w mod 2 ^ 52"

definition fl_nan :: "float64 \<Rightarrow> bool" where
  "fl_nan w \<longleftrightarrow> fl_exp w = 2047 \<and> fl_frac w \<noteq> 0"

definition fl_inf :: "float64 \<Rightarrow> bool" where
  "fl_inf w \<longleftrightarrow> fl_exp w = 2047 \<and> fl_frac w = 0"

definition isfinite :: "float64 \<Rightarrow> bool" where
  "isfinite w \<longleftrightarrow> fl_exp w \<noteq> 2047"

text \<open>
  The magnitude and the value in units of the smallest double. An infinity has a magnitude
  above that of all finite doubles, so comparisons need not treat it apart.
\<close>

definition fl_mag :: "float64 \<Rightarrow> int" where
  "fl_mag w = (if fl_exp w = 0 then fl_frac w else (2 ^ 52 + fl_frac w) * 2 ^ nat (fl_exp w - 1))"

definition fl_scaled :: "float64 \<Rightarrow> int" where
  "fl_scaled w = (if fl_neg w then - fl_mag w else fl_mag w)"

definition fl_one :: int where
  "fl_one = 2 ^ 1074"

subsection \<open>Rounding\<close>

definition round_half_even :: "int \<Rightarrow> int \<Rightarrow> int" where
  "round_half_even n d =
     (let q = n div d; r = n mod d in
      if 2 * r < d then q else if d < 2 * r then q + 1 else if even q then q else q + 1)"

fun ilog2 :: "nat \<Rightarrow> nat" where
  "ilog2 n = (if n \<le> 1 then 0 else Suc (ilog2 (n div 2)))"

declare ilog2.simps [simp del]

text \<open>
  A quotient \<open>n / d\<close> is written as \<open>m * 2 ^ s\<close> with 53 bits in \<open>m\<close>; the bit pattern is then
  \<open>s * 2 ^ 52 + m\<close>, for subnormal numbers and when the rounding carries into a new bit as well.
\<close>

definition fl_shift :: "int \<Rightarrow> nat" where
  "fl_shift q = (if q < 2 ^ 53 then 0 else ilog2 (nat q) - 52)"

definition fl_bits :: "int \<Rightarrow> int \<Rightarrow> int" where
  "fl_bits n d = (let s = fl_shift (n div d) in int s * 2 ^ 52 + round_half_even n (d * 2 ^ s))"

definition fl_inf_bits :: int where
  "fl_inf_bits = 2047 * 2 ^ 52"

definition fl_pack :: "bool \<Rightarrow> int \<Rightarrow> float64" where
  "fl_pack neg b = word_of_int ((if neg then 2 ^ 63 else 0) + b)"

definition fl_round :: "bool \<Rightarrow> int \<Rightarrow> int \<Rightarrow> float64" where
  "fl_round neg n d = fl_pack neg (min (fl_bits n d) fl_inf_bits)"

definition NAN :: float64 where
  "NAN = 0x7FF8000000000000"

subsection \<open>Comparisons\<close>

definition fl_less :: "float64 \<Rightarrow> float64 \<Rightarrow> bool" where
  "fl_less x y \<longleftrightarrow> \<not> fl_nan x \<and> \<not> fl_nan y \<and> fl_scaled x < fl_scaled y"

definition fl_le :: "float64 \<Rightarrow> float64 \<Rightarrow> bool" where
  "fl_le x y \<longleftrightarrow> \<not> fl_nan x \<and> \<not> fl_nan y \<and> fl_scaled x \<le> fl_scaled y"

definition fl_eq :: "float64 \<Rightarrow> float64 \<Rightarrow> bool" where
  "fl_eq x y \<longleftrightarrow> \<not> fl_nan x \<and> \<not> fl_nan y \<and> fl_scaled x = fl_scaled y"

text \<open>\<^verbatim>\<open>max(a, b)\<close> keeps the first argument unless the second is greater, \<^verbatim>\<open>min(a, b)\<close> unless it is less.\<close>

definition fl_max :: "float64 \<Rightarrow> float64 \<Rightarrow> float64" where
  "fl_max a b = (if fl_less a b then b else a)"

definition fl_min :: "float64 \<Rightarrow> float64 \<Rightarrow> float64" where
  "fl_min a b = (if fl_less b a then b else a)"

subsection \<open>Arithmetic\<close>

definition fl_uminus :: "float64 \<Rightarrow> float64" where
  "fl_uminus x = fl_pack (\<not> fl_neg x) (uint x mod 2 ^ 63)"

definition fl_abs :: "float64 \<Rightarrow> float64" where
  "fl_abs x = fl_pack False (uint x mod 2 ^ 63)"

definition fl_add :: "float64 \<Rightarrow> float64 \<Rightarrow> float64" where
  "fl_add x y =
     (if fl_nan x \<or> fl_nan y then NAN
      else if fl_inf x then (if fl_inf y \<and> fl_neg x \<noteq> fl_neg y then NAN else x)
      else if fl_inf y then y
      else let v = fl_scaled x + fl_scaled y in
        if v = 0 then fl_pack (fl_neg x \<and> fl_neg y) 0 else fl_round (v < 0) \<bar>v\<bar> 1)"

definition fl_sub :: "float64 \<Rightarrow> float64 \<Rightarrow> float64" where
  "fl_sub x y = fl_add x (fl_uminus y)"

definition fl_mul :: "float64 \<Rightarrow> float64 \<Rightarrow> float64" where
  "fl_mul x y =
     (let neg = (fl_neg x \<noteq> fl_neg y) in
      if fl_nan x \<or> fl_nan y then NAN
      else if fl_inf x \<or> fl_inf y then
        (if fl_mag x = 0 \<or> fl_mag y = 0 then NAN else fl_pack neg fl_inf_bits)
      else fl_round neg (fl_mag x * fl_mag y) fl_one)"

definition fl_div :: "float64 \<Rightarrow> float64 \<Rightarrow> float64 result" where
  "fl_div x y =
     (let neg = (fl_neg x \<noteq> fl_neg y) in
      if fl_mag y = 0 then Inl (PyE ZeroDivisionError)
      else if fl_nan x \<or> fl_nan y \<or> fl_inf x \<and> fl_inf y then Inr NAN
      else if fl_inf x then Inr (fl_pack neg fl_inf_bits)
      else if fl_inf y then Inr (fl_pack neg 0)
      else Inr (fl_round neg (fl_mag x * fl_one) (fl_mag y)))"

subsection \<open>Conversions\<close>

text \<open>The conversion of an integer operand raises when it rounds to infinity.\<close>

definition fl_of_int :: "int \<Rightarrow> float64 result" where
  "fl_of_int i =
     (let w = fl_round (i < 0) (\<bar>i\<bar> * fl_one) 1 in
      if fl_inf w then Inl (PyE OverflowError) else Inr w)"

definition fl_integral :: "(int \<Rightarrow> int) \<Rightarrow> float64 \<Rightarrow> int result" where
  "fl_integral f x =
     (if fl_nan x then Inl (PyE ValueError)
      else if fl_inf x then Inl (PyE OverflowError)
      else Inr (f (fl_scaled x)))"

definition fl_floor :: "float64 \<Rightarrow> int result" where
  "fl_floor = fl_integral (\<lambda>v. v div fl_one)"

definition fl_ceil :: "float64 \<Rightarrow> int result" where
  "fl_ceil = fl_integral (\<lambda>v. - (- v div fl_one))"

text \<open>\<^verbatim>\<open>int(x)\<close> truncates towards zero.\<close>

definition fl_trunc :: "float64 \<Rightarrow> int result" where
  "fl_trunc = fl_integral (\<lambda>v. if v < 0 then - (- v div fl_one) else v div fl_one)"

text \<open>\<^verbatim>\<open>m / n\<close> on integers is the quotient rounded once.\<close>

definition int_truediv :: "int \<Rightarrow> int \<Rightarrow> float64 result" where
  "int_truediv m n =
     (if n = 0 then Inl (PyE ZeroDivisionError)
      else let w = fl_round ((m < 0) \<noteq> (n < 0)) (\<bar>m\<bar> * fl_one) \<bar>n\<bar> in
        if fl_inf w then Inl (PyE OverflowError) else Inr w)"

text \<open>
  The C library: \<^verbatim>\<open>2**x\<close>, \<^verbatim>\<open>math.log(x, 2)\<close> and \<^verbatim>\<open>math.log2\<close> of an integer, which raise on overflow
  and out of their domain.
\<close>

record libm =
  pow2 :: "float64 \<Rightarrow> float64 result"
  log_2 :: "float64 \<Rightarrow> float64 result"
  log2_int :: "int \<Rightarrow> float64 result"

subsection \<open>How close a rounded number is\<close>

lemma ilog2_bounds: "0 < n \<Longrightarrow> 2 ^ ilog2 n \<le> n \<and> n < 2 ^ Suc (ilog2 n)"
proof (induction n rule: ilog2.induct)
  case (1 n)
  show ?case
  proof (cases "n \<le> 1")
    case True
    with 1(2) show ?thesis by (simp add: ilog2.simps [of n])
  next
    case False
    then have "2 ^ ilog2 (n div 2) \<le> n div 2 \<and> n div 2 < 2 ^ Suc (ilog2 (n div 2))"
      using 1(1) by simp
    with False show ?thesis by (simp add: ilog2.simps [of n]) linarith
  qed
qed

lemma fl_shift_upper:
  assumes "0 \<le> q"
  shows "q < 2 ^ (fl_shift q + 53)"
proof (cases "q < 2 ^ 53")
  case False
  then have "0 < nat q" by simp
  from ilog2_bounds [OF this] False have "nat q < 2 ^ Suc (ilog2 (nat q))" and "2 ^ 53 \<le> nat q" by (auto simp: le_nat_iff)
  then have "(2 :: nat) ^ 53 < 2 ^ Suc (ilog2 (nat q))" by (rule le_less_trans [rotated])
  then have "53 < Suc (ilog2 (nat q))" by (rule power_less_imp_less_exp [rotated]) simp
  then have "53 \<le> ilog2 (nat q)" by simp
  then have s: "fl_shift q + 53 = Suc (ilog2 (nat q))" using False by (simp add: fl_shift_def)
  have "int (nat q) < int (2 ^ Suc (ilog2 (nat q)))"
    using \<open>nat q < 2 ^ Suc (ilog2 (nat q))\<close> by (simp only: of_nat_less_iff)
  then show ?thesis unfolding s using assms by simp
qed (simp add: fl_shift_def)

lemma fl_shift_lower:
  assumes "fl_shift q \<noteq> 0"
  shows "2 ^ (fl_shift q + 52) \<le> q"
proof -
  have q: "2 ^ 53 \<le> q" using assms by (simp add: fl_shift_def split: if_splits)
  then have "0 < nat q" by simp
  from ilog2_bounds [OF this] have b: "2 ^ ilog2 (nat q) \<le> nat q" by simp
  have "fl_shift q + 52 = ilog2 (nat q)" using assms q by (simp add: fl_shift_def)
  with b have "int (2 ^ (fl_shift q + 52)) \<le> int (nat q)" by (simp only: of_nat_le_iff)
  with q show ?thesis by simp
qed

lemma round_half_even_close:
  assumes "0 < d"
  shows "2 * \<bar>round_half_even n d * d - n\<bar> \<le> d"
proof -
  have n: "n = n div d * d + n mod d" and r: "0 \<le> n mod d" "n mod d < d" using assms by simp_all
  from n have down: "n div d * d - n = - (n mod d)" by linarith
  then have up: "(n div d + 1) * d - n = d - n mod d" by (simp add: distrib_right)
  show ?thesis unfolding round_half_even_def Let_def using r by (simp only: down up split: if_split) auto
qed

lemma round_half_even_mono_bounds:
  assumes "0 < d" and "a * d \<le> n" and "n \<le> b * d"
  shows "a \<le> round_half_even n d" and "round_half_even n d \<le> b"
proof -
  have "a * d div d \<le> n div d" and q0: "n div d \<le> b * d div d"
    using assms by (simp_all only: zdiv_mono1)
  then show "a \<le> round_half_even n d" using assms(1) by (simp add: round_half_even_def Let_def)
  from q0 have q: "n div d \<le> b" using assms(1) by simp
  show "round_half_even n d \<le> b"
  proof (cases "n div d = b")
    case True
    then have "n mod d = 0"
      using assms(3) div_mult_mod_eq [of n d] pos_mod_sign [OF assms(1), of n] by simp
    with True \<open>0 < d\<close> show ?thesis by (simp add: round_half_even_def)
  next
    case False
    with q show ?thesis by (simp add: round_half_even_def Let_def)
  qed
qed

lemma uint_fl_pack:
  assumes "0 \<le> b" and "b < 2 ^ 63"
  shows "uint (fl_pack neg b) = (if neg then 2 ^ 63 else 0) + b"
  using assms by (simp add: fl_pack_def uint_word_of_int take_bit_eq_mod del: of_int_add)

lemma fl_pack_fields:
  assumes "0 \<le> b" and "b < 2 ^ 63"
  shows "fl_exp (fl_pack neg b) = b div 2 ^ 52"
    and "fl_frac (fl_pack neg b) = b mod 2 ^ 52"
    and "fl_neg (fl_pack neg b) = neg"
proof -
  note u = uint_fl_pack [OF assms, of neg]
  have d: "(2 ^ 63 + b) div 2 ^ 52 = b div 2 ^ 52 + 2 ^ 11" by simp
  have m: "(2 ^ 63 + b) mod 2 ^ 52 = b mod 2 ^ 52"
    using mod_mult_self3 [of "2 ^ 11" "2 ^ 52 :: int" b] by simp
  have "0 \<le> b div 2 ^ 52" and "b div 2 ^ 52 < 2 ^ 11" using assms by simp_all
  then show "fl_exp (fl_pack neg b) = b div 2 ^ 52" unfolding fl_exp_def u
    by (cases neg) (simp_all only: d if_True if_False add_0 mod_add_self2 mod_pos_pos_trivial)
  show "fl_frac (fl_pack neg b) = b mod 2 ^ 52" unfolding fl_frac_def u
    by (cases neg) (simp_all only: m if_True if_False add_0)
  show "fl_neg (fl_pack neg b) = neg" unfolding fl_neg_def u using assms by (cases neg) simp_all
qed

lemma mag_of_bits:
  assumes "0 \<le> m" and "m \<le> 2 ^ 53" and "s \<noteq> 0 \<Longrightarrow> 2 ^ 52 \<le> m"
    and "b = int s * 2 ^ 52 + m" and "b < fl_inf_bits"
  shows "fl_mag (fl_pack neg b) = m * 2 ^ s" and "isfinite (fl_pack neg b)" and "fl_neg (fl_pack neg b) = neg"
proof -
  have b: "0 \<le> b" "b < 2 ^ 63" using assms(1,4,5) by (simp_all add: fl_inf_bits_def)
  note fields = fl_pack_fields [OF b, of neg]
  show "fl_neg (fl_pack neg b) = neg" by (rule fields)
  have "b div 2 ^ 52 < 2047" using assms(5) by (simp add: fl_inf_bits_def)
  then show "isfinite (fl_pack neg b)" by (simp add: isfinite_def fields)
  have e: "b div 2 ^ 52 = int s + m div 2 ^ 52" and f: "b mod 2 ^ 52 = m mod 2 ^ 52"
    using assms(4) by simp_all
  consider "m < 2 ^ 52" | "2 ^ 52 \<le> m" "m < 2 ^ 53" | "m = 2 ^ 53" using assms(2) by linarith
  then show "fl_mag (fl_pack neg b) = m * 2 ^ s"
  proof cases
    case 1
    then have "s = 0" using assms(3) by linarith
    with 1 assms(1) have "b div 2 ^ 52 = 0" and "b mod 2 ^ 52 = m" using e f by simp_all
    then show ?thesis unfolding fl_mag_def fields using \<open>s = 0\<close> by simp
  next
    case 2
    then have "m div 2 ^ 52 = 1" by simp
    then have "b div 2 ^ 52 = int s + 1" and "b mod 2 ^ 52 = m - 2 ^ 52"
      using e f div_mult_mod_eq [of m "2 ^ 52"] by simp_all
    then show ?thesis unfolding fl_mag_def fields by simp
  next
    case 3
    then have "b div 2 ^ 52 = int s + 2" and "b mod 2 ^ 52 = 0" using e f by simp_all
    then show ?thesis unfolding fl_mag_def fields using 3 by (simp add: nat_add_distrib)
  qed
qed

lemma fl_round_close:
  assumes "0 \<le> n" and "0 < d" and small: "n div d < 2 ^ 2000"
    and "s = fl_shift (n div d)" and "m = round_half_even n (d * 2 ^ s)"
  shows "fl_mag (fl_round neg n d) = m * 2 ^ s" and "isfinite (fl_round neg n d)"
    and "fl_neg (fl_round neg n d) = neg" and "2 * \<bar>m * 2 ^ s * d - n\<bar> \<le> d * 2 ^ s"
proof -
  have q: "0 \<le> n div d" using assms(1,2) by (simp add: pos_imp_zdiv_nonneg_iff)
  have "n = n div d * d + n mod d" and "0 \<le> n mod d" and "n mod d < d" using assms(2) by simp_all
  then have nd: "n div d * d \<le> n" "n < (n div d + 1) * d" unfolding distrib_right by linarith+
  have "n div d + 1 \<le> 2 ^ (s + 53)" using fl_shift_upper [OF q] assms(4) by simp
  then have "(n div d + 1) * d \<le> 2 ^ (s + 53) * d" using assms(2) by (simp add: mult_right_mono)
  with nd(2) have up: "n \<le> 2 ^ 53 * (d * 2 ^ s)" by (simp add: power_add mult_ac)
  have low: "2 ^ 52 * (d * 2 ^ s) \<le> n" if "s \<noteq> 0"
  proof -
    have "2 ^ (s + 52) * d \<le> n div d * d"
      using fl_shift_lower [of "n div d"] that assms(2,4) by (simp add: mult_right_mono)
    with nd(1) show ?thesis by (simp add: power_add mult_ac)
  qed
  have ds: "0 < d * 2 ^ s" using assms(2) by simp
  have m: "0 \<le> m" "m \<le> 2 ^ 53" "s \<noteq> 0 \<Longrightarrow> 2 ^ 52 \<le> m"
    using round_half_even_mono_bounds [OF ds, of 0 n "2 ^ 53"] round_half_even_mono_bounds(1) [OF ds low, of "2 ^ 53"]
      up assms(1,5) by simp_all
  have "s < 2000"
  proof (cases "s = 0")
    case False
    with fl_shift_lower [of "n div d"] assms(4) small have "(2 :: int) ^ (s + 52) < 2 ^ 2000" by simp
    then have "s + 52 < 2000" by (rule power_less_imp_less_exp [rotated]) simp
    then show ?thesis by simp
  qed simp
  then have b: "int s * 2 ^ 52 + m < fl_inf_bits" using m(2) by (simp add: fl_inf_bits_def)
  have r: "fl_round neg n d = fl_pack neg (int s * 2 ^ 52 + m)"
    using b assms(4,5) by (simp add: fl_round_def fl_bits_def Let_def)
  from mag_of_bits [OF m refl b, of neg] show "fl_mag (fl_round neg n d) = m * 2 ^ s"
    and "isfinite (fl_round neg n d)" and "fl_neg (fl_round neg n d) = neg" unfolding r by blast+
  from round_half_even_close [OF ds, of n] assms(5) show "2 * \<bar>m * 2 ^ s * d - n\<bar> \<le> d * 2 ^ s"
    by (simp add: mult_ac)
qed

text \<open>A number whose low bits are zero is not rounded; integers of up to 53 bits are such numbers.\<close>

lemma multiple_close:
  fixes a b c :: int
  assumes "c dvd a" and "c dvd b" and "2 * \<bar>a - b\<bar> \<le> c" and "0 < c"
  shows "a = b"
proof -
  have "\<bar>a - b\<bar> < c" using assms(3,4) by (cases "a \<le> b") auto
  then show ?thesis
    using assms zdvd_not_zless [of "\<bar>a - b\<bar>" c] by (metis dvd_abs_iff dvd_diff right_minus_eq zero_less_abs_iff)
qed

lemma fl_round_close_1:
  assumes "0 \<le> n" and "n < 2 ^ 2000" and "s = fl_shift n" and "m = round_half_even n (2 ^ s)"
  shows "fl_mag (fl_round neg n 1) = m * 2 ^ s" and "isfinite (fl_round neg n 1)"
    and "fl_neg (fl_round neg n 1) = neg" and "2 * \<bar>m * 2 ^ s - n\<bar> \<le> 2 ^ s"
  using fl_round_close(1-3) [of n 1 s m neg] fl_round_close(4) [of n 1 s m] assms zero_less_one
  unfolding div_by_1 mult_1 mult_1_right by blast+

lemma fl_round_exact:
  assumes "0 \<le> n" and "n < 2 ^ 2000" and "2 ^ fl_shift n dvd n"
  shows "fl_mag (fl_round neg n 1) = n"
proof -
  note c = fl_round_close_1 [OF assms(1,2) refl refl]
  from multiple_close [OF dvd_triv_right assms(3) c(4)] c(1) show ?thesis by simp
qed

lemma pow2_dvd_scaled:
  assumes "i \<le> 2 ^ 53"
  shows "2 ^ fl_shift (i * 2 ^ k) dvd i * (2 :: int) ^ k"
proof (cases "fl_shift (i * 2 ^ k) \<le> k")
  case True
  then show ?thesis by (meson dvd_mult le_imp_power_dvd)
next
  case False
  then have low: "2 ^ (fl_shift (i * 2 ^ k) + 52) \<le> i * 2 ^ k" using fl_shift_lower [of "i * 2 ^ k"] by simp
  have "(2 :: int) ^ (k + 53) \<le> 2 ^ (fl_shift (i * 2 ^ k) + 52)"
    using False by (intro power_increasing) simp_all
  also note low
  finally have "2 ^ 53 * 2 ^ k \<le> i * (2 :: int) ^ k" by (simp add: power_add mult.commute)
  then have "2 ^ 53 \<le> i" by (rule mult_right_le_imp_le) simp
  with assms have i: "i * 2 ^ k = 2 ^ (k + 53)" by (simp add: power_add mult.commute)
  from low have "2 ^ (fl_shift (i * 2 ^ k) + 52) \<le> (2 :: int) ^ (k + 53)" unfolding i .
  then have "fl_shift (i * 2 ^ k) + 52 \<le> k + 53" by (rule power_le_imp_le_exp [rotated]) simp
  then show ?thesis unfolding i by (intro le_imp_power_dvd) simp
qed

lemma scaled_int_small:
  assumes "\<bar>i\<bar> \<le> 2 ^ 53"
  shows "\<bar>i\<bar> * fl_one < 2 ^ 2000"
proof -
  have "\<bar>i\<bar> * fl_one \<le> 2 ^ 53 * 2 ^ 1074" unfolding fl_one_def using assms by (rule mult_right_mono) simp
  also have "\<dots> = (2 :: int) ^ 1127" by (simp only: flip: power_add) simp
  also have "\<dots> < 2 ^ 2000" by (rule power_strict_increasing) simp_all
  finally show ?thesis .
qed

lemma fl_one_pos [simp]: "0 < fl_one"
  by (simp add: fl_one_def del: power_numeral)

lemma fl_one_nonzero [simp]: "fl_one \<noteq> 0" "\<not> fl_one < 0" "0 \<le> fl_one"
  using fl_one_pos by linarith+

lemma fl_round_int:
  assumes "\<bar>i\<bar> \<le> 2 ^ 53"
  shows "fl_mag (fl_round neg (\<bar>i\<bar> * fl_one) 1) = \<bar>i\<bar> * fl_one" and "isfinite (fl_round neg (\<bar>i\<bar> * fl_one) 1)"
    and "fl_neg (fl_round neg (\<bar>i\<bar> * fl_one) 1) = neg"
proof -
  have n: "0 \<le> \<bar>i\<bar> * fl_one" by (simp add: less_imp_le)
  show "fl_mag (fl_round neg (\<bar>i\<bar> * fl_one) 1) = \<bar>i\<bar> * fl_one"
    using fl_round_exact [OF n scaled_int_small [OF assms]] pow2_dvd_scaled [OF assms, of 1074]
    unfolding fl_one_def by blast
  show "isfinite (fl_round neg (\<bar>i\<bar> * fl_one) 1)" and "fl_neg (fl_round neg (\<bar>i\<bar> * fl_one) 1) = neg"
    using fl_round_close_1 [OF n scaled_int_small [OF assms] refl refl] by blast+
qed

lemma fl_of_int_exact:
  assumes "\<bar>i\<bar> \<le> 2 ^ 53"
  obtains w where "fl_of_int i = Inr w" and "isfinite w" and "fl_mag w = \<bar>i\<bar> * fl_one" and "fl_neg w = (i < 0)"
proof -
  note r = fl_round_int [OF assms, of "i < 0"]
  then have "\<not> fl_inf (fl_round (i < 0) (\<bar>i\<bar> * fl_one) 1)" by (simp add: fl_inf_def isfinite_def)
  with r that show ?thesis by (simp add: fl_of_int_def)
qed

lemma fl_resign_fields:
  defines "y \<equiv> \<lambda>x neg. fl_pack neg (uint (x :: float64) mod 2 ^ 63)"
  shows "fl_neg (y x neg) = neg" and "fl_mag (y x neg) = fl_mag x" and "isfinite (y x neg) = isfinite x"
    and "fl_nan (y x neg) = fl_nan x" and "fl_inf (y x neg) = fl_inf x"
proof -
  have b: "0 \<le> uint x mod 2 ^ 63" "uint x mod 2 ^ 63 < 2 ^ 63" by simp_all
  note fields = fl_pack_fields [OF b, of neg]
  have "uint x mod 2 ^ 63 div 2 ^ 52 = uint x div 2 ^ 52 mod 2 ^ 11"
    using zmod_zmult2_eq [of "2 ^ 11" "uint x" "2 ^ 52"] by (simp add: mult.commute)
  then have e: "fl_exp (y x neg) = fl_exp x" using fields(1) by (simp only: y_def fl_exp_def [of x])
  have "uint x mod 2 ^ 63 mod 2 ^ 52 = uint x mod 2 ^ 52" by (simp add: mod_mod_cancel)
  then have f: "fl_frac (y x neg) = fl_frac x" using fields(2) by (simp only: y_def fl_frac_def [of x])
  show "fl_neg (y x neg) = neg" using fields(3) by (simp only: y_def)
  show "fl_mag (y x neg) = fl_mag x" by (simp only: fl_mag_def e f)
  show "isfinite (y x neg) = isfinite x" by (simp only: isfinite_def e)
  show "fl_nan (y x neg) = fl_nan x" by (simp only: fl_nan_def e f)
  show "fl_inf (y x neg) = fl_inf x" by (simp only: fl_inf_def e f)
qed

lemmas fl_abs_fields = fl_resign_fields [where neg = False, folded fl_abs_def]
lemmas fl_uminus_fields = fl_resign_fields [where neg = "\<not> fl_neg x" and x = x for x, folded fl_uminus_def]

lemma fl_scaled_abs: "fl_scaled (fl_abs x) = fl_mag x"
  by (simp add: fl_scaled_def fl_abs_fields)

lemma isfinite_cases: "isfinite x \<Longrightarrow> \<not> fl_nan x \<and> \<not> fl_inf x"
  by (simp add: isfinite_def fl_nan_def fl_inf_def)

subsection \<open>Doubles that are integers\<close>

definition fl_is_int :: "float64 \<Rightarrow> int \<Rightarrow> bool" where
  "fl_is_int w i \<longleftrightarrow> isfinite w \<and> fl_scaled w = i * fl_one"

lemma fl_round_is_int: "\<bar>i\<bar> \<le> 2 ^ 53 \<Longrightarrow> fl_is_int (fl_round (i < 0) (\<bar>i\<bar> * fl_one) 1) i"
  using fl_round_int [of i "i < 0"] by (auto simp: fl_is_int_def fl_scaled_def)

lemma fl_of_int_is_int:
  assumes "\<bar>i\<bar> \<le> 2 ^ 53"
  obtains w where "fl_of_int i = Inr w" and "fl_is_int w i"
  using fl_of_int_exact [OF assms] that unfolding fl_is_int_def fl_scaled_def by (metis abs_minus_cancel abs_of_neg abs_of_nonneg linorder_not_less minus_minus mult_minus_left)

lemma fl_uminus_is_int: "fl_is_int w i \<Longrightarrow> fl_is_int (fl_uminus w) (- i)"
  by (auto simp: fl_is_int_def fl_uminus_fields fl_scaled_def)

lemma fl_add_is_int:
  assumes "fl_is_int x i" and "fl_is_int y j" and "\<bar>i + j\<bar> \<le> 2 ^ 53"
  shows "fl_is_int (fl_add x y) (i + j)"
proof -
  have fin: "\<not> fl_nan x" "\<not> fl_inf x" "\<not> fl_nan y" "\<not> fl_inf y"
    using assms(1,2) isfinite_cases by (auto simp: fl_is_int_def)
  have v: "fl_scaled x + fl_scaled y = (i + j) * fl_one"
    using assms(1,2) by (simp add: fl_is_int_def distrib_right)
  have zero: "fl_is_int (fl_pack neg 0) 0" for neg
    using fl_pack_fields [of 0 True] fl_pack_fields [of 0 False]
    by (cases neg) (simp_all add: fl_is_int_def isfinite_def fl_scaled_def fl_mag_def)
  have "\<bar>(i + j) * fl_one\<bar> = \<bar>i + j\<bar> * fl_one" and "(i + j) * fl_one < 0 \<longleftrightarrow> i + j < 0"
    using fl_one_pos by (simp_all add: abs_mult mult_less_0_iff)
  then show ?thesis
    using fin v zero fl_round_is_int [OF assms(3)] by (auto simp: fl_add_def Let_def)
qed

lemma fl_sub_is_int:
  "fl_is_int x i \<Longrightarrow> fl_is_int y j \<Longrightarrow> \<bar>i - j\<bar> \<le> 2 ^ 53 \<Longrightarrow> fl_is_int (fl_sub x y) (i - j)"
  unfolding fl_sub_def using fl_add_is_int [OF _ fl_uminus_is_int] by fastforce

lemma fl_trunc_is_int: "fl_is_int w i \<Longrightarrow> fl_trunc w = Inr i"
  using fl_one_pos
  by (auto simp: fl_is_int_def fl_trunc_def fl_integral_def isfinite_cases mult_less_0_iff simp flip: mult_minus_left)

subsection \<open>Scaling by powers of two\<close>

lemma round_half_even_scale: "0 < c \<Longrightarrow> round_half_even (a * c) (b * c) = round_half_even a b"
  by (simp add: round_half_even_def Let_def mult_less_cancel_right flip: mult_mod_left mult.assoc)

lemma fl_round_cancel: "0 < c \<Longrightarrow> fl_round neg (p * c) c = fl_round neg p 1"
  using round_half_even_scale [of c p "2 ^ fl_shift p"]
  by (simp add: fl_round_def fl_bits_def Let_def mult.commute)

lemma ilog2_unique:
  assumes "2 ^ k \<le> n" and "n < 2 ^ Suc k"
  shows "ilog2 n = k"
proof -
  have "0 < n" using assms(1) by (metis less_le_trans zero_less_numeral zero_less_power)
  from ilog2_bounds [OF this] assms have "(2 :: nat) ^ ilog2 n < 2 ^ Suc k" and "(2 :: nat) ^ k < 2 ^ Suc (ilog2 n)"
    by (meson le_less_trans)+
  then have "ilog2 n < Suc k" and "k < Suc (ilog2 n)"
    by (metis one_less_numeral_iff power_less_imp_less_exp semiring_norm(76))+
  then show ?thesis by simp
qed

lemma fl_shift_unique:
  assumes "2 ^ (k + 52) \<le> q" and "q < 2 ^ (k + 53)" and "2 ^ 53 \<le> q"
  shows "fl_shift q = k"
proof -
  have q: "0 \<le> q" using assms(3) by simp
  have "2 ^ (k + 52) \<le> nat q" using assms(1) q by (simp add: le_nat_iff)
  moreover have "nat q < 2 ^ Suc (k + 52)" using assms(2) q by (simp add: nat_less_iff power_add)
  ultimately have "ilog2 (nat q) = k + 52" by (rule ilog2_unique)
  with assms(3) show ?thesis by (simp add: fl_shift_def)
qed

lemma fl_shift_scale:
  assumes "2 ^ 53 \<le> a"
  shows "fl_shift (a * 2 ^ k) = fl_shift a + k"
proof (rule fl_shift_unique)
  have low: "2 ^ (fl_shift a + 52) \<le> a"
  proof (cases "fl_shift a = 0")
    case True
    with assms show ?thesis by simp
  qed (rule fl_shift_lower)
  have up: "a < 2 ^ (fl_shift a + 53)" using assms by (intro fl_shift_upper) simp
  have "2 ^ (fl_shift a + 52) * 2 ^ k \<le> a * 2 ^ k" using low by (rule mult_right_mono) simp
  then show "2 ^ (fl_shift a + k + 52) \<le> a * 2 ^ k" by (simp add: power_add mult_ac)
  have "a * 2 ^ k < 2 ^ (fl_shift a + 53) * 2 ^ k" using up by (rule mult_strict_right_mono) simp
  then show "a * 2 ^ k < 2 ^ (fl_shift a + k + 53)" by (simp add: power_add mult_ac)
  have "2 ^ 53 * 1 \<le> a * 2 ^ k" using assms by (intro mult_mono) simp_all
  then show "2 ^ 53 \<le> a * 2 ^ k" by simp
qed

lemma fl_round_scaled:
  assumes "2 ^ 53 \<le> a" and "a * 2 ^ k < 2 ^ 2000" and "t = fl_shift a"
  shows "fl_mag (fl_round neg (a * 2 ^ k) 1) = round_half_even a (2 ^ t) * 2 ^ t * 2 ^ k"
    and "isfinite (fl_round neg (a * 2 ^ k) 1)" and "fl_neg (fl_round neg (a * 2 ^ k) 1) = neg"
proof -
  have a: "0 \<le> a * 2 ^ k" using assms(1) by simp
  note c = fl_round_close_1(1-3) [OF a assms(2) refl refl, of neg]
  have "round_half_even (a * 2 ^ k) (2 ^ (fl_shift a + k)) = round_half_even a (2 ^ t)"
    using round_half_even_scale [of "2 ^ k" a "2 ^ t"] assms(3) by (simp add: power_add)
  with c show "fl_mag (fl_round neg (a * 2 ^ k) 1) = round_half_even a (2 ^ t) * 2 ^ t * 2 ^ k"
    unfolding fl_shift_scale [OF assms(1)] using assms(3) by (simp add: power_add mult_ac)
  from c show "isfinite (fl_round neg (a * 2 ^ k) 1)" and "fl_neg (fl_round neg (a * 2 ^ k) 1) = neg" by blast+
qed

end
