(* ===== verification/Storage.thy ===== *)
theory Storage
  imports Vertex Py_Float Crypto_Util
begin

text \<open>
  The storage of vertices and their metadata, as the rest of the node sees it
  (\<^verbatim>\<open>hathor/transaction/storage/transaction_storage.py\<close> and
  \<^verbatim>\<open>hathor/transaction/transaction_metadata.py\<close>). Every vertex is in memory at most once: the
  storage hands out the same object while it is alive, so a change of its metadata is seen by
  all and the storage is one map from hashes to vertices and one to their metadata.
  The indices, kept in interval trees, answer through a function of the environment.
\<close>

subsection \<open>Metadata\<close>

text \<open>
  \<^verbatim>\<open>conflict_with\<close> and \<^verbatim>\<open>voided_by\<close> are \<^verbatim>\<open>None\<close> in place of empty; the code only asks whether
  they are empty, so \<^verbatim>\<open>None\<close> is the empty list and the empty set. \<^verbatim>\<open>spent_outputs\<close> is a
  dictionary whose missing entries read as the empty list.
\<close>

record tx_meta =
  meta_hash :: "bytes option"
  spent_outputs :: "(int \<times> bytes list) list"
  conflict_with :: "bytes list"
  voided_by :: "bytes set"
  received_by :: "int list"
  children :: "bytes list"
  twins :: "bytes list"
  accumulated_weight :: float64
  score :: float64
  first_block :: "bytes option"
  meta_height :: int

definition new_meta :: "bytes option \<Rightarrow> float64 \<Rightarrow> int \<Rightarrow> tx_meta" where
  "new_meta h w ht = \<lparr>meta_hash = h, spent_outputs = [], conflict_with = [], voided_by = {}, received_by = [],
     children = [], twins = [], accumulated_weight = w, score = 0, first_block = None, meta_height = ht\<rparr>"

definition spent_by :: "tx_meta \<Rightarrow> int \<Rightarrow> bytes list" where
  "spent_by m index = (case map_of (spent_outputs m) index of None \<Rightarrow> [] | Some hs \<Rightarrow> hs)"

subsection \<open>The storage\<close>

record storage =
  st_txs :: "bytes \<Rightarrow> vertex option"
  st_meta :: "bytes \<Rightarrow> tx_meta"
  st_best_tips :: "bytes list option"

text \<open>
  What the node is run with: the cryptographic library, the settings of the network, the
  C library, the hashes of the three genesis vertices, \<^verbatim>\<open>str.upper\<close>, and the answers of the
  index of block tips.
\<close>

record node_env =
  env_crypto :: crypto
  env_net :: net_settings
  env_libm :: libm
  env_genesis :: "bytes list"
  env_upper :: "pystr \<Rightarrow> pystr"
  env_block_tips :: "int option \<Rightarrow> bytes list"

definition get_transaction :: "storage \<Rightarrow> bytes \<Rightarrow> vertex result" where
  "get_transaction st h = of_option (HathorE TransactionDoesNotExist) (st_txs st h)"

definition transaction_exists :: "storage \<Rightarrow> bytes \<Rightarrow> bool" where
  "transaction_exists st h \<longleftrightarrow> st_txs st h \<noteq> None"

definition get_metadata :: "storage \<Rightarrow> bytes \<Rightarrow> tx_meta option" where
  "get_metadata st h = (if transaction_exists st h then Some (st_meta st h) else None)"

definition is_genesis_hash :: "node_env \<Rightarrow> bytes \<Rightarrow> bool" where
  "is_genesis_hash env h \<longleftrightarrow> h \<in> set (env_genesis env)"

definition is_genesis :: "node_env \<Rightarrow> vertex \<Rightarrow> bool" where
  "is_genesis env v \<longleftrightarrow> (case tx_hash (vertex_base v) of None \<Rightarrow> False | Some h \<Rightarrow> is_genesis_hash env h)"

text \<open>The hash of a vertex that the code has asserted to be there.\<close>

definition the_hash :: "vertex \<Rightarrow> bytes result" where
  "the_hash v = of_option (PyE AssertionError) (tx_hash (vertex_base v))"

abbreviation vtimestamp :: "vertex \<Rightarrow> int" where
  "vtimestamp v \<equiv> timestamp (vertex_base v)"

subsection \<open>The heads of the best chains\<close>

definition SCORE_TOL :: float64 where
  "SCORE_TOL = 0x3DDB7CDFD9D7BDBB"

definition best_tips_step :: "storage \<Rightarrow> float64 \<times> bytes list \<Rightarrow> bytes \<Rightarrow> (float64 \<times> bytes list) result" where
  "best_tips_step st = (\<lambda>(best_score, best) h.
     bindE (of_option (PyE AssertionError) (get_metadata st h)) (\<lambda>m.
     if voided_by m \<noteq> {} \<and> voided_by m \<noteq> {h} then Inr (best_score, best)
     else if fl_less (fl_abs (fl_sub (score m) best_score)) SCORE_TOL then Inr (best_score, best @ [h])
     else if fl_less best_score (score m) then Inr (score m, [h])
     else Inr (best_score, best)))"

definition get_best_block_tips :: "node_env \<Rightarrow> storage \<Rightarrow> int option \<Rightarrow> bytes list result" where
  "get_best_block_tips env st ts =
     (case (ts, st_best_tips st) of
        (None, Some tips) \<Rightarrow> Inr tips
      | _ \<Rightarrow> bindE (foldE (best_tips_step st) (0, []) (env_block_tips env ts)) (\<lambda>(_, best). Inr best))"

definition get_height_best_block :: "node_env \<Rightarrow> storage \<Rightarrow> int result" where
  "get_height_best_block env st =
     bindE (get_best_block_tips env st None) (\<lambda>tips.
     bindE (mapE (get_transaction st) tips) (\<lambda>_.
     Inr (foldl (\<lambda>highest h. if meta_height (st_meta st h) > highest then meta_height (st_meta st h) else highest)
       0 tips)))"

definition get_weight_best_block :: "node_env \<Rightarrow> storage \<Rightarrow> float64 result" where
  "get_weight_best_block env st =
     bindE (get_best_block_tips env st None) (\<lambda>tips.
     bindE (mapE (get_transaction st) tips) (\<lambda>heads.
     Inr (foldl (\<lambda>highest v. if fl_less highest (weight (vertex_base v)) then weight (vertex_base v) else highest)
       0 heads)))"

subsection \<open>Blocks and their parents\<close>

definition get_block_parent_hash :: "vertex \<Rightarrow> bytes result" where
  "get_block_parent_hash v = py_nth (parents (vertex_base v)) 0"

definition get_block_parent :: "storage \<Rightarrow> vertex \<Rightarrow> vertex result" where
  "get_block_parent st v =
     bindE (get_block_parent_hash v) (\<lambda>h.
     bindE (get_transaction st h) (\<lambda>p.
     bindE (guardE (is_block p) (PyE AssertionError)) (\<lambda>_. Inr p)))"

definition calculate_height :: "node_env \<Rightarrow> storage \<Rightarrow> vertex \<Rightarrow> int result" where
  "calculate_height env st v =
     (if is_block v then
        if is_genesis env v then Inr 0
        else bindE (get_block_parent st v) (\<lambda>_.
             bindE (get_block_parent_hash v) (\<lambda>h. Inr (meta_height (st_meta st h) + 1)))
      else Inr 0)"

end
