(* ===== verification/Token_Deposit.thy ===== *)
theory Token_Deposit
  imports Py_Float
begin

text \<open>
  The deposit in HTR for minted tokens and the withdrawal for melted ones, of
  \<^verbatim>\<open>hathor/transaction/util.py\<close>. Both multiply the amount by the double nearest to one
  hundredth. The result is the exact percentage, rounded up or down, for amounts of up to 53
  bits; above, the product itself is rounded and deposits can be too small.
\<close>

definition TOKEN_DEPOSIT_PERCENTAGE :: float64 where
  "TOKEN_DEPOSIT_PERCENTAGE = 0x3F847AE147AE147B"

definition get_deposit_amount :: "int \<Rightarrow> int result" where
  "get_deposit_amount mint_amount =
     bindE (fl_of_int mint_amount) (\<lambda>x. fl_ceil (fl_abs (fl_mul TOKEN_DEPOSIT_PERCENTAGE x)))"

definition get_withdraw_amount :: "int \<Rightarrow> int result" where
  "get_withdraw_amount melt_amount =
     bindE (fl_of_int melt_amount) (\<lambda>x. fl_floor (fl_abs (fl_mul TOKEN_DEPOSIT_PERCENTAGE x)))"

subsection \<open>The rounded product\<close>

text \<open>The mantissa of the percentage, and the unit in which the double is an integer.\<close>

abbreviation pct :: int where
  "pct \<equiv> 5764607523034235"

lemma percentage_fields:
  shows "isfinite TOKEN_DEPOSIT_PERCENTAGE" and "fl_neg TOKEN_DEPOSIT_PERCENTAGE = False"
    and "fl_mag TOKEN_DEPOSIT_PERCENTAGE = pct * 2 ^ 1015"
proof -
  have e: "fl_exp TOKEN_DEPOSIT_PERCENTAGE = 1016" and f: "2 ^ 52 + fl_frac TOKEN_DEPOSIT_PERCENTAGE = pct"
    by (simp_all add: fl_exp_def fl_frac_def TOKEN_DEPOSIT_PERCENTAGE_def)
  show "isfinite TOKEN_DEPOSIT_PERCENTAGE" by (simp add: isfinite_def e)
  show "fl_neg TOKEN_DEPOSIT_PERCENTAGE = False" by (simp add: fl_neg_def TOKEN_DEPOSIT_PERCENTAGE_def)
  have "nat (1016 - 1 :: int) = 1015" by simp
  then show "fl_mag TOKEN_DEPOSIT_PERCENTAGE = pct * 2 ^ 1015" unfolding fl_mag_def e f by simp
qed

lemma twice_abs_le_iff: "2 * \<bar>x :: int\<bar> \<le> s \<longleftrightarrow> 2 * x \<le> s \<and> - (2 * x) \<le> s"
  by (auto simp: abs_if)

lemma hundredth_rounded:
  fixes R S V k r :: int
  assumes "0 < V" and "0 < S" and "S \<le> 2 ^ 53 * V" and "S dvd 2 ^ 59 * V" and "S dvd R"
    and close: "2 * \<bar>R - pct * (100 * k + r) * V\<bar> \<le> S" and top: "pct * (100 * k + r) * V < 2 ^ 53 * S"
    and "0 \<le> k" and "0 \<le> r" and "r < 100" and m: "100 * k + r \<le> 2 ^ 53"
  shows "r = 0 \<Longrightarrow> R = k * (2 ^ 59 * V)"
    and "0 < r \<Longrightarrow> k * (2 ^ 59 * V) < R \<and> R < (k + 1) * (2 ^ 59 * V)"
proof -
  define a where "a = k * V"
  define b where "b = r * V"
  have P: "pct * (100 * k + r) * V = (2 ^ 59 + 12) * a + pct * b" by (simp add: a_def b_def algebra_simps)
  have kU: "k * (2 ^ 59 * V) = 2 ^ 59 * a" and kU1: "(k + 1) * (2 ^ 59 * V) = 2 ^ 59 * a + 2 ^ 59 * V"
    by (simp_all add: a_def algebra_simps)
  have cl: "2 * (R - ((2 ^ 59 + 12) * a + pct * b)) \<le> S" "2 * ((2 ^ 59 + 12) * a + pct * b - R) \<le> S"
    using close unfolding P twice_abs_le_iff by simp_all
  have a0: "0 \<le> a" using assms(1,8) by (simp add: a_def)
  show "R = k * (2 ^ 59 * V)" if "r = 0"
  proof -
    have "b = 0" using that by (simp add: b_def)
    then have "64 * a < S" using top a0 unfolding P by simp
    then have "\<bar>R - k * (2 ^ 59 * V)\<bar> < S" using cl a0 \<open>b = 0\<close> unfolding kU abs_less_iff by simp
    moreover have "S dvd R - k * (2 ^ 59 * V)" using assms(4,5) by (meson dvd_diff dvd_mult)
    ultimately show ?thesis
      using zdvd_not_zless [of "\<bar>R - k * (2 ^ 59 * V)\<bar>" S] by (metis dvd_abs_iff right_minus_eq zero_less_abs_iff)
  qed
  show "k * (2 ^ 59 * V) < R \<and> R < (k + 1) * (2 ^ 59 * V)" if "0 < r"
  proof -
    have "V \<le> b" using mult_right_mono [of 1 r V] that assms(1) by (simp add: b_def)
    moreover have "b \<le> 99 * V" using mult_right_mono [of r 99 V] assms(1,10) by (simp add: b_def)
    moreover have "100 * a + b \<le> 2 ^ 53 * V"
      using mult_right_mono [OF m, of V] assms(1) by (simp add: a_def b_def algebra_simps)
    ultimately show ?thesis using cl assms(1,3) a0 unfolding kU kU1 by simp
  qed
qed

lemma product_shift:
  assumes "0 \<le> m" and "m \<le> 2 ^ 53" and "P = pct * m * 2 ^ 1015"
  shows "0 \<le> P" and "P < 2 ^ 1121" and "fl_shift P \<le> 1068"
proof -
  show "0 \<le> P" using assms(1) unfolding assms(3) by (intro mult_nonneg_nonneg) simp_all
  have "pct * m \<le> pct * 2 ^ 53" using assms(2) by simp
  also have "\<dots> < (2 :: int) ^ 106" by simp
  finally have "P < 2 ^ 106 * 2 ^ 1015" unfolding assms(3) by (rule mult_strict_right_mono) simp
  also have "\<dots> = (2 :: int) ^ 1121" by (simp only: flip: power_add) simp
  finally show P: "P < 2 ^ 1121" .
  show "fl_shift P \<le> 1068"
  proof (cases "fl_shift P = 0")
    case False
    from fl_shift_lower [OF this] P have "(2 :: int) ^ (fl_shift P + 52) < 2 ^ 1121" by (rule le_less_trans)
    then have "fl_shift P + 52 < 1121" by (rule power_less_imp_less_exp [rotated]) simp
    then show ?thesis by simp
  qed simp
qed

lemma fl_mul_percentage:
  assumes "isfinite w" and "fl_mag w = m * fl_one"
  shows "fl_mul TOKEN_DEPOSIT_PERCENTAGE w = fl_round (fl_neg w) (pct * m * 2 ^ 1015) 1"
proof -
  have "fl_mul TOKEN_DEPOSIT_PERCENTAGE w = fl_round (fl_neg w) (pct * m * 2 ^ 1015 * fl_one) fl_one"
    using isfinite_cases [OF assms(1)] isfinite_cases [OF percentage_fields(1)] assms(2) percentage_fields(2,3)
    by (simp add: fl_mul_def mult_ac del: power_numeral)
  then show ?thesis by (simp add: fl_round_cancel del: power_numeral)
qed

lemma fl_ceil_abs: "isfinite x \<Longrightarrow> fl_ceil (fl_abs x) = Inr (- (- fl_mag x div fl_one))"
  and fl_floor_abs: "isfinite x \<Longrightarrow> fl_floor (fl_abs x) = Inr (fl_mag x div fl_one)"
  by (simp_all add: fl_ceil_def fl_floor_def fl_integral_def isfinite_cases fl_abs_fields fl_scaled_abs)

lemma div_strictly_between:
  fixes d :: int
  assumes "k * d < x" and "x < (k + 1) * d"
  shows "x div d = k" and "- (- x div d) = k + 1"
proof -
  show "x div d = k"
    by (rule int_div_pos_eq [of _ _ _ "x - k * d"]) (use assms in \<open>simp_all add: algebra_simps\<close>)
  have "- x div d = - (k + 1)"
    by (rule int_div_pos_eq [of _ _ _ "(k + 1) * d - x"]) (use assms in \<open>simp_all add: algebra_simps\<close>)
  then show "- (- x div d) = k + 1" by simp
qed

lemma rounded_hundredth:
  assumes "\<bar>i\<bar> \<le> 2 ^ 53" and "R = fl_mag (fl_round neg (pct * \<bar>i\<bar> * 2 ^ 1015) 1)"
  shows "R div fl_one = \<bar>i\<bar> div 100" and "- (- R div fl_one) = - (- \<bar>i\<bar> div 100)"
proof -
  define k where "k = \<bar>i\<bar> div 100"
  define r where "r = \<bar>i\<bar> mod 100"
  have i: "\<bar>i\<bar> = 100 * k + r" and r: "0 \<le> r" "r < 100" and "0 \<le> k" by (simp_all add: k_def r_def)
  let ?P = "pct * \<bar>i\<bar> * 2 ^ 1015" and ?s = "fl_shift (pct * \<bar>i\<bar> * 2 ^ 1015)"
  note ps = product_shift [OF abs_ge_zero assms(1) refl]
  have "(2 :: int) ^ 1121 < 2 ^ 2000" by (rule power_strict_increasing) simp_all
  then have "?P < 2 ^ 2000" using ps(2) by (rule less_trans [rotated])
  note c = fl_round_close_1(1,4) [OF ps(1) this refl refl]
  have R: "2 ^ ?s dvd R" "2 * \<bar>R - ?P\<bar> \<le> 2 ^ ?s" unfolding assms(2) c(1) by (simp_all only: dvd_triv_right c(2))
  have U: "2 ^ 59 * 2 ^ 1015 = fl_one" by (simp only: fl_one_def flip: power_add) simp
  have "(2 :: int) ^ ?s \<le> 2 ^ (53 + 1015)" using ps(3) by (intro power_increasing) simp_all
  then have S: "2 ^ ?s \<le> 2 ^ 53 * (2 :: int) ^ 1015" by (simp only: power_add)
  have "(2 :: int) ^ ?s dvd 2 ^ 59 * 2 ^ 1015" using ps(3) unfolding U fl_one_def by (intro le_imp_power_dvd) simp
  moreover have "?P < 2 ^ 53 * 2 ^ ?s" using fl_shift_upper [OF ps(1)] by (simp only: power_add mult.commute)
  ultimately have exact: "r = 0 \<Longrightarrow> R = k * fl_one" and between: "0 < r \<Longrightarrow> k * fl_one < R \<and> R < (k + 1) * fl_one"
    using hundredth_rounded [of "2 ^ 1015" "2 ^ ?s" R k r, OF _ _ S] R i r \<open>0 \<le> k\<close> assms(1) zero_less_power zero_less_numeral
    unfolding U by metis+
  have "R div fl_one = k \<and> - (- R div fl_one) = - (- \<bar>i\<bar> div 100)"
  proof (cases "r = 0")
    case True
    have "- (x * d) div d = - x" if "d \<noteq> 0" for x d :: int using that by (simp flip: mult_minus_left)
    from this [of fl_one k] this [of 100 k] show ?thesis using True exact i by (simp add: mult.commute)
  next
    case False
    then show ?thesis
      using div_strictly_between [of k fl_one R] div_strictly_between(2) [of k 100 "\<bar>i\<bar>"] between i r by simp
  qed
  then show "R div fl_one = \<bar>i\<bar> div 100" and "- (- R div fl_one) = - (- \<bar>i\<bar> div 100)"
    unfolding k_def by blast+
qed

lemma amounts_up_to_53_bits:
  assumes "\<bar>amount\<bar> \<le> 2 ^ 53"
  shows "get_deposit_amount amount = Inr (- (- \<bar>amount\<bar> div 100))"
    and "get_withdraw_amount amount = Inr (\<bar>amount\<bar> div 100)"
proof -
  obtain w where w: "fl_of_int amount = Inr w" "isfinite w" "fl_mag w = \<bar>amount\<bar> * fl_one"
    using fl_of_int_exact [OF assms] by blast
  let ?x = "fl_round (fl_neg w) (pct * \<bar>amount\<bar> * 2 ^ 1015) 1"
  note ps = product_shift [OF abs_ge_zero assms refl]
  have "(2 :: int) ^ 1121 < 2 ^ 2000" by (rule power_strict_increasing) simp_all
  then have "pct * \<bar>amount\<bar> * 2 ^ 1015 < 2 ^ 2000" using ps(2) by (rule less_trans [rotated])
  then have fin: "isfinite ?x" using fl_round_close_1(2) [OF ps(1) _ refl refl] by blast
  show "get_deposit_amount amount = Inr (- (- \<bar>amount\<bar> div 100))"
    unfolding get_deposit_amount_def w(1) bindE_Inr fl_mul_percentage [OF w(2,3)] fl_ceil_abs [OF fin]
      rounded_hundredth(2) [OF assms refl] ..
  show "get_withdraw_amount amount = Inr (\<bar>amount\<bar> div 100)"
    unfolding get_withdraw_amount_def w(1) bindE_Inr fl_mul_percentage [OF w(2,3)] fl_floor_abs [OF fin]
      rounded_hundredth(1) [OF assms refl] ..
qed

text \<open>
  C19: for amounts of up to 53 bits the deposit is one hundredth of the minted amount rounded
  up, and the withdrawal one hundredth of the melted amount rounded down, whatever the sign:
  the product with the inexact constant \<^verbatim>\<open>0.01\<close> never falls on the wrong side of an integer.
\<close>

theorem deposit_exact:
  assumes "\<bar>amount\<bar> \<le> 2 ^ 53"
  shows "get_deposit_amount amount = Inr (- (- \<bar>amount\<bar> div 100)) \<and>
    get_withdraw_amount amount = Inr (\<bar>amount\<bar> div 100)"
  using amounts_up_to_53_bits [OF assms] by blast

theorem deposit_exact_witness:
  "get_deposit_amount 12345 = Inr 124 \<and> get_withdraw_amount (- 12345) = Inr 123"
  using deposit_exact [of 12345] deposit_exact [of "- 12345"] by simp

subsection \<open>Above 53 bits\<close>

lemma fl_of_int_large:
  assumes "2 ^ 53 \<le> i" and "i < 2 ^ 64" and "t = fl_shift i"
  obtains w where "fl_of_int i = Inr w" and "isfinite w" and "fl_mag w = round_half_even i (2 ^ t) * 2 ^ t * fl_one"
proof -
  have "i * 2 ^ 1074 < 2 ^ 64 * 2 ^ 1074" using assms(2) by (rule mult_strict_right_mono) simp
  also have "\<dots> = (2 :: int) ^ 1138" by (simp only: flip: power_add) simp
  also have "\<dots> < 2 ^ 2000" by (rule power_strict_increasing) simp_all
  finally have small: "i * 2 ^ 1074 < 2 ^ 2000" .
  note c = fl_round_scaled [OF assms(1) small assms(3), folded fl_one_def]
  have "fl_of_int i = Inr (fl_round False (i * fl_one) 1)"
    using assms(1) isfinite_cases [OF c(2) [of False]] by (simp add: fl_of_int_def)
  then show ?thesis using c(1,2) that by blast
qed

lemma deposit_large:
  assumes "2 ^ 53 \<le> i" and "i < 2 ^ 64" and "j = round_half_even i (2 ^ fl_shift i) * 2 ^ fl_shift i"
    and "2 ^ 53 \<le> j" and "j < 2 ^ 65" and "t = fl_shift (pct * j)"
  shows "get_deposit_amount i = Inr (- (- (round_half_even (pct * j) (2 ^ t) * 2 ^ t) div 2 ^ 59))"
proof -
  obtain w where w: "fl_of_int i = Inr w" "isfinite w" "fl_mag w = j * fl_one"
    using fl_of_int_large [OF assms(1,2) refl] assms(3) by metis
  have "pct * j \<le> pct * 2 ^ 65" using assms(5) by simp
  also have "\<dots> < (2 :: int) ^ 118" by simp
  finally have "pct * j * 2 ^ 1015 < 2 ^ 118 * 2 ^ 1015" by (rule mult_strict_right_mono) simp
  also have "\<dots> = (2 :: int) ^ 1133" by (simp only: flip: power_add) simp
  also have "\<dots> < 2 ^ 2000" by (rule power_strict_increasing) simp_all
  finally have small: "pct * j * 2 ^ 1015 < 2 ^ 2000" .
  have "2 ^ 53 \<le> pct * j" using assms(4) by simp
  note c = fl_round_scaled [OF this small assms(6)]
  have U: "fl_one = 2 ^ 59 * 2 ^ 1015" by (simp only: fl_one_def flip: power_add) simp
  have "- (x * 2 ^ 1015) div fl_one = - x div 2 ^ 59" for x :: int
    unfolding U minus_mult_left by (rule div_mult_mult2) simp
  then show ?thesis
    unfolding get_deposit_amount_def w(1) bindE_Inr fl_mul_percentage [OF w(2,3)] fl_ceil_abs [OF c(2)] c(1) by simp
qed

text \<open>
  Tokens can be minted for less than what melting them pays back. The deposit for
  7921162653159500000 tokens is 79211626531594992, while melting them in a thousand equal
  parts withdraws 79211626531595000, eight units more than were deposited.
\<close>

theorem deposit_inflation:
  "\<exists>part D W. get_deposit_amount (1000 * part) = Inr D \<and> get_withdraw_amount part = Inr W \<and> D + 8 = 1000 * W"
proof (intro exI conjI)
  let ?a = "7921162653159500 :: int"
  have "fl_shift (1000 * ?a) = 10" by (rule fl_shift_unique) simp_all
  then have j: "7921162653159499776 =
      round_half_even (1000 * ?a) (2 ^ fl_shift (1000 * ?a)) * 2 ^ fl_shift (1000 * ?a)"
    by (simp add: round_half_even_def)
  have t: "63 = fl_shift (pct * 7921162653159499776)" by (rule fl_shift_unique [symmetric]) simp_all
  show "get_deposit_amount (1000 * ?a) = Inr 79211626531594992"
    using deposit_large [OF _ _ j _ _ t] by (simp add: round_half_even_def)
  show "get_withdraw_amount ?a = Inr 79211626531595"
    using amounts_up_to_53_bits(2) [of ?a] by simp
qed simp

end
