(* ===== verification/Verification.thy ===== *)
theory Verification
  imports Storage Token_Deposit Script_Eval
begin

text \<open>
  The verification of vertices: the \<^verbatim>\<open>verify\<close> methods of \<^verbatim>\<open>base_transaction.py\<close>,
  \<^verbatim>\<open>transaction.py\<close>, \<^verbatim>\<open>token_creation_tx.py\<close>, \<^verbatim>\<open>block.py\<close> and \<^verbatim>\<open>merge_mined_block.py\<close>. Each check
  is one function into results; those that evaluate scripts return \<open>None\<close> when the evaluation
  does not end. Each is characterised by the exact condition under which it accepts.
\<close>

subsection \<open>Settings\<close>

definition MAX_NUM_INPUTS :: nat where "MAX_NUM_INPUTS = 255"
definition MAX_NUM_OUTPUTS :: nat where "MAX_NUM_OUTPUTS = 255"
definition MAX_DISTANCE_BETWEEN_BLOCKS :: int where "MAX_DISTANCE_BETWEEN_BLOCKS = 150 * 30"
definition REWARD_SPEND_MIN_BLOCKS :: int where "REWARD_SPEND_MIN_BLOCKS = 300"
definition BLOCK_DATA_MAX_SIZE :: nat where "BLOCK_DATA_MAX_SIZE = 100"
definition MAX_LENGTH_TOKEN_NAME :: nat where "MAX_LENGTH_TOKEN_NAME = 30"
definition MAX_LENGTH_TOKEN_SYMBOL :: nat where "MAX_LENGTH_TOKEN_SYMBOL = 5"
definition HATHOR_TOKEN_NAME :: pystr where "HATHOR_TOKEN_NAME = pystr_of ''Hathor''"
definition HATHOR_TOKEN_SYMBOL :: pystr where "HATHOR_TOKEN_SYMBOL = pystr_of ''HTR''"

subsection \<open>Proof-of-work\<close>

definition get_target :: "libm \<Rightarrow> vertex \<Rightarrow> int result" where
  "get_target lm v =
     (let w = weight (vertex_base v) in
      bindE (guardE (isfinite w) (TxE WeightError)) (\<lambda>_.
      bindE (pow2 lm (fl_sub 0x4070000000000000 w)) (\<lambda>p.
      fl_trunc (fl_sub p 0x3FF0000000000000))))"

text \<open>\<^verbatim>\<open>int(self.hash_hex, 16)\<close>, which does not read the empty string.\<close>

definition numeric_hash :: "bytes \<Rightarrow> int result" where
  "numeric_hash h = bindE (guardE (h \<noteq> []) (PyE ValueError)) (\<lambda>_. Inr (int (from_be h)))"

definition verify_pow :: "libm \<Rightarrow> vertex \<Rightarrow> unit result" where
  "verify_pow lm v =
     bindE (the_hash v) (\<lambda>h.
     bindE (numeric_hash h) (\<lambda>n.
     bindE (get_target lm v) (\<lambda>minimum_target.
     guardE (n < minimum_target) (TxE PowError))))"

subsection \<open>Parents\<close>

text \<open>The state of the loop: the numbers of parents that are transactions and blocks, and \<^verbatim>\<open>min_timestamp\<close>.\<close>

type_synonym parents_state = "nat \<times> nat \<times> int option"

text \<open>
  The loop over the parents of a parent block reads \<^verbatim>\<open>get_transaction(parent_hash)\<close> and not
  \<^verbatim>\<open>get_transaction(pi_hash)\<close>, and so looks at the block itself every time.
\<close>

definition grandparents_step :: "storage \<Rightarrow> bytes \<Rightarrow> int option \<Rightarrow> bytes \<Rightarrow> int option result" where
  "grandparents_step st parent_hash min_timestamp pi_hash =
     bindE (get_transaction st parent_hash) (\<lambda>pi.
     Inr (if \<not> is_block pi then
            Some (case min_timestamp of None \<Rightarrow> vtimestamp pi | Some t \<Rightarrow> min t (vtimestamp pi))
          else min_timestamp))"

definition parents_step :: "node_env \<Rightarrow> storage \<Rightarrow> vertex \<Rightarrow> parents_state \<Rightarrow> bytes \<Rightarrow> parents_state result" where
  "parents_step env st v = (\<lambda>(txs, blocks, min_timestamp) parent_hash.
     bindE (get_transaction st parent_hash) (\<lambda>parent.
     bindE (the_hash parent) (\<lambda>_.
     bindE (guardE (vtimestamp parent < vtimestamp v) (TxE TimestampError)) (\<lambda>_.
     if is_block parent then
       bindE (guardE (is_block v \<and> \<not> is_genesis env parent \<longrightarrow>
                vtimestamp v - vtimestamp parent \<le> MAX_DISTANCE_BETWEEN_BLOCKS) (TxE TimestampError)) (\<lambda>_.
       bindE (guardE (txs = 0) (TxE IncorrectParents)) (\<lambda>_.
       bindE (foldE (grandparents_step st parent_hash) min_timestamp (parents (vertex_base parent))) (\<lambda>min_timestamp.
       Inr (txs, Suc blocks, min_timestamp))))
     else
       bindE (guardE (\<not> (case min_timestamp of None \<Rightarrow> False | Some t \<Rightarrow> t \<noteq> 0 \<and> vtimestamp parent < t))
                (TxE TimestampError)) (\<lambda>_.
       Inr (Suc txs, blocks, min_timestamp))))))"

definition parent_does_not_exist :: "exn \<Rightarrow> exn" where
  "parent_does_not_exist e = (if e = HathorE TransactionDoesNotExist then TxE ParentDoesNotExist else e)"

definition verify_parents :: "node_env \<Rightarrow> storage \<Rightarrow> vertex \<Rightarrow> unit result" where
  "verify_parents env st v =
     (let ps = parents (vertex_base v) in
      bindE (the_hash v) (\<lambda>_.
      bindE (guardE (length ps \<le> card (set ps)) (TxE DuplicatedParents)) (\<lambda>_.
      bindE (catchE (foldE (parents_step env st v) (0, 0, None) ps) (\<lambda>e. Inl (parent_does_not_exist e)))
        (\<lambda>(txs, blocks, _).
      bindE (guardE (blocks = (if is_block v then 1 else 0)) (TxE IncorrectParents)) (\<lambda>_.
      guardE (txs = 2) (TxE IncorrectParents))))))"

subsection \<open>Numbers of inputs and outputs\<close>

definition verify_number_of_inputs :: "node_env \<Rightarrow> vertex \<Rightarrow> unit result" where
  "verify_number_of_inputs env v =
     bindE (guardE (length (inputs (vertex_base v)) \<le> MAX_NUM_INPUTS) (TxE TooManyInputs)) (\<lambda>_.
     guardE (inputs (vertex_base v) \<noteq> [] \<or> is_genesis env v) (TxE NoInputError))"

definition verify_number_of_outputs :: "vertex \<Rightarrow> unit result" where
  "verify_number_of_outputs v =
     guardE (length (outputs (vertex_base v)) \<le> MAX_NUM_OUTPUTS) (TxE TooManyOutputs)"

fun vertex_tokens :: "vertex \<Rightarrow> bytes list" where
  "vertex_tokens (VTransaction t) = tokens t"
| "vertex_tokens (VTokenCreation t) = tokens t"
| "vertex_tokens _ = []"

definition verify_output :: "vertex \<Rightarrow> txoutput \<Rightarrow> unit result" where
  "verify_output v out =
     bindE (guardE (get_token_index out \<le> int (length (vertex_tokens v))) (TxE InvalidToken)) (\<lambda>_.
     bindE (guardE (\<not> (get_token_index out = 0 \<and> is_token_authority out)) (TxE InvalidToken)) (\<lambda>_.
     guardE (0 < to_value out) (TxE InvalidOutputValue)))"

definition tx_verify_outputs :: "vertex \<Rightarrow> unit result" where
  "tx_verify_outputs v = forE (verify_output v) (outputs (vertex_base v))"

definition tx_verify_without_storage :: "node_env \<Rightarrow> vertex \<Rightarrow> unit result" where
  "tx_verify_without_storage env v =
     bindE (verify_pow (env_libm env) v) (\<lambda>_.
     bindE (verify_number_of_inputs env v) (\<lambda>_.
     bindE (verify_number_of_outputs v) (\<lambda>_.
     tx_verify_outputs v)))"

subsection \<open>Sums of tokens\<close>

record token_info =
  amount :: int
  can_mint :: bool
  can_melt :: bool

type_synonym token_dict = "(bytes \<times> token_info) list"

fun vertex_get_token_uid :: "vertex \<Rightarrow> int \<Rightarrow> bytes result" where
  "vertex_get_token_uid (VTransaction t) index = tx_get_token_uid t index"
| "vertex_get_token_uid (VTokenCreation t) index = tx_get_token_uid t index"
| "vertex_get_token_uid _ index = blk_get_token_uid index"

text \<open>The output that an input spends, with the token it is of.\<close>

definition spent_output :: "storage \<Rightarrow> txinput \<Rightarrow> (bytes \<times> txoutput) result" where
  "spent_output st i =
     bindE (get_transaction st (ti_tx_id i)) (\<lambda>spent_tx.
     bindE (py_nth (outputs (vertex_base spent_tx)) (ti_index i)) (\<lambda>out.
     bindE (vertex_get_token_uid spent_tx (get_token_index out)) (\<lambda>uid.
     Inr (uid, out))))"

definition token_info_add_input :: "token_dict \<Rightarrow> bytes \<times> txoutput \<Rightarrow> token_dict" where
  "token_info_add_input d = (\<lambda>(uid, out).
     let info = (case map_of d uid of None \<Rightarrow> \<lparr>amount = 0, can_mint = False, can_melt = False\<rparr> | Some i \<Rightarrow> i) in
     dict_set d uid
       (if is_token_authority out then
          info\<lparr>can_mint := can_mint info \<or> can_mint_token out, can_melt := can_melt info \<or> can_melt_token out\<rparr>
        else info\<lparr>amount := amount info - to_value out\<rparr>))"

definition get_token_info_from_inputs :: "storage \<Rightarrow> vertex \<Rightarrow> token_dict result" where
  "get_token_info_from_inputs st v =
     foldE (\<lambda>d i. bindE (spent_output st i) (\<lambda>so. Inr (token_info_add_input d so)))
       [(HATHOR_TOKEN_UID, \<lparr>amount = 0, can_mint = False, can_melt = False\<rparr>)] (inputs (vertex_base v))"

definition token_info_add_output :: "token_dict \<Rightarrow> bytes \<Rightarrow> txoutput \<Rightarrow> token_dict result" where
  "token_info_add_output d uid out =
     (case map_of d uid of
        None \<Rightarrow> Inl (TxE InvalidToken)
      | Some info \<Rightarrow>
          bindE (guardE (can_mint_token out \<longrightarrow> can_mint info) (TxE InvalidToken)) (\<lambda>_.
          bindE (guardE (can_melt_token out \<longrightarrow> can_melt info) (TxE InvalidToken)) (\<lambda>_.
          if is_token_authority out then
            bindE (guardE (to_value out \<le> ALL_AUTHORITIES) (TxE InvalidToken)) (\<lambda>_. Inr d)
          else Inr (dict_set d uid (info\<lparr>amount := amount info + to_value out\<rparr>)))))"

definition update_token_info_from_outputs :: "vertex \<Rightarrow> token_dict \<Rightarrow> token_dict result" where
  "update_token_info_from_outputs v d =
     foldE (\<lambda>d out. bindE (vertex_get_token_uid v (get_token_index out)) (\<lambda>uid. token_info_add_output d uid out))
       d (outputs (vertex_base v))"

text \<open>One iteration of \<^verbatim>\<open>check_authorities_and_deposit\<close>: \<^verbatim>\<open>withdraw - deposit\<close> goes up or down.\<close>

definition token_charge :: "token_info \<Rightarrow> int result" where
  "token_charge info =
     (if amount info = 0 then Inr 0
      else if amount info < 0 then
        bindE (guardE (can_melt info) (TxE InputOutputMismatch)) (\<lambda>_. get_withdraw_amount (amount info))
      else
        bindE (guardE (can_mint info) (TxE InputOutputMismatch)) (\<lambda>_.
        bindE (get_deposit_amount (amount info)) (\<lambda>dep. Inr (- dep))))"

definition check_authorities_and_deposit :: "token_dict \<Rightarrow> unit result" where
  "check_authorities_and_deposit d =
     bindE (foldE (\<lambda>acc (uid, info).
              if uid = HATHOR_TOKEN_UID then Inr acc
              else bindE (token_charge info) (\<lambda>c. Inr (acc + c))) 0 d) (\<lambda>htr_expected_amount.
     bindE (of_option (PyE KeyError) (map_of d HATHOR_TOKEN_UID)) (\<lambda>htr_info.
     guardE (amount htr_info = htr_expected_amount) (TxE InputOutputMismatch)))"

definition tx_verify_sum :: "storage \<Rightarrow> vertex \<Rightarrow> unit result" where
  "tx_verify_sum st v =
     bindE (get_token_info_from_inputs st v) (\<lambda>d.
     bindE (update_token_info_from_outputs v d) (\<lambda>d.
     check_authorities_and_deposit d))"

definition tc_verify_sum :: "storage \<Rightarrow> vertex \<Rightarrow> unit result" where
  "tc_verify_sum st v =
     bindE (get_token_info_from_inputs st v) (\<lambda>d.
     bindE (the_hash v) (\<lambda>h.
     bindE (update_token_info_from_outputs v (dict_set d h \<lparr>amount = 0, can_mint = True, can_melt = True\<rparr>)) (\<lambda>d.
     bindE (of_option (PyE KeyError) (map_of d h)) (\<lambda>info.
     bindE (guardE (0 < amount info) (TxE InvalidToken)) (\<lambda>_.
     check_authorities_and_deposit d)))))"

definition verify_token_info :: "(pystr \<Rightarrow> pystr) \<Rightarrow> 'a token_creation_tx_scheme \<Rightarrow> unit result" where
  "verify_token_info upper t =
     bindE (guardE (token_name t \<noteq> [] \<and> length (token_name t) \<le> MAX_LENGTH_TOKEN_NAME)
       (TxE TransactionDataError)) (\<lambda>_.
     bindE (guardE (token_symbol t \<noteq> [] \<and> length (token_symbol t) \<le> MAX_LENGTH_TOKEN_SYMBOL)
       (TxE TransactionDataError)) (\<lambda>_.
     bindE (guardE (clean_token_string upper (token_name t) \<noteq> clean_token_string upper HATHOR_TOKEN_NAME)
       (TxE TransactionDataError)) (\<lambda>_.
     guardE (clean_token_string upper (token_symbol t) \<noteq> clean_token_string upper HATHOR_TOKEN_SYMBOL)
       (TxE TransactionDataError))))"

subsection \<open>Inputs\<close>

text \<open>
  The height of the best block before a timestamp, and the check that a reward is old enough.
  The height is kept in an attribute of the transaction; the value 0 counts as not kept.
\<close>

definition best_height_before :: "node_env \<Rightarrow> storage \<Rightarrow> int \<Rightarrow> int result" where
  "best_height_before env st ts =
     bindE (get_best_block_tips env st (Some (ts - 1))) (\<lambda>tips.
     bindE (case tips of [] \<Rightarrow> Inl (PyE AssertionError) | h # _ \<Rightarrow> Inr h) (\<lambda>h.
     bindE (get_transaction st h) (\<lambda>tip.
     bindE (guardE (vtimestamp tip < ts) (PyE AssertionError)) (\<lambda>_.
     Inr (meta_height (st_meta st h))))))"

definition verify_spent_reward ::
  "node_env \<Rightarrow> storage \<Rightarrow> int \<Rightarrow> int option \<Rightarrow> bytes \<Rightarrow> int option result" where
  "verify_spent_reward env st ts height_cache block_hash =
     bindE (case height_cache of
              Some c \<Rightarrow> if c \<noteq> 0 then Inr c else best_height_before env st ts
            | None \<Rightarrow> best_height_before env st ts) (\<lambda>best_height.
     bindE (guardE (REWARD_SPEND_MIN_BLOCKS \<le> best_height - meta_height (st_meta st block_hash))
       (TxE RewardLocked)) (\<lambda>_.
     Inr (Some best_height)))"

definition verify_script :: "node_env \<Rightarrow> vertex \<Rightarrow> txinput \<Rightarrow> vertex \<Rightarrow> unit result option" where
  "verify_script env v i spent_tx =
     map_option (\<lambda>r. catchE r (\<lambda>e. Inl (if is_ScriptError e then TxE InvalidInputData else e)))
       (script_eval (env_crypto env) (env_net env) v i spent_tx)"

type_synonym inputs_state = "(bytes \<times> int) set \<times> int option"

definition input_step :: "node_env \<Rightarrow> storage \<Rightarrow> vertex \<Rightarrow> inputs_state \<Rightarrow> txinput \<Rightarrow> inputs_state result option" where
  "input_step env st v = (\<lambda>(spent, cache) i.
     bindR (Some (catchE
              (bindE (get_transaction st (ti_tx_id i)) (\<lambda>spent_tx.
               bindE (the_hash spent_tx) (\<lambda>h.
               bindE (guardE (ti_index i < int (length (outputs (vertex_base spent_tx)))) (TxE InexistentInput)) (\<lambda>_.
               Inr (spent_tx, h)))))
              (\<lambda>e. Inl (if e = HathorE TransactionDoesNotExist then TxE InexistentInput else e)))) (\<lambda>(spent_tx, h).
     bindR (Some (guardE (vtimestamp spent_tx < vtimestamp v) (TxE TimestampError))) (\<lambda>_.
     bindR (Some (if is_block spent_tx then verify_spent_reward env st (vtimestamp v) cache h else Inr cache)) (\<lambda>cache.
     bindR (verify_script env v i spent_tx) (\<lambda>_.
     bindR (Some (guardE ((ti_tx_id i, ti_index i) \<notin> spent) (TxE ConflictingInputs))) (\<lambda>_.
     Some (Inr (insert (ti_tx_id i, ti_index i) spent, cache))))))))"

definition verify_inputs :: "node_env \<Rightarrow> storage \<Rightarrow> int option \<Rightarrow> vertex \<Rightarrow> unit result option" where
  "verify_inputs env st height_cache v =
     bindR (foldR (input_step env st v) ({}, height_cache) (inputs (vertex_base v))) (\<lambda>_. Some (Inr ()))"

subsection \<open>Blocks\<close>

definition verify_no_inputs :: "vertex \<Rightarrow> unit result" where
  "verify_no_inputs v = guardE (inputs (vertex_base v) = []) (TxE BlockWithInputs)"

definition blk_verify_outputs :: "vertex \<Rightarrow> unit result" where
  "blk_verify_outputs v =
     bindE (verify_number_of_outputs v) (\<lambda>_.
     forE (\<lambda>out. guardE (get_token_index out \<le> 0) (TxE BlockWithTokensError)) (outputs (vertex_base v)))"

definition verify_data :: "bytes \<Rightarrow> unit result" where
  "verify_data d = guardE (length d \<le> BLOCK_DATA_MAX_SIZE) (TxE TransactionDataError)"

fun vertex_data :: "vertex \<Rightarrow> bytes" where
  "vertex_data (VBlock b) = blk_data b"
| "vertex_data (VMergeMined b) = blk_data b"
| "vertex_data _ = []"

definition blk_verify_without_storage :: "node_env \<Rightarrow> vertex \<Rightarrow> unit result" where
  "blk_verify_without_storage env v =
     bindE (case v of VMergeMined b \<Rightarrow> verify_aux_pow (sha256 (env_crypto env)) b | _ \<Rightarrow> Inr ()) (\<lambda>_.
     bindE (verify_pow (env_libm env) v) (\<lambda>_.
     bindE (verify_no_inputs v) (\<lambda>_.
     bindE (blk_verify_outputs v) (\<lambda>_.
     verify_data (vertex_data v)))))"

definition blk_verify :: "node_env \<Rightarrow> storage \<Rightarrow> vertex \<Rightarrow> unit result" where
  "blk_verify env st v =
     (if is_genesis env v then Inr ()
      else bindE (blk_verify_without_storage env v) (\<lambda>_. verify_parents env st v))"

subsection \<open>All vertices\<close>

definition tx_verify ::
  "node_env \<Rightarrow> storage \<Rightarrow> int option \<Rightarrow> (storage \<Rightarrow> vertex \<Rightarrow> unit result) \<Rightarrow> vertex \<Rightarrow> unit result option" where
  "tx_verify env st height_cache verify_sum v =
     (if is_genesis env v then Some (Inr ())
      else bindR (Some (tx_verify_without_storage env v)) (\<lambda>_.
           bindR (verify_inputs env st height_cache v) (\<lambda>_.
           bindR (Some (verify_parents env st v)) (\<lambda>_.
           Some (verify_sum st v)))))"

fun verify :: "node_env \<Rightarrow> storage \<Rightarrow> int option \<Rightarrow> vertex \<Rightarrow> unit result option" where
  "verify env st cache (VTransaction t) = tx_verify env st cache tx_verify_sum (VTransaction t)"
| "verify env st cache (VTokenCreation t) =
     bindR (tx_verify env st cache tc_verify_sum (VTokenCreation t)) (\<lambda>_.
     Some (verify_token_info (env_upper env) t))"
| "verify env st cache (VBlock b) = Some (blk_verify env st (VBlock b))"
| "verify env st cache (VMergeMined b) = Some (blk_verify env st (VMergeMined b))"

text \<open>\<^verbatim>\<open>validate_tx_error\<close> only catches the subclasses of \<^verbatim>\<open>TxValidationError\<close>; the flag says whether it was valid.\<close>

definition validate_tx_error :: "node_env \<Rightarrow> storage \<Rightarrow> int option \<Rightarrow> vertex \<Rightarrow> bool result option" where
  "validate_tx_error env st cache v =
     map_option (\<lambda>r. case r of Inr _ \<Rightarrow> Inr True | Inl (TxE _) \<Rightarrow> Inr False | Inl e \<Rightarrow> Inl e) (verify env st cache v)"

subsection \<open>Successful checks\<close>

lemma get_transaction_eq_Inr [result_iff]: "get_transaction st h = Inr v \<longleftrightarrow> st_txs st h = Some v"
  by (simp add: get_transaction_def result_iff)

lemma the_hash_eq_Inr [result_iff]: "the_hash v = Inr h \<longleftrightarrow> tx_hash (vertex_base v) = Some h"
  by (simp add: the_hash_def result_iff)

lemma catchE_raise_eq_Inr [result_iff]: "catchE m (\<lambda>e. Inl (f e)) = Inr x \<longleftrightarrow> m = Inr x"
  by (cases m) simp_all

subsection \<open>A small ledger\<close>

text \<open>A transaction that holds 500 HTR and another that spends it, for the examples of the next theories.\<close>

definition sample_funding :: transaction where
  "sample_funding = \<lparr>nonce = 0, timestamp = 100, version = 1, weight = 0, inputs = [],
     outputs = [\<lparr>to_value = 500, to_script = [OP_1], to_token_data = 0\<rparr>], parents = [], tx_hash = Some [1], tokens = []\<rparr>"

definition sample_spending :: transaction where
  "sample_spending = \<lparr>nonce = 0, timestamp = 200, version = 1, weight = 0,
     inputs = [\<lparr>ti_tx_id = [1], ti_index = 0, ti_data = []\<rparr>],
     outputs = [\<lparr>to_value = 200, to_script = [OP_1], to_token_data = 0\<rparr>,
                \<lparr>to_value = 300, to_script = [OP_1], to_token_data = 0\<rparr>],
     parents = [[1], [2]], tx_hash = Some [3], tokens = []\<rparr>"

definition sample_storage :: storage where
  "sample_storage = \<lparr>st_txs = [[1] \<mapsto> VTransaction sample_funding,
                               [2] \<mapsto> VTransaction (sample_funding\<lparr>tx_hash := Some [2]\<rparr>)],
     st_meta = (\<lambda>h. new_meta (Some h) 0 0), st_best_tips = None\<rparr>"

definition sample_env :: node_env where
  "sample_env = \<lparr>env_crypto = sample_crypto, env_net = mainnet_settings,
     env_libm = \<lparr>pow2 = (\<lambda>x. Inr 0x4020000000000000), log_2 = (\<lambda>x. Inr 0), log2_int = (\<lambda>x. Inr 0)\<rparr>, env_genesis = [],
     env_upper = (\<lambda>s. s), env_block_tips = (\<lambda>_. [])\<rparr>"

end
