(* ===== verification/Token_Sums.thy ===== *)
theory Token_Sums
  imports Verification
begin

text \<open>
  \<^verbatim>\<open>verify_sum\<close> of transactions and token creations: the loops over a dictionary of token
  informations refine a declarative balance, from which the conservation of tokens and the
  deposit of a token creation follow.
\<close>

subsection \<open>Sums: when they are accepted\<close>

text \<open>
  The declarative reading: the spent outputs and the new outputs with their tokens, the
  balance of a token, the authorities among the inputs, and what each token adds to the
  expected balance of HTR.
\<close>

abbreviation isr :: "'a + 'b \<Rightarrow> bool" where
  "isr r \<equiv> \<not> isl r"

type_synonym token_outputs = "(bytes \<times> txoutput) list"

definition own_output :: "vertex \<Rightarrow> txoutput \<Rightarrow> (bytes \<times> txoutput) result" where
  "own_output v out = bindE (vertex_get_token_uid v (get_token_index out)) (\<lambda>uid. Inr (uid, out))"

definition token_sum :: "token_outputs \<Rightarrow> bytes \<Rightarrow> int" where
  "token_sum os u = (\<Sum>(u', out) \<leftarrow> os. if u' = u \<and> \<not> is_token_authority out then to_value out else 0)"

definition has_mint :: "token_outputs \<Rightarrow> bytes \<Rightarrow> bool" where
  "has_mint os u \<longleftrightarrow> (\<exists>(u', out) \<in> set os. u' = u \<and> can_mint_token out)"

definition has_melt :: "token_outputs \<Rightarrow> bytes \<Rightarrow> bool" where
  "has_melt os u \<longleftrightarrow> (\<exists>(u', out) \<in> set os. u' = u \<and> can_melt_token out)"

definition input_info :: "token_outputs \<Rightarrow> bytes \<Rightarrow> token_info" where
  "input_info ins u = \<lparr>amount = - token_sum ins u, can_mint = has_mint ins u, can_melt = has_melt ins u\<rparr>"

text \<open>
  Given the tokens \<open>K\<close> that may appear and what is known of each before the outputs, the
  outputs are balanced if they only use those tokens and authorities, if every token whose
  amount changes may be minted or melted, and if HTR pays for it.
\<close>

definition output_ok :: "bytes set \<Rightarrow> (bytes \<Rightarrow> token_info) \<Rightarrow> bytes \<times> txoutput \<Rightarrow> bool" where
  "output_ok K info = (\<lambda>(u, out).
     u \<in> K \<and> (can_mint_token out \<longrightarrow> can_mint (info u)) \<and> (can_melt_token out \<longrightarrow> can_melt (info u)) \<and>
     (is_token_authority out \<longrightarrow> to_value out \<le> ALL_AUTHORITIES))"

definition credit :: "(bytes \<Rightarrow> token_info) \<Rightarrow> token_outputs \<Rightarrow> bytes \<Rightarrow> token_info" where
  "credit info outs u = (info u)\<lparr>amount := amount (info u) + token_sum outs u\<rparr>"

definition balanced :: "bytes set \<Rightarrow> (bytes \<Rightarrow> token_info) \<Rightarrow> token_outputs \<Rightarrow> bool" where
  "balanced K info outs \<longleftrightarrow>
     list_all (output_ok K info) outs \<and>
     (\<forall>u \<in> K - {HATHOR_TOKEN_UID}. isr (token_charge (credit info outs u))) \<and>
     amount (credit info outs HATHOR_TOKEN_UID) =
       (\<Sum>u \<in> K - {HATHOR_TOKEN_UID}. projr (token_charge (credit info outs u)))"

definition sum_ok :: "token_outputs \<Rightarrow> token_outputs \<Rightarrow> bool" where
  "sum_ok ins outs \<longleftrightarrow> balanced (insert HATHOR_TOKEN_UID (fst ` set ins)) (input_info ins) outs"

definition tc_sum_ok :: "bytes \<Rightarrow> token_outputs \<Rightarrow> token_outputs \<Rightarrow> bool" where
  "tc_sum_ok h ins outs \<longleftrightarrow>
     (let info = (input_info ins)(h := \<lparr>amount = 0, can_mint = True, can_melt = True\<rparr>) in
      balanced (insert h (insert HATHOR_TOKEN_UID (fst ` set ins))) info outs \<and> 0 < amount (credit info outs h))"

text \<open>Loops that first look something up and then update a state.\<close>

lemma foldE_lookup:
  "foldE (\<lambda>s x. bindE (g x) (\<lambda>y. Inr (f s y))) s xs = bindE (mapE g xs) (\<lambda>ys. Inr (foldl f s ys))"
  by (induction xs arbitrary: s) (simp_all add: bindE_assoc bindE_def split: sum.splits)

lemma foldE_lookup_eq_Inr:
  "foldE (\<lambda>s x. bindE (g x) (\<lambda>y. f s y x)) s xs = Inr t \<longleftrightarrow>
   (\<exists>ys. mapE (\<lambda>x. bindE (g x) (\<lambda>y. Inr (y, x))) xs = Inr ys \<and> foldE (\<lambda>s (y, x). f s y x) s ys = Inr t)"
proof (induction xs arbitrary: s)
  case (Cons x xs)
  show ?case by (cases "g x") (auto simp: bindE_eq_Inr Cons.IH)
qed simp

definition info_at :: "token_dict \<Rightarrow> bytes \<Rightarrow> token_info" where
  "info_at d u = (case map_of d u of None \<Rightarrow> \<lparr>amount = 0, can_mint = False, can_melt = False\<rparr> | Some i \<Rightarrow> i)"

lemma info_at_add_input:
  "info_at (token_info_add_input d (u', out)) u =
   (if u' = u then \<lparr>amount = amount (info_at d u) - (if is_token_authority out then 0 else to_value out),
      can_mint = can_mint (info_at d u) \<or> can_mint_token out, can_melt = can_melt (info_at d u) \<or> can_melt_token out\<rparr>
    else info_at d u)"
  by (auto simp: info_at_def token_info_add_input_def Let_def can_mint_token_def can_melt_token_def split: option.splits)

lemma inputs_tally:
  "info_at (foldl token_info_add_input d ins) u =
   \<lparr>amount = amount (info_at d u) - token_sum ins u,
    can_mint = can_mint (info_at d u) \<or> has_mint ins u, can_melt = can_melt (info_at d u) \<or> has_melt ins u\<rparr>"
proof (induction ins arbitrary: d)
  case (Cons p ins)
  show ?case by (cases p) (auto simp: Cons.IH info_at_add_input token_sum_def has_mint_def has_melt_def)
qed (simp add: token_sum_def has_mint_def has_melt_def)

lemma add_input_keys:
  shows "fst ` set (token_info_add_input d p) = insert (fst p) (fst ` set d)"
    and "distinct (map fst d) \<Longrightarrow> distinct (map fst (token_info_add_input d p))"
  by (cases p, simp add: token_info_add_input_def Let_def)+

lemma inputs_keys:
  shows "fst ` set (foldl token_info_add_input d ins) = fst ` set d \<union> fst ` set ins"
    and "distinct (map fst d) \<Longrightarrow> distinct (map fst (foldl token_info_add_input d ins))"
  by (induction ins arbitrary: d) (simp_all add: add_input_keys)

text \<open>The outputs, which leave the keys and the authorities as they are.\<close>

abbreviation entry_ok :: "token_dict \<Rightarrow> bytes \<times> txoutput \<Rightarrow> bool" where
  "entry_ok d \<equiv> output_ok (fst ` set d) (info_at d)"

definition add_value :: "token_dict \<Rightarrow> bytes \<times> txoutput \<Rightarrow> token_dict" where
  "add_value d = (\<lambda>(u, out).
     if is_token_authority out then d else dict_set d u ((info_at d u)\<lparr>amount := amount (info_at d u) + to_value out\<rparr>))"

lemma add_output_eq_Inr: "token_info_add_output d u out = Inr d' \<longleftrightarrow> entry_ok d (u, out) \<and> d' = add_value d (u, out)"
proof (cases "map_of d u")
  case None
  then have "u \<notin> fst ` set d" by (simp add: map_of_eq_None_iff)
  with None show ?thesis by (simp add: token_info_add_output_def output_ok_def)
next
  case (Some info)
  then have "u \<in> fst ` set d" by (metis domI dom_map_of_conv_image_fst)
  with Some show ?thesis
    by (auto simp: token_info_add_output_def output_ok_def add_value_def info_at_def result_iff)
qed

lemma add_value_props:
  assumes "u \<in> fst ` set d"
  shows "fst ` set (add_value d (u, out)) = fst ` set d"
    and "distinct (map fst d) \<Longrightarrow> distinct (map fst (add_value d (u, out)))"
    and "info_at (add_value d (u, out)) u' =
      (info_at d u')\<lparr>amount := amount (info_at d u') + (if u = u' \<and> \<not> is_token_authority out then to_value out else 0)\<rparr>"
  using assms by (simp_all add: add_value_def info_at_def insert_absorb)

lemma outputs_fold:
  "foldE (\<lambda>d (u, out). token_info_add_output d u out) d outs = Inr d' \<longleftrightarrow>
   list_all (entry_ok d) outs \<and> d' = foldl add_value d outs"
proof (induction outs arbitrary: d)
  case (Cons p outs)
  obtain u out where p: "p = (u, out)" by (cases p)
  have "entry_ok (add_value d (u, out)) = entry_ok d" if "entry_ok d (u, out)"
    using that by (auto simp: output_ok_def add_value_props fun_eq_iff)
  then show ?case by (auto simp: p bindE_eq_Inr add_output_eq_Inr Cons.IH)
qed auto

lemma outputs_tally:
  assumes "list_all (entry_ok d) outs"
  shows "fst ` set (foldl add_value d outs) = fst ` set d \<and>
    (distinct (map fst d) \<longrightarrow> distinct (map fst (foldl add_value d outs))) \<and>
    info_at (foldl add_value d outs) u = (info_at d u)\<lparr>amount := amount (info_at d u) + token_sum outs u\<rparr>"
  using assms
proof (induction outs arbitrary: d)
  case (Cons p outs)
  obtain v out where p: "p = (v, out)" by (cases p)
  with Cons.prems have v: "v \<in> fst ` set d" and "entry_ok d (v, out)" by (auto simp: output_ok_def)
  then have "entry_ok (add_value d (v, out)) = entry_ok d" by (auto simp: output_ok_def add_value_props fun_eq_iff)
  with Cons.prems have "list_all (entry_ok (add_value d (v, out))) outs" by simp
  from Cons.IH [OF this] v show ?case by (auto simp: p add_value_props token_sum_def)
qed (simp add: token_sum_def)

text \<open>The final loop, over the entries of the dictionary.\<close>

lemma charges_fold:
  "foldE (\<lambda>acc (u, info). if u = HATHOR_TOKEN_UID then Inr acc
             else bindE (token_charge info) (\<lambda>c. Inr (acc + c))) acc d = Inr e \<longleftrightarrow>
   (\<forall>(u, info) \<in> set d. u \<noteq> HATHOR_TOKEN_UID \<longrightarrow> isr (token_charge info)) \<and>
   e = acc + (\<Sum>(u, info) \<leftarrow> d. if u = HATHOR_TOKEN_UID then 0 else projr (token_charge info))"
proof (induction d arbitrary: acc)
  case (Cons p d)
  show ?case
  proof (cases "token_charge (snd p)")
    case (Inl e)
    then show ?thesis using Cons.IH by (cases p) simp
  next
    case (Inr c)
    then show ?thesis using Cons.IH by (cases p) (simp add: add.assoc)
  qed
qed auto

lemma info_at_entry: "distinct (map fst d) \<Longrightarrow> (u, info) \<in> set d \<Longrightarrow> info_at d u = info"
  by (simp add: info_at_def)

lemma sum_over_keys:
  fixes f :: "token_info \<Rightarrow> int"
  assumes "distinct (map fst d)"
  shows "(\<Sum>(u, info) \<leftarrow> d. if u = k then 0 else f info) = (\<Sum>u \<in> fst ` set d - {k}. f (info_at d u))"
proof -
  let ?G = "\<lambda>u. if u = k then 0 else f (info_at d u)"
  have "(\<Sum>(u, info) \<leftarrow> d. if u = k then 0 else f info) = (\<Sum>(u, info) \<in> set d. if u = k then 0 else f info)"
    using assms by (simp add: sum_list_distinct_conv_sum_set distinct_map)
  also have "\<dots> = (\<Sum>p \<in> set d. (?G \<circ> fst) p)"
    using info_at_entry [OF assms] by (intro sum.cong) auto
  also have "\<dots> = (\<Sum>u \<in> fst ` set d. ?G u)"
    using assms by (intro sum.reindex [symmetric]) (simp add: distinct_map)
  also have "\<dots> = (\<Sum>u \<in> fst ` set d - {k}. ?G u)" by (intro sum.mono_neutral_right) auto
  also have "\<dots> = (\<Sum>u \<in> fst ` set d - {k}. f (info_at d u))" by (intro sum.cong) auto
  finally show ?thesis .
qed

lemma check_authorities_eq_Inr:
  assumes "distinct (map fst d)" and "HATHOR_TOKEN_UID \<in> fst ` set d"
  shows "check_authorities_and_deposit d = Inr () \<longleftrightarrow>
    (\<forall>u \<in> fst ` set d - {HATHOR_TOKEN_UID}. isr (token_charge (info_at d u))) \<and>
    amount (info_at d HATHOR_TOKEN_UID) = (\<Sum>u \<in> fst ` set d - {HATHOR_TOKEN_UID}. projr (token_charge (info_at d u)))"
proof -
  obtain i where i: "map_of d HATHOR_TOKEN_UID = Some i"
    using assms(2) by (metis domD dom_map_of_conv_image_fst)
  then have at: "info_at d HATHOR_TOKEN_UID = i" by (simp add: info_at_def)
  have "(\<forall>(u, info) \<in> set d. u \<noteq> HATHOR_TOKEN_UID \<longrightarrow> isr (token_charge info)) \<longleftrightarrow>
      (\<forall>u \<in> fst ` set d - {HATHOR_TOKEN_UID}. isr (token_charge (info_at d u)))"
    using info_at_entry [OF assms(1)] by force
  then show ?thesis
    by (auto simp: check_authorities_and_deposit_def bindE_eq_Inr guardE_eq_Inr i at charges_fold sum_over_keys [OF assms(1)])
qed

text \<open>The dictionary after the inputs, and what it says about the outputs.\<close>

abbreviation htr_dict :: token_dict where
  "htr_dict \<equiv> [(HATHOR_TOKEN_UID, \<lparr>amount = 0, can_mint = False, can_melt = False\<rparr>)]"

lemma get_token_info_eq:
  "get_token_info_from_inputs st v =
   bindE (mapE (spent_output st) (inputs (vertex_base v))) (\<lambda>ins. Inr (foldl token_info_add_input htr_dict ins))"
  unfolding get_token_info_from_inputs_def by (rule foldE_lookup)

lemma update_token_info_eq_Inr:
  "update_token_info_from_outputs v d = Inr d' \<longleftrightarrow>
   (\<exists>outs. mapE (own_output v) (outputs (vertex_base v)) = Inr outs \<and> list_all (entry_ok d) outs \<and> d' = foldl add_value d outs)"
  unfolding update_token_info_from_outputs_def foldE_lookup_eq_Inr outputs_fold own_output_def by simp

lemma balanced_dict:
  assumes "distinct (map fst d)" and "HATHOR_TOKEN_UID \<in> fst ` set d"
  shows "list_all (entry_ok d) outs \<and> check_authorities_and_deposit (foldl add_value d outs) = Inr () \<longleftrightarrow>
    balanced (fst ` set d) (info_at d) outs"
proof (cases "list_all (entry_ok d) outs")
  case True
  note o = outputs_tally [OF True]
  have "info_at (foldl add_value d outs) u = credit (info_at d) outs u" for u using o [of u] by (simp add: credit_def)
  with True o assms show ?thesis by (simp add: balanced_def check_authorities_eq_Inr)
qed (simp add: balanced_def)

lemma input_dict:
  shows "fst ` set (foldl token_info_add_input htr_dict ins) = insert HATHOR_TOKEN_UID (fst ` set ins)"
    and "distinct (map fst (foldl token_info_add_input htr_dict ins))"
    and "info_at (foldl token_info_add_input htr_dict ins) = input_info ins"
  by (simp_all add: inputs_keys inputs_tally fun_eq_iff input_info_def) (simp_all add: info_at_def)

lemma tx_verify_sum_eq_Inr:
  "tx_verify_sum st v = Inr () \<longleftrightarrow>
   (\<exists>ins outs. mapE (spent_output st) (inputs (vertex_base v)) = Inr ins \<and>
      mapE (own_output v) (outputs (vertex_base v)) = Inr outs \<and> sum_ok ins outs)"
proof -
  have "sum_ok ins outs \<longleftrightarrow> list_all (entry_ok (foldl token_info_add_input htr_dict ins)) outs \<and>
      check_authorities_and_deposit (foldl add_value (foldl token_info_add_input htr_dict ins) outs) = Inr ()" for ins outs
    using balanced_dict [of "foldl token_info_add_input htr_dict ins" outs] by (simp add: input_dict sum_ok_def)
  then show ?thesis
    by (auto simp: tx_verify_sum_def get_token_info_eq bindE_assoc bindE_eq_Inr update_token_info_eq_Inr)
qed

lemma info_at_dict_set: "info_at (dict_set d k i) = (info_at d)(k := i)"
  by (simp add: info_at_def fun_eq_iff)

lemma tc_verify_sum_eq_Inr:
  "tc_verify_sum st v = Inr () \<longleftrightarrow>
   (\<exists>h ins outs. tx_hash (vertex_base v) = Some h \<and> mapE (spent_output st) (inputs (vertex_base v)) = Inr ins \<and>
      mapE (own_output v) (outputs (vertex_base v)) = Inr outs \<and> tc_sum_ok h ins outs)"
proof -
  let ?new = "\<lparr>amount = 0, can_mint = True, can_melt = True\<rparr>"
  have "tc_sum_ok h ins outs \<longleftrightarrow>
      (let d = dict_set (foldl token_info_add_input htr_dict ins) h ?new in
       list_all (entry_ok d) outs \<and> (\<exists>i. map_of (foldl add_value d outs) h = Some i \<and> 0 < amount i) \<and>
       check_authorities_and_deposit (foldl add_value d outs) = Inr ())" for h ins outs
  proof -
    let ?d = "dict_set (foldl token_info_add_input htr_dict ins) h ?new"
    have d: "distinct (map fst ?d)" "fst ` set ?d = insert h (insert HATHOR_TOKEN_UID (fst ` set ins))"
      "info_at ?d = (input_info ins)(h := ?new)" by (simp_all add: input_dict info_at_dict_set)
    note b = balanced_dict [of ?d outs, OF d(1), unfolded d(2,3)]
    have "(\<exists>i. map_of (foldl add_value ?d outs) h = Some i \<and> 0 < amount i) \<longleftrightarrow>
        0 < amount (credit ((input_info ins)(h := ?new)) outs h)" if "list_all (entry_ok ?d) outs"
    proof -
      note o = outputs_tally [OF that, of h]
      then have "h \<in> fst ` set (foldl add_value ?d outs)" by (simp add: d(2))
      then obtain i where i: "map_of (foldl add_value ?d outs) h = Some i" by (metis domD dom_map_of_conv_image_fst)
      then have "info_at (foldl add_value ?d outs) h = i" by (simp add: info_at_def)
      with o i show ?thesis by (simp add: credit_def info_at_dict_set)
    qed
    with b show ?thesis unfolding tc_sum_ok_def Let_def d(2,3) by auto
  qed
  then show ?thesis
    by (auto simp: tc_verify_sum_def get_token_info_eq bindE_assoc bindE_eq_Inr bindE_guardE_eq_Inr
        update_token_info_eq_Inr result_iff Let_def)
qed

lemma token_charge_isr:
  assumes "isr (token_charge i)"
  shows "0 < amount i \<Longrightarrow> can_mint i" and "amount i < 0 \<Longrightarrow> can_melt i"
  using assms by (auto simp: token_charge_def guardE_def split: if_splits)

lemma token_sum_absent: "u \<notin> fst ` set os \<Longrightarrow> token_sum os u = 0"
  by (induction os) (auto simp: token_sum_def)

lemma balanced_absent: "balanced K info outs \<Longrightarrow> u \<notin> K \<Longrightarrow> token_sum outs u = 0"
  by (rule token_sum_absent) (auto simp: balanced_def list_all_iff output_ok_def)

lemma balanced_authorities:
  assumes "balanced K info outs" and "u \<in> K" and "u \<noteq> HATHOR_TOKEN_UID"
  shows "0 < amount (credit info outs u) \<Longrightarrow> can_mint (info u)" and "amount (credit info outs u) < 0 \<Longrightarrow> can_melt (info u)"
proof -
  have c: "isr (token_charge (credit info outs u))" using assms by (simp add: balanced_def)
  show "can_mint (info u)" if "0 < amount (credit info outs u)"
    using token_charge_isr(1) [OF c that] by (simp add: credit_def)
  show "can_melt (info u)" if "amount (credit info outs u) < 0"
    using token_charge_isr(2) [OF c that] by (simp add: credit_def)
qed

lemma balanced_without_authorities:
  assumes "balanced K info outs" and "\<And>u. u \<in> K - {HATHOR_TOKEN_UID} \<Longrightarrow> \<not> can_mint (info u) \<and> \<not> can_melt (info u)"
    and "u \<in> K \<or> u = HATHOR_TOKEN_UID"
  shows "amount (credit info outs u) = 0"
proof -
  have z: "amount (credit info outs u) = 0" if "u \<in> K - {HATHOR_TOKEN_UID}" for u
    using balanced_authorities [OF assms(1), of u] assms(2) [OF that] that by force
  then have "(\<Sum>u \<in> K - {HATHOR_TOKEN_UID}. projr (token_charge (credit info outs u))) = 0"
    by (intro sum.neutral) (simp add: token_charge_def)
  then show ?thesis using z [of u] assms(1,3) by (cases "u = HATHOR_TOKEN_UID") (auto simp: balanced_def)
qed


lemma sum_ok_conservation:
  assumes "sum_ok ins outs"
  shows "\<forall>u. u \<noteq> HATHOR_TOKEN_UID \<longrightarrow>
      (token_sum ins u < token_sum outs u \<longrightarrow> has_mint ins u) \<and> (token_sum outs u < token_sum ins u \<longrightarrow> has_melt ins u)"
    and "(\<forall>u. \<not> has_mint ins u \<and> \<not> has_melt ins u) \<longrightarrow> (\<forall>u. token_sum outs u = token_sum ins u)"
proof -
  let ?K = "insert HATHOR_TOKEN_UID (fst ` set ins)"
  from assms have b: "balanced ?K (input_info ins) outs" by (simp add: sum_ok_def)
  have a: "amount (credit (input_info ins) outs u) = token_sum outs u - token_sum ins u"
    "can_mint (input_info ins u) = has_mint ins u" "can_melt (input_info ins u) = has_melt ins u" for u
    by (simp_all add: credit_def input_info_def)
  have out: "token_sum outs u = token_sum ins u" if "u \<notin> ?K" for u
    using balanced_absent [OF b that] token_sum_absent [of u ins] that by simp
  show "\<forall>u. u \<noteq> HATHOR_TOKEN_UID \<longrightarrow>
      (token_sum ins u < token_sum outs u \<longrightarrow> has_mint ins u) \<and> (token_sum outs u < token_sum ins u \<longrightarrow> has_melt ins u)"
    using balanced_authorities [OF b, unfolded a] out by (metis diff_gt_0_iff_gt diff_less_0_iff_less less_irrefl)
  show "(\<forall>u. \<not> has_mint ins u \<and> \<not> has_melt ins u) \<longrightarrow> (\<forall>u. token_sum outs u = token_sum ins u)"
    using balanced_without_authorities [OF b, unfolded a] out by (metis eq_iff_diff_eq_0 insertI1)
qed

text \<open>
  C17: a verified transaction conserves tokens. The total of a token other than HTR only grows
  if an input carries the authority to mint it and only shrinks if one carries the authority to
  melt it, and without authorities among the inputs every token, HTR included, goes out in
  exactly the amount that came in.
\<close>

theorem verify_sum_conservation:
  assumes "tx_verify_sum st v = Inr ()"
    and "mapE (spent_output st) (inputs (vertex_base v)) = Inr ins"
    and "mapE (own_output v) (outputs (vertex_base v)) = Inr outs"
  shows "(\<forall>u. u \<noteq> HATHOR_TOKEN_UID \<longrightarrow>
      (token_sum ins u < token_sum outs u \<longrightarrow> has_mint ins u) \<and> (token_sum outs u < token_sum ins u \<longrightarrow> has_melt ins u)) \<and>
    ((\<forall>u. \<not> has_mint ins u \<and> \<not> has_melt ins u) \<longrightarrow> (\<forall>u. token_sum outs u = token_sum ins u))"
proof -
  have "sum_ok ins outs" using assms unfolding tx_verify_sum_eq_Inr by auto
  then show ?thesis using sum_ok_conservation by blast
qed

lemma sample_token_outputs:
  shows "mapE (spent_output sample_storage) (inputs (vertex_base (VTransaction sample_spending))) =
      Inr [(HATHOR_TOKEN_UID, outputs sample_funding ! 0)]"
    and "mapE (own_output (VTransaction sample_spending)) (outputs (vertex_base (VTransaction sample_spending))) =
      Inr [(HATHOR_TOKEN_UID, outputs sample_spending ! 0), (HATHOR_TOKEN_UID, outputs sample_spending ! 1)]"
  by (simp_all add: sample_storage_def sample_spending_def sample_funding_def spent_output_def own_output_def
      get_transaction_def py_nth_def get_token_index_def tx_get_token_uid_def base_transaction.defs)

lemma sample_sums:
  "tx_verify_sum sample_storage (VTransaction sample_spending) = Inr ()"
  unfolding tx_verify_sum_eq_Inr sample_token_outputs
  by (simp add: sum_ok_def balanced_def output_ok_def credit_def input_info_def token_sum_def
      sample_spending_def sample_funding_def is_token_authority_def can_mint_token_def can_melt_token_def)

theorem verify_sum_conservation_witness:
  "token_sum [(HATHOR_TOKEN_UID, outputs sample_spending ! 0), (HATHOR_TOKEN_UID, outputs sample_spending ! 1)]
     HATHOR_TOKEN_UID = token_sum [(HATHOR_TOKEN_UID, outputs sample_funding ! 0)] HATHOR_TOKEN_UID"
  using verify_sum_conservation [OF sample_sums sample_token_outputs]
  by (simp add: has_mint_def has_melt_def sample_funding_def is_token_authority_def can_mint_token_def can_melt_token_def)

subsection \<open>Token creation\<close>

lemma tc_deposit:
  assumes "tc_sum_ok h ins outs" and "fst ` set ins \<subseteq> {HATHOR_TOKEN_UID}" and "h \<noteq> HATHOR_TOKEN_UID"
    and "token_sum outs h \<le> 2 ^ 53"
  shows "0 < token_sum outs h \<and>
    token_sum ins HATHOR_TOKEN_UID - token_sum outs HATHOR_TOKEN_UID = - (- token_sum outs h div 100)"
proof -
  let ?info = "(input_info ins)(h := \<lparr>amount = 0, can_mint = True, can_melt = True\<rparr>)"
  have K: "insert h (insert HATHOR_TOKEN_UID (fst ` set ins)) - {HATHOR_TOKEN_UID} = {h}" using assms(2,3) by auto
  have b: "balanced (insert h (insert HATHOR_TOKEN_UID (fst ` set ins))) ?info outs" and m: "0 < token_sum outs h"
    using assms(1) by (simp_all add: tc_sum_ok_def Let_def credit_def)
  have "token_charge (credit ?info outs h) = Inr (- token_sum outs h div 100)"
    using m assms(4) amounts_up_to_53_bits(1) [of "token_sum outs h"] by (simp add: token_charge_def credit_def)
  with b K have "amount (credit ?info outs HATHOR_TOKEN_UID) = - token_sum outs h div 100"
    by (simp add: balanced_def)
  with m assms(3) show ?thesis by (simp add: credit_def input_info_def)
qed

text \<open>
  Creating a token costs HTR. When the inputs only hold HTR, a verified token creation mints
  a positive amount of the new token and destroys exactly one hundredth of it in HTR, rounded
  up, for amounts of up to 53 bits.
\<close>

theorem token_creation_pays_deposit:
  assumes "tc_verify_sum st v = Inr ()" and "tx_hash (vertex_base v) = Some h" and "h \<noteq> HATHOR_TOKEN_UID"
    and "mapE (spent_output st) (inputs (vertex_base v)) = Inr ins" and "fst ` set ins \<subseteq> {HATHOR_TOKEN_UID}"
    and "mapE (own_output v) (outputs (vertex_base v)) = Inr outs" and "token_sum outs h \<le> 2 ^ 53"
  shows "0 < token_sum outs h \<and>
    token_sum ins HATHOR_TOKEN_UID - token_sum outs HATHOR_TOKEN_UID = - (- token_sum outs h div 100)"
proof -
  have "tc_sum_ok h ins outs" using assms(1,2,4,6) unfolding tc_verify_sum_eq_Inr by auto
  then show ?thesis using assms(5,3,7) by (rule tc_deposit)
qed

text \<open>The creation of 250 units of a token, which costs 3 units of HTR.\<close>

definition sample_creation :: token_creation_tx where
  "sample_creation = \<lparr>nonce = 0, timestamp = 200, version = 2, weight = 0,
     inputs = [\<lparr>ti_tx_id = [1], ti_index = 0, ti_data = []\<rparr>],
     outputs = [\<lparr>to_value = 497, to_script = [OP_1], to_token_data = 0\<rparr>,
                \<lparr>to_value = 250, to_script = [OP_1], to_token_data = 1\<rparr>],
     parents = [[1], [2]], tx_hash = Some [3], tokens = [[3]], token_name = [], token_symbol = []\<rparr>"

lemma sample_creation_outputs:
  shows "mapE (spent_output sample_storage) (inputs (vertex_base (VTokenCreation sample_creation))) =
      Inr [(HATHOR_TOKEN_UID, outputs sample_funding ! 0)]"
    and "mapE (own_output (VTokenCreation sample_creation)) (outputs (vertex_base (VTokenCreation sample_creation))) =
      Inr [(HATHOR_TOKEN_UID, outputs sample_creation ! 0), ([3], outputs sample_creation ! 1)]"
  by (simp_all add: sample_storage_def sample_creation_def sample_funding_def spent_output_def own_output_def
      get_transaction_def py_nth_def get_token_index_def tx_get_token_uid_def base_transaction.defs TOKEN_INDEX_MASK_def)

lemma sample_creation_sums:
  "tc_verify_sum sample_storage (VTokenCreation sample_creation) = Inr ()"
  unfolding tc_verify_sum_eq_Inr sample_creation_outputs
  using amounts_up_to_53_bits(1) [of 250]
  by (simp add: tc_sum_ok_def balanced_def output_ok_def credit_def input_info_def token_sum_def token_charge_def
      sample_creation_def sample_funding_def is_token_authority_def can_mint_token_def can_melt_token_def
      HATHOR_TOKEN_UID_def TOKEN_AUTHORITY_MASK_def base_transaction.defs Let_def insert_Diff_if)

theorem token_creation_pays_deposit_witness:
  "token_sum [(HATHOR_TOKEN_UID, outputs sample_funding ! 0)] HATHOR_TOKEN_UID -
   token_sum [(HATHOR_TOKEN_UID, outputs sample_creation ! 0), ([3], outputs sample_creation ! 1)] HATHOR_TOKEN_UID = 3"
  using token_creation_pays_deposit [OF sample_creation_sums _ _ sample_creation_outputs(1) _ sample_creation_outputs(2), of "[3]"]
  by (simp add: sample_creation_def sample_funding_def HATHOR_TOKEN_UID_def token_sum_def is_token_authority_def
      TOKEN_AUTHORITY_MASK_def base_transaction.defs)

end
