(* ===== verification/Verify_Rules.thy ===== *)
theory Verify_Rules
  imports Token_Sums
begin

text \<open>
  What the verification accepts, as conditions on the vertex and the storage: the parents, the
  inputs with the height kept from one input to the next, and whole transactions and blocks.
\<close>

subsection \<open>Parents: when they are accepted\<close>

text \<open>
  A parent of a vertex \<open>v\<close> as \<^verbatim>\<open>verify_parents\<close> wants it, the order of the parents, and
  the whole condition.
\<close>

definition parent_ok :: "node_env \<Rightarrow> vertex \<Rightarrow> vertex \<Rightarrow> bool" where
  "parent_ok env v p \<longleftrightarrow>
     tx_hash (vertex_base p) \<noteq> None \<and> vtimestamp p < vtimestamp v \<and>
     (is_block v \<and> is_block p \<and> \<not> is_genesis env p \<longrightarrow>
        vtimestamp v - vtimestamp p \<le> MAX_DISTANCE_BETWEEN_BLOCKS)"

definition parents_ok :: "node_env \<Rightarrow> storage \<Rightarrow> vertex \<Rightarrow> bool" where
  "parents_ok env st v \<longleftrightarrow>
     (\<exists>ps. mapE (get_transaction st) (parents (vertex_base v)) = Inr ps \<and> list_all (parent_ok env v) ps \<and>
        map is_block ps = (if is_block v then [True, False, False] else [False, False]))"

text \<open>The lookup of the grandparents finds the parent block itself and never sets \<^verbatim>\<open>min_timestamp\<close>.\<close>

lemma grandparents_idle:
  assumes "get_transaction st p = Inr b" and "is_block b"
  shows "foldE (grandparents_step st p) mt hs = Inr mt"
  using assms by (induction hs) (simp_all add: grandparents_step_def)

text \<open>The kinds of the parents, given how many transactions came before.\<close>

fun parents_order :: "nat \<Rightarrow> bool list \<Rightarrow> bool" where
  "parents_order t [] = True"
| "parents_order t (True # ks) = (t = 0 \<and> parents_order t ks)"
| "parents_order t (False # ks) = parents_order (Suc t) ks"

lemma parents_step_eq_Inr:
  "parents_step env st v (t, b, None) h = Inr s \<longleftrightarrow>
   (\<exists>p. get_transaction st h = Inr p \<and> parent_ok env v p \<and> (is_block p \<longrightarrow> t = 0) \<and>
      s = (if is_block p then (t, Suc b, None) else (Suc t, b, None)))"
proof (cases "get_transaction st h")
  case (Inr p)
  show ?thesis
  proof (cases "is_block p")
    case True
    with Inr grandparents_idle [OF Inr True] show ?thesis
      by (auto simp: parents_step_def parent_ok_def result_iff)
  next
    case False
    with Inr show ?thesis by (auto simp: parents_step_def parent_ok_def result_iff)
  qed
qed (simp add: parents_step_def)

lemma parents_fold:
  "foldE (parents_step env st v) (t, b, None) hs = Inr s \<longleftrightarrow>
   (\<exists>ps. mapE (get_transaction st) hs = Inr ps \<and> list_all (parent_ok env v) ps \<and>
      parents_order t (map is_block ps) \<and>
      s = (t + length (filter (\<lambda>p. \<not> is_block p) ps), b + length (filter is_block ps), None))"
proof (induction hs arbitrary: t b)
  case (Cons h hs)
  show ?case
  proof (cases "get_transaction st h")
    case (Inr p)
    show ?thesis
    proof (cases "is_block p")
      case True
      with Inr Cons.IH show ?thesis by (auto simp: bindE_eq_Inr parents_step_eq_Inr)
    next
      case False
      with Inr Cons.IH show ?thesis by (auto simp: bindE_eq_Inr parents_step_eq_Inr)
    qed
  qed (simp add: bindE_eq_Inr parents_step_eq_Inr)
qed auto

lemma length_two_or_three:
  shows "length ks = 2 \<Longrightarrow> \<exists>a b. ks = [a, b]" and "length ks = 3 \<Longrightarrow> \<exists>a b c. ks = [a, b, c]"
  by (auto simp: numeral_eq_Suc length_Suc_conv)

lemma parents_order_counts:
  "parents_order 0 ks \<and> length (filter id ks) = (if blk then 1 else 0) \<and> length (filter Not ks) = 2 \<longleftrightarrow>
   ks = (if blk then [True, False, False] else [False, False])" (is "?l = ?r")
proof
  assume l: ?l
  have "length ks = length (filter id ks) + length (filter Not ks)"
    using sum_length_filter_compl [of id ks] by (simp add: id_def)
  with l have len: "length ks = (if blk then 3 else 2)" by (simp split: if_splits)
  show ?r
  proof (cases blk)
    case True
    with len length_two_or_three(2) [of ks] obtain a b c where "ks = [a, b, c]" by auto
    with True l show ?thesis by (cases a; cases b; cases c) simp_all
  next
    case False
    with len length_two_or_three(1) [of ks] obtain a b where "ks = [a, b]" by auto
    with False l show ?thesis by (cases a; cases b) simp_all
  qed
qed auto

text \<open>
  The parents of a verified vertex are distinct because \<^verbatim>\<open>len(self.parents) > len(set(self.parents))\<close> is refused.
\<close>

lemma verify_parents_eq_Inr:
  "verify_parents env st v = Inr () \<longleftrightarrow>
   tx_hash (vertex_base v) \<noteq> None \<and> distinct (parents (vertex_base v)) \<and> parents_ok env st v"
proof -
  have d: "length ps \<le> card (set ps) \<longleftrightarrow> distinct ps" for ps :: "bytes list"
    by (metis card_distinct card_length distinct_card le_antisym order_refl)
  have k: "parents_order 0 (map is_block ps) \<and> length (filter is_block ps) = (if is_block v then 1 else 0) \<and>
      length (filter (\<lambda>p. \<not> is_block p) ps) = 2 \<longleftrightarrow>
      map is_block ps = (if is_block v then [True, False, False] else [False, False])" for ps
    using parents_order_counts [of "map is_block ps" "is_block v"] by (simp add: filter_map o_def id_def)
  have "verify_parents env st v = Inr () \<longleftrightarrow> tx_hash (vertex_base v) \<noteq> None \<and> distinct (parents (vertex_base v)) \<and>
    (\<exists>ps. mapE (get_transaction st) (parents (vertex_base v)) = Inr ps \<and> list_all (parent_ok env v) ps \<and>
      parents_order 0 (map is_block ps) \<and> length (filter is_block ps) = (if is_block v then 1 else 0) \<and>
      length (filter (\<lambda>p. \<not> is_block p) ps) = 2)"
    by (auto simp: verify_parents_def Let_def bindE_guardE_eq_Inr bindE_eq_Inr guardE_eq_Inr the_hash_eq_Inr
        catchE_raise_eq_Inr d parents_fold)
  then show ?thesis by (simp only: parents_ok_def k)
qed

text \<open>
  \<^verbatim>\<open>verify_parents\<close> accepts exactly the vertices whose parents are distinct, stored and
  strictly older, in the order block, transaction, transaction for a block and transaction,
  transaction for a transaction, a parent block that is not the genesis being at most
  \<^verbatim>\<open>MAX_DISTANCE_BETWEEN_BLOCKS\<close> seconds older than a block. The check of \<^verbatim>\<open>min_timestamp\<close>, that the
  transactions a block confirms are not older than those its parent block confirms, does not
  take part: the loop that should compute the minimum never sets it.
\<close>

theorem verify_parents_exact:
  "verify_parents env st v = Inr () \<longleftrightarrow>
   tx_hash (vertex_base v) \<noteq> None \<and> distinct (parents (vertex_base v)) \<and> parents_ok env st v"
  by (rule verify_parents_eq_Inr)

subsection \<open>Inputs: when they are accepted\<close>

definition reward_ok :: "node_env \<Rightarrow> storage \<Rightarrow> int \<Rightarrow> bytes \<Rightarrow> bool" where
  "reward_ok env st ts block_hash \<longleftrightarrow>
     (\<exists>H. best_height_before env st ts = Inr H \<and> REWARD_SPEND_MIN_BLOCKS \<le> H - meta_height (st_meta st block_hash))"

definition input_ok :: "node_env \<Rightarrow> storage \<Rightarrow> vertex \<Rightarrow> txinput \<Rightarrow> bool" where
  "input_ok env st v i \<longleftrightarrow>
     (\<exists>spent_tx h. st_txs st (ti_tx_id i) = Some spent_tx \<and> tx_hash (vertex_base spent_tx) = Some h \<and>
        ti_index i < int (length (outputs (vertex_base spent_tx))) \<and> vtimestamp spent_tx < vtimestamp v \<and>
        (is_block spent_tx \<longrightarrow> reward_ok env st (vtimestamp v) h) \<and>
        script_eval (env_crypto env) (env_net env) v i spent_tx = Some (Inr ()))"

text \<open>The height kept from an earlier check is the one that would be computed now.\<close>

definition cache_valid :: "node_env \<Rightarrow> storage \<Rightarrow> int \<Rightarrow> int option \<Rightarrow> bool" where
  "cache_valid env st ts cache \<longleftrightarrow> (\<forall>c. cache = Some c \<and> c \<noteq> 0 \<longrightarrow> best_height_before env st ts = Inr c)"

lemma verify_spent_reward_eq_Inr:
  assumes "cache_valid env st ts cache"
  shows "(\<exists>c. verify_spent_reward env st ts cache h = Inr c) \<longleftrightarrow> reward_ok env st ts h"
    and "verify_spent_reward env st ts cache h = Inr c \<Longrightarrow> cache_valid env st ts c"
proof -
  have "verify_spent_reward env st ts cache h =
      bindE (best_height_before env st ts) (\<lambda>best_height.
      bindE (guardE (REWARD_SPEND_MIN_BLOCKS \<le> best_height - meta_height (st_meta st h)) (TxE RewardLocked)) (\<lambda>_.
      Inr (Some best_height)))"
    using assms by (auto simp: verify_spent_reward_def cache_valid_def split: option.splits)
  then show "(\<exists>c. verify_spent_reward env st ts cache h = Inr c) \<longleftrightarrow> reward_ok env st ts h"
    and "verify_spent_reward env st ts cache h = Inr c \<Longrightarrow> cache_valid env st ts c"
    by (auto simp: reward_ok_def cache_valid_def result_iff)
qed

lemma verify_script_eq_Inr:
  "verify_script env v i s = Some (Inr ()) \<longleftrightarrow> script_eval (env_crypto env) (env_net env) v i s = Some (Inr ())"
  by (auto simp: verify_script_def catchE_raise_eq_Inr)

abbreviation input_key :: "txinput \<Rightarrow> bytes \<times> int" where
  "input_key i \<equiv> (ti_tx_id i, ti_index i)"

lemma input_step_Inr:
  assumes "cache_valid env st (vtimestamp v) cache"
  shows "(\<exists>s. input_step env st v (spent, cache) i = Some (Inr s)) \<longleftrightarrow> input_ok env st v i \<and> input_key i \<notin> spent"
    and "input_step env st v (spent, cache) i = Some (Inr s) \<Longrightarrow>
      fst s = insert (input_key i) spent \<and> cache_valid env st (vtimestamp v) (snd s)"
proof -
  have step: "input_step env st v (spent, cache) i = Some (Inr s) \<longleftrightarrow>
    (\<exists>spent_tx h c. st_txs st (ti_tx_id i) = Some spent_tx \<and> tx_hash (vertex_base spent_tx) = Some h \<and>
        ti_index i < int (length (outputs (vertex_base spent_tx))) \<and> vtimestamp spent_tx < vtimestamp v \<and>
        (if is_block spent_tx then verify_spent_reward env st (vtimestamp v) cache h else Inr cache) = Inr c \<and>
        script_eval (env_crypto env) (env_net env) v i spent_tx = Some (Inr ()) \<and> input_key i \<notin> spent \<and>
        s = (insert (input_key i) spent, c))" for s
    by (auto simp: input_step_def bindR_eq_Inr catchE_raise_eq_Inr bindE_eq_Inr bindE_guardE_eq_Inr guardE_eq_Inr
        get_transaction_eq_Inr the_hash_eq_Inr verify_script_eq_Inr)
  note r = verify_spent_reward_eq_Inr [OF assms]
  show "(\<exists>s. input_step env st v (spent, cache) i = Some (Inr s)) \<longleftrightarrow> input_ok env st v i \<and> input_key i \<notin> spent"
  proof -
    have "(\<exists>c. (if is_block t then verify_spent_reward env st (vtimestamp v) cache h else Inr cache) = Inr c) \<longleftrightarrow>
        (is_block t \<longrightarrow> reward_ok env st (vtimestamp v) h)" for t h using r(1) by simp
    then show ?thesis unfolding step input_ok_def by blast
  qed
  show "input_step env st v (spent, cache) i = Some (Inr s) \<Longrightarrow>
      fst s = insert (input_key i) spent \<and> cache_valid env st (vtimestamp v) (snd s)"
    using r(2) assms by (auto simp: step split: if_splits)
qed

lemma inputs_fold:
  assumes "cache_valid env st (vtimestamp v) cache"
  shows "(\<exists>s. foldR (input_step env st v) (spent, cache) is = Some (Inr s)) \<longleftrightarrow>
    list_all (input_ok env st v) is \<and> distinct (map input_key is) \<and> set (map input_key is) \<inter> spent = {}"
  using assms
proof (induction "is" arbitrary: spent cache)
  case (Cons i "is")
  note step = input_step_Inr [OF Cons.prems]
  show ?case
  proof (cases "\<exists>s. input_step env st v (spent, cache) i = Some (Inr s)")
    case True
    then obtain c where c: "input_step env st v (spent, cache) i = Some (Inr (insert (input_key i) spent, c))"
      and "cache_valid env st (vtimestamp v) c" using step(2) by (metis prod.collapse)
    moreover have "input_ok env st v i" and "input_key i \<notin> spent" using True step(1) by blast+
    ultimately show ?thesis using Cons.IH by (auto simp: bindR_eq_Inr)
  next
    case False
    then have "\<not> (input_ok env st v i \<and> input_key i \<notin> spent)" using step(1) by blast
    with False show ?thesis by (auto simp: bindR_eq_Inr)
  qed
qed simp

lemma verify_inputs_eq_Inr:
  assumes "cache_valid env st (vtimestamp v) cache"
  shows "verify_inputs env st cache v = Some (Inr ()) \<longleftrightarrow>
    list_all (input_ok env st v) (inputs (vertex_base v)) \<and> distinct (map input_key (inputs (vertex_base v)))"
  using inputs_fold [OF assms, of "{}" "inputs (vertex_base v)"] by (auto simp: verify_inputs_def bindR_eq_Inr)

text \<open>
  C18: \<^verbatim>\<open>verify_inputs\<close> accepts exactly when every input spends an existing output of an older
  vertex, with data that its script accepts, a block reward being buried under at least
  \<^verbatim>\<open>REWARD_SPEND_MIN_BLOCKS\<close> blocks of the best chain before the transaction, and when no two
  inputs spend the same output. Keeping the height of the best block between inputs does not
  change the outcome.
\<close>

theorem verify_inputs_exact:
  assumes "cache_valid env st (vtimestamp v) cache"
  shows "verify_inputs env st cache v = Some (Inr ()) \<longleftrightarrow>
    list_all (input_ok env st v) (inputs (vertex_base v)) \<and> distinct (map input_key (inputs (vertex_base v)))"
  using assms by (rule verify_inputs_eq_Inr)

lemma sample_script:
  "script_eval cr se v \<lparr>ti_tx_id = [1], ti_index = 0, ti_data = []\<rparr> (VTransaction sample_funding) = Some (Inr ())"
proof -
  have "re_search MultiSig_re_match [OP_1] = None" by (simp add: re_search_def pattern_defs OP_1_def)
  moreover have "op_number 1 = Inr OP_1" by (simp add: op_number_def OP_1_def byte_of_def)
  ultimately show ?thesis
    by (simp add: script_eval_def sample_funding_def py_nth_def execute_eval_run base_transaction.defs run_number)
qed

lemma sample_input_ok: "list_all (input_ok sample_env sample_storage (VTransaction sample_spending))
    (inputs (vertex_base (VTransaction sample_spending)))"
  using sample_script
  by (simp add: input_ok_def sample_spending_def sample_storage_def base_transaction.defs)
    (simp add: sample_funding_def)

theorem verify_inputs_exact_witness:
  "cache_valid sample_env sample_storage 200 None \<and>
   verify_inputs sample_env sample_storage None (VTransaction sample_spending) = Some (Inr ())"
  using verify_inputs_exact [of sample_env sample_storage "VTransaction sample_spending" None] sample_input_ok
  by (simp add: cache_valid_def sample_spending_def base_transaction.defs)

subsection \<open>Whole transactions and blocks\<close>

definition pow_ok :: "libm \<Rightarrow> vertex \<Rightarrow> bool" where
  "pow_ok lm v \<longleftrightarrow> (\<exists>h target. tx_hash (vertex_base v) = Some h \<and> h \<noteq> [] \<and> get_target lm v = Inr target \<and>
     int (from_be h) < target)"

lemma verify_pow_eq_Inr: "verify_pow lm v = Inr () \<longleftrightarrow> pow_ok lm v"
  by (auto simp: verify_pow_def pow_ok_def numeric_hash_def result_iff)

definition tx_shape_ok :: "vertex \<Rightarrow> bool" where
  "tx_shape_ok v \<longleftrightarrow>
     inputs (vertex_base v) \<noteq> [] \<and> length (inputs (vertex_base v)) \<le> 255 \<and> length (outputs (vertex_base v)) \<le> 255 \<and>
     list_all (\<lambda>out. get_token_index out \<le> int (length (vertex_tokens v)) \<and> 0 < to_value out \<and>
       (is_token_authority out \<longrightarrow> get_token_index out \<noteq> 0)) (outputs (vertex_base v))"

lemma tx_verify_without_storage_eq_Inr:
  assumes "\<not> is_genesis env v"
  shows "tx_verify_without_storage env v = Inr () \<longleftrightarrow> pow_ok (env_libm env) v \<and> tx_shape_ok v"
  using assms
  by (auto simp: tx_verify_without_storage_def verify_number_of_inputs_def verify_number_of_outputs_def
      tx_verify_outputs_def verify_output_def tx_shape_ok_def verify_pow_eq_Inr result_iff list_all_iff
      MAX_NUM_INPUTS_def MAX_NUM_OUTPUTS_def)

text \<open>
  C14: a transaction that is not a genesis vertex is accepted exactly when it solves its
  proof-of-work, has between 1 and 255 inputs and at most 255 outputs of positive value for
  tokens it lists, none of them an authority over HTR, and its inputs, parents and sums are
  accepted. For a token creation the name and symbol are checked as well.
\<close>

theorem verify_transaction_exact:
  assumes "\<not> is_genesis env (VTransaction t)" and "cache_valid env st (timestamp t) cache"
  shows "verify env st cache (VTransaction t) = Some (Inr ()) \<longleftrightarrow>
    pow_ok (env_libm env) (VTransaction t) \<and> tx_shape_ok (VTransaction t) \<and>
    list_all (input_ok env st (VTransaction t)) (inputs t) \<and> distinct (map input_key (inputs t)) \<and>
    distinct (parents t) \<and> parents_ok env st (VTransaction t) \<and>
    (\<exists>ins outs. mapE (spent_output st) (inputs t) = Inr ins \<and> mapE (own_output (VTransaction t)) (outputs t) = Inr outs \<and>
       sum_ok ins outs)"
proof -
  have c: "cache_valid env st (vtimestamp (VTransaction t)) cache" using assms(2) by (simp add: base_transaction.defs)
  have "pow_ok (env_libm env) (VTransaction t) \<Longrightarrow> tx_hash (vertex_base (VTransaction t)) \<noteq> None" by (auto simp: pow_ok_def)
  with assms(1) show ?thesis
    by (auto simp: tx_verify_def bindR_eq_Inr tx_verify_without_storage_eq_Inr verify_inputs_eq_Inr [OF c]
        verify_parents_eq_Inr tx_verify_sum_eq_Inr base_transaction.defs)
qed

text \<open>The sample library computes 8 for every power of two, so that the target is 7.\<close>

lemma sample_target: "get_target (env_libm sample_env) (VTransaction sample_spending) = Inr 7"
proof -
  let ?p = "0x4020000000000000 :: float64" and ?one = "0x3FF0000000000000 :: float64"
  have e: "fl_exp ?p = 1026" "fl_frac ?p = 0" "fl_neg ?p = False"
    "fl_exp (fl_uminus ?one) = 1023" "fl_frac (fl_uminus ?one) = 0" "fl_neg (fl_uminus ?one) = True"
    by (simp_all add: fl_exp_def fl_frac_def fl_neg_def fl_uminus_def fl_pack_def)
  have one: "fl_scaled (fl_uminus ?one) = - fl_one" and eight: "fl_scaled ?p = 8 * fl_one"
    unfolding fl_scaled_def fl_mag_def e fl_one_def by simp_all
  have "fl_sub ?p ?one = fl_round False (\<bar>7\<bar> * fl_one) 1"
    by (simp add: fl_sub_def fl_add_def fl_nan_def fl_inf_def e one eight Let_def abs_mult)
  then have "fl_trunc (fl_sub ?p ?one) = Inr 7"
    using fl_round_int [of 7 False] isfinite_cases [of "fl_round False (7 * fl_one) 1"]
    by (simp add: fl_trunc_def fl_integral_def fl_scaled_def)
  moreover have "isfinite 0" by (simp add: isfinite_def fl_exp_def)
  ultimately show ?thesis
    by (simp add: get_target_def sample_env_def sample_spending_def base_transaction.defs)
qed

theorem verify_transaction_exact_witness:
  "verify sample_env sample_storage None (VTransaction sample_spending) = Some (Inr ())"
proof -
  let ?v = "VTransaction sample_spending"
  have pow: "pow_ok (env_libm sample_env) ?v"
    using sample_target by (simp add: pow_ok_def sample_spending_def base_transaction.defs from_be_def)
  have shape: "tx_shape_ok ?v"
    by (simp add: tx_shape_ok_def sample_spending_def get_token_index_def is_token_authority_def base_transaction.defs)
  have par: "distinct (parents sample_spending)" "parents_ok sample_env sample_storage ?v"
    by (simp_all add: parents_ok_def parent_ok_def sample_spending_def sample_storage_def sample_funding_def
        get_transaction_def base_transaction.defs)
  have "distinct (map input_key (inputs sample_spending))" "\<not> is_genesis sample_env ?v"
    "cache_valid sample_env sample_storage (timestamp sample_spending) None"
    by (simp_all add: sample_spending_def is_genesis_def is_genesis_hash_def sample_env_def cache_valid_def base_transaction.defs)
  with verify_transaction_exact [of sample_env sample_spending sample_storage None] pow shape par
    sample_input_ok sample_sums [unfolded tx_verify_sum_eq_Inr] show ?thesis by (simp add: base_transaction.defs)
qed

text \<open>
  C15: a block, merge-mined or not, that is not the genesis is accepted exactly when it solves its
  proof-of-work (the auxiliary one being well formed if it is merge-mined), has no inputs, at
  most 255 outputs, all of HTR, at most 100 bytes of data, and its parents are accepted.
\<close>

theorem verify_block_exact:
  assumes "is_block v" and "\<not> is_genesis env v"
  shows "verify env st cache v = Some (Inr ()) \<longleftrightarrow>
    (\<forall>b. v = VMergeMined b \<longrightarrow> verify_aux_pow (sha256 (env_crypto env)) b = Inr ()) \<and>
    pow_ok (env_libm env) v \<and> inputs (vertex_base v) = [] \<and> length (outputs (vertex_base v)) \<le> 255 \<and>
    list_all (\<lambda>out. get_token_index out \<le> 0) (outputs (vertex_base v)) \<and> length (vertex_data v) \<le> 100 \<and>
    distinct (parents (vertex_base v)) \<and> parents_ok env st v"
proof -
  have "pow_ok (env_libm env) v \<Longrightarrow> tx_hash (vertex_base v) \<noteq> None" by (auto simp: pow_ok_def)
  moreover have "verify env st cache v = Some (blk_verify env st v)" using assms(1) by (cases v) simp_all
  moreover have "(case v of VMergeMined b \<Rightarrow> verify_aux_pow (sha256 (env_crypto env)) b | _ \<Rightarrow> Inr ()) = Inr () \<longleftrightarrow>
      (\<forall>b. v = VMergeMined b \<longrightarrow> verify_aux_pow (sha256 (env_crypto env)) b = Inr ())" by (cases v) simp_all
  ultimately show ?thesis using assms(2)
    by (auto simp: blk_verify_def blk_verify_without_storage_def verify_no_inputs_def blk_verify_outputs_def
        verify_number_of_outputs_def verify_data_def verify_pow_eq_Inr verify_parents_eq_Inr result_iff list_all_iff
        MAX_NUM_OUTPUTS_def BLOCK_DATA_MAX_SIZE_def)
qed

theorem verify_block_exact_witness:
  "verify sample_env sample_storage None (VBlock sample_block) \<noteq> Some (Inr ())"
  using verify_block_exact [of "VBlock sample_block" sample_env sample_storage None]
  by (simp add: is_genesis_def is_genesis_hash_def sample_env_def parents_ok_def sample_block_def sample_storage_def
      get_transaction_def base_transaction.defs numeral_eq_Suc)

end
