(* ===== verification/Difficulty.thy ===== *)
theory Difficulty
  imports Py_Float
begin

text \<open>
  The measures of difficulty of \<^verbatim>\<open>hathor/difficulty.py\<close>: 256-bit numbers, hashes, compact Bitcoin
  targets, the two Bitcoin difficulties and logarithmic weights, with all conversions between
  them, and the addition of weights of \<^verbatim>\<open>base_transaction.py\<close>. An object of a class is the
  integer, the bytes or the double that it is; the constructors check and raise.
\<close>

subsection \<open>Sums of weights\<close>

definition aux_calc_weight :: "libm \<Rightarrow> float64 \<Rightarrow> float64 \<Rightarrow> float64 \<Rightarrow> float64 result" where
  "aux_calc_weight lm w1 w2 multiplier =
     (let a = fl_max w1 w2; b = fl_min w1 w2 in
      if fl_eq b 0 then Inr a
      else bindE (pow2 lm (fl_sub b a)) (\<lambda>p.
           bindE (log_2 lm (fl_add 0x3FF0000000000000 (fl_mul p multiplier))) (\<lambda>l.
           Inr (fl_add a l))))"

definition sum_weights :: "libm \<Rightarrow> float64 \<Rightarrow> float64 \<Rightarrow> float64 result" where
  "sum_weights lm w1 w2 = aux_calc_weight lm w1 w2 0x3FF0000000000000"

definition sub_weights :: "libm \<Rightarrow> float64 \<Rightarrow> float64 \<Rightarrow> float64 result" where
  "sub_weights lm w1 w2 = (if fl_eq w1 w2 then Inr 0 else aux_calc_weight lm w1 w2 0xBFF0000000000000)"

subsection \<open>Constructors\<close>

definition BDIFF_ONE :: int where "BDIFF_ONE = 0xFFFF * 2 ^ 208"
definition PDIFF_ONE :: int where "PDIFF_ONE = 2 ^ 224 - 1"
definition U256_MAX :: int where "U256_MAX = 2 ^ 256 - 1"
definition TARGET_MAX :: int where "TARGET_MAX = 0x1D00FFFF"

definition U256 :: "int \<Rightarrow> int result" where
  "U256 x =
     bindE (guardE (x \<le> U256_MAX) (PyE ValueError)) (\<lambda>_.
     bindE (guardE (0 \<le> x) (PyE ValueError)) (\<lambda>_. Inr x))"

text \<open>On a float the comparisons are exact and the conversion truncates.\<close>

definition U256_of_float :: "float64 \<Rightarrow> int result" where
  "U256_of_float x =
     bindE (guardE (\<not> (\<not> fl_nan x \<and> U256_MAX * fl_one < fl_scaled x)) (PyE ValueError)) (\<lambda>_.
     bindE (guardE (\<not> (\<not> fl_nan x \<and> fl_scaled x < 0)) (PyE ValueError)) (\<lambda>_.
     fl_trunc x))"

definition Target :: "int \<Rightarrow> int result" where
  "Target x =
     bindE (guardE (x \<le> TARGET_MAX) (PyE ValueError)) (\<lambda>_.
     bindE (guardE (0 \<le> x) (PyE ValueError)) (\<lambda>_. Inr x))"

definition Hash_of_bytes :: "bytes \<Rightarrow> bytes result" where
  "Hash_of_bytes b = bindE (guardE (length b = 32) (PyE ValueError)) (\<lambda>_. Inr b)"

definition Hash_of_int :: "int \<Rightarrow> bytes result" where
  "Hash_of_int x = bindE (int_to_bytes x 32) Hash_of_bytes"

subsection \<open>From and to 256-bit numbers\<close>

definition u256_to_hash :: "int \<Rightarrow> bytes result" where
  "u256_to_hash x = Hash_of_int x"

text \<open>The loop ends at 255 bytes at the latest.\<close>

function compact_loop :: "nat \<Rightarrow> int \<Rightarrow> nat \<times> int" where
  "compact_loop high_bits low_bits =
     (if 0xFFFFFF < low_bits \<and> high_bits < 0xFF then compact_loop (high_bits + 1) (low_bits div 256)
      else (high_bits, low_bits))"
  by pat_completeness auto
termination
  by (relation "measure (\<lambda>(high_bits, _). 255 - high_bits)") auto

declare compact_loop.simps [simp del]

definition u256_to_target :: "int \<Rightarrow> int result" where
  "u256_to_target x =
     (let (high_bits, low_bits) = compact_loop 3 x in
      bindE (guardE (high_bits \<le> 0xFF) (PyE AssertionError)) (\<lambda>_.
      bindE (guardE (low_bits \<le> 0xFFFFFF) (PyE AssertionError)) (\<lambda>_.
      Target (int high_bits * 2 ^ 24 + low_bits))))"

definition u256_to_bdiff :: "int \<Rightarrow> float64 result" where
  "u256_to_bdiff x = int_truediv BDIFF_ONE x"

definition u256_to_pdiff :: "int \<Rightarrow> float64 result" where
  "u256_to_pdiff x = int_truediv PDIFF_ONE x"

definition u256_to_weight :: "libm \<Rightarrow> int \<Rightarrow> float64 result" where
  "u256_to_weight lm x = bindE (log2_int lm (x + 1)) (\<lambda>l. Inr (fl_sub 0x4070000000000000 l))"

definition hash_to_u256 :: "bytes \<Rightarrow> int result" where
  "hash_to_u256 h = bindE (guardE (h \<noteq> []) (PyE ValueError)) (\<lambda>_. U256 (int (from_be h)))"

text \<open>A shift by a negative number of bits is a \<^verbatim>\<open>ValueError\<close>.\<close>

definition target_to_u256 :: "int \<Rightarrow> int result" where
  "target_to_u256 t =
     (let high_bits = t div 2 ^ 24; low_bits = t mod 2 ^ 24 in
      bindE (guardE (3 \<le> high_bits) (PyE ValueError)) (\<lambda>_.
      U256 (low_bits * 2 ^ (8 * nat (high_bits - 3)))))"

definition bdiff_to_u256 :: "float64 \<Rightarrow> int result" where
  "bdiff_to_u256 d = bindE (fl_of_int BDIFF_ONE) (\<lambda>one. bindE (fl_div one d) U256_of_float)"

definition pdiff_to_u256 :: "float64 \<Rightarrow> int result" where
  "pdiff_to_u256 d = bindE (fl_of_int PDIFF_ONE) (\<lambda>one. bindE (fl_div one d) U256_of_float)"

definition weight_to_u256 :: "libm \<Rightarrow> float64 \<Rightarrow> int result" where
  "weight_to_u256 lm w =
     bindE (pow2 lm (fl_sub 0x4070000000000000 w)) (\<lambda>p. U256_of_float (fl_sub p 0x3FF0000000000000))"

subsection \<open>The other conversions, through 256-bit numbers\<close>

definition hash_to_target :: "bytes \<Rightarrow> int result" where
  "hash_to_target h = bindE (hash_to_u256 h) u256_to_target"
definition hash_to_bdiff :: "bytes \<Rightarrow> float64 result" where
  "hash_to_bdiff h = bindE (hash_to_u256 h) u256_to_bdiff"
definition hash_to_pdiff :: "bytes \<Rightarrow> float64 result" where
  "hash_to_pdiff h = bindE (hash_to_u256 h) u256_to_pdiff"
definition hash_to_weight :: "libm \<Rightarrow> bytes \<Rightarrow> float64 result" where
  "hash_to_weight lm h = bindE (hash_to_u256 h) (u256_to_weight lm)"

definition target_to_hash :: "int \<Rightarrow> bytes result" where
  "target_to_hash t = bindE (target_to_u256 t) u256_to_hash"
definition target_to_bdiff :: "int \<Rightarrow> float64 result" where
  "target_to_bdiff t = bindE (target_to_u256 t) u256_to_bdiff"
definition target_to_pdiff :: "int \<Rightarrow> float64 result" where
  "target_to_pdiff t = bindE (target_to_u256 t) u256_to_pdiff"
definition target_to_weight :: "libm \<Rightarrow> int \<Rightarrow> float64 result" where
  "target_to_weight lm t = bindE (target_to_u256 t) (u256_to_weight lm)"

definition bdiff_to_hash :: "float64 \<Rightarrow> bytes result" where
  "bdiff_to_hash d = bindE (bdiff_to_u256 d) u256_to_hash"
definition bdiff_to_target :: "float64 \<Rightarrow> int result" where
  "bdiff_to_target d = bindE (bdiff_to_u256 d) u256_to_target"
definition bdiff_to_pdiff :: "float64 \<Rightarrow> float64 result" where
  "bdiff_to_pdiff d = bindE (bdiff_to_u256 d) u256_to_pdiff"
definition bdiff_to_weight :: "libm \<Rightarrow> float64 \<Rightarrow> float64 result" where
  "bdiff_to_weight lm d = bindE (bdiff_to_u256 d) (u256_to_weight lm)"

definition pdiff_to_hash :: "float64 \<Rightarrow> bytes result" where
  "pdiff_to_hash d = bindE (pdiff_to_u256 d) u256_to_hash"
definition pdiff_to_target :: "float64 \<Rightarrow> int result" where
  "pdiff_to_target d = bindE (pdiff_to_u256 d) u256_to_target"
definition pdiff_to_bdiff :: "float64 \<Rightarrow> float64 result" where
  "pdiff_to_bdiff d = bindE (pdiff_to_u256 d) u256_to_bdiff"
definition pdiff_to_weight :: "libm \<Rightarrow> float64 \<Rightarrow> float64 result" where
  "pdiff_to_weight lm d = bindE (pdiff_to_u256 d) (u256_to_weight lm)"

definition logsum :: "libm \<Rightarrow> float64 \<Rightarrow> float64 \<Rightarrow> float64 result" where
  "logsum lm w other = sum_weights lm w other"
definition weight_to_hash :: "libm \<Rightarrow> float64 \<Rightarrow> bytes result" where
  "weight_to_hash lm w = bindE (weight_to_u256 lm w) u256_to_hash"
definition weight_to_target :: "libm \<Rightarrow> float64 \<Rightarrow> int result" where
  "weight_to_target lm w = bindE (weight_to_u256 lm w) u256_to_target"
definition weight_to_bdiff :: "libm \<Rightarrow> float64 \<Rightarrow> float64 result" where
  "weight_to_bdiff lm w = bindE (weight_to_u256 lm w) u256_to_bdiff"
definition weight_to_pdiff :: "libm \<Rightarrow> float64 \<Rightarrow> float64 result" where
  "weight_to_pdiff lm w = bindE (weight_to_u256 lm w) u256_to_pdiff"

subsection \<open>Compact targets\<close>

text \<open>What the loop leaves: the number without its \<open>k\<close> last bytes, with the least \<open>k\<close> that leaves three.\<close>

lemma compact_loop_spec:
  assumes "0 \<le> x" and "high \<le> 255"
  shows "\<exists>k. compact_loop high x = (high + k, x div 256 ^ k) \<and> high + k \<le> 255 \<and>
    (high + k < 255 \<longrightarrow> x div 256 ^ k \<le> 0xFFFFFF) \<and> (k \<noteq> 0 \<longrightarrow> 2 ^ 16 * 256 ^ k \<le> x)"
  using assms
proof (induction high x rule: compact_loop.induct)
  case (1 high x)
  show ?case
  proof (cases "0xFFFFFF < x \<and> high < 0xFF")
    case True
    then have "0 \<le> x div 256" and "high + 1 \<le> 255" using 1(2) by (simp_all add: pos_imp_zdiv_nonneg_iff)
    from 1(1) [OF True this] obtain k where k: "compact_loop (high + 1) (x div 256) = (high + 1 + k, x div 256 div 256 ^ k)"
      "high + 1 + k \<le> 255" "high + 1 + k < 255 \<longrightarrow> x div 256 div 256 ^ k \<le> 0xFFFFFF"
      "k \<noteq> 0 \<longrightarrow> 2 ^ 16 * 256 ^ k \<le> x div 256" by blast
    have d: "x div 256 div 256 ^ k = x div 256 ^ Suc k" by (simp add: zdiv_zmult2_eq)
    have "2 ^ 16 * 256 ^ Suc k \<le> x"
    proof (cases "k = 0")
      case True
      then show ?thesis using \<open>0xFFFFFF < x \<and> high < 0xFF\<close> by simp
    next
      case False
      with k(4) have "2 ^ 16 * 256 ^ k * 256 \<le> x div 256 * 256" by simp
      also have "\<dots> \<le> x" using div_mult_mod_eq [of x 256] pos_mod_sign [of 256 x] by linarith
      finally show ?thesis by simp
    qed
    moreover have "compact_loop high x = (high + Suc k, x div 256 ^ Suc k)"
      using True k(1) by (subst compact_loop.simps) (simp add: d)
    moreover have "high + Suc k \<le> 255" and "high + Suc k < 255 \<longrightarrow> x div 256 ^ Suc k \<le> 0xFFFFFF"
      using k(2,3) unfolding d by simp_all
    ultimately show ?thesis by blast
  next
    case False
    then show ?thesis using 1(3) by (intro exI [of _ 0]) (auto simp: compact_loop.simps)
  qed
qed

lemma int_le_div_iff:
  assumes "0 < (d :: int)"
  shows "n \<le> x div d \<longleftrightarrow> n * d \<le> x"
proof
  assume "n \<le> x div d"
  then have "n * d \<le> x div d * d" using assms by simp
  also have "\<dots> \<le> x" using div_mult_mod_eq [of x d] pos_mod_sign [OF assms, of x] by linarith
  finally show "n * d \<le> x" .
next
  assume "n * d \<le> x"
  then show "n \<le> x div d" using zdiv_mono1 [OF _ assms, of "n * d" x] assms by simp
qed

lemma int_div_less_iff: "0 < (d :: int) \<Longrightarrow> x div d < n \<longleftrightarrow> x < n * d"
  using int_le_div_iff [of d n x] by linarith

text \<open>The number of dropped bytes is determined by the number.\<close>

definition dropped_bytes :: "int \<Rightarrow> nat \<Rightarrow> bool" where
  "dropped_bytes x k \<longleftrightarrow> x < 2 ^ 24 * 256 ^ k \<and> (k \<noteq> 0 \<longrightarrow> 2 ^ 16 * 256 ^ k \<le> x)"

lemma dropped_bytes_unique:
  assumes "dropped_bytes x k" and "dropped_bytes x k'"
  shows "k = k'"
proof -
  have False if "dropped_bytes x m" and "dropped_bytes x n" and "m < n" for m n
  proof -
    have "(2 :: int) ^ 24 * 256 ^ m = 2 ^ 16 * 256 ^ Suc m" by simp
    also have "\<dots> \<le> 2 ^ 16 * 256 ^ n"
      using that(3) by (intro mult_left_mono power_increasing) simp_all
    also have "\<dots> \<le> x" using that by (simp add: dropped_bytes_def)
    finally show False using that(1) by (simp add: dropped_bytes_def)
  qed
  then show ?thesis using assms by (meson linorder_neqE_nat)
qed

lemma dropped_bytes_bound:
  assumes "dropped_bytes x k" and "x < 2 ^ (8 * m + 16)"
  shows "k < m \<or> k = 0"
proof (rule ccontr)
  assume "\<not> (k < m \<or> k = 0)"
  then have "(2 :: int) ^ 16 * 256 ^ k \<le> x" and mk: "m \<le> k" using assms(1) by (simp_all add: dropped_bytes_def)
  with assms(2) have "(2 :: int) ^ 16 * 256 ^ k < 2 ^ (8 * m + 16)" by linarith
  also have "(2 :: int) ^ (8 * m + 16) = 2 ^ 16 * 256 ^ m" by (simp add: power_add power_mult)
  also have "\<dots> \<le> 2 ^ 16 * 256 ^ k" using mk by (intro mult_left_mono power_increasing) simp_all
  finally show False by simp
qed

lemma compact_loop_dropped:
  assumes "0 \<le> x" and "x \<le> U256_MAX"
  shows "\<exists>k < 30. compact_loop 3 x = (3 + k, x div 256 ^ k) \<and> dropped_bytes x k"
proof -
  have x: "x < 2 ^ (8 * 30 + 16)" using assms(2) by (simp add: U256_MAX_def)
  obtain k where k: "compact_loop 3 x = (3 + k, x div 256 ^ k)" "3 + k \<le> 255"
    "3 + k < 255 \<longrightarrow> x div 256 ^ k \<le> 0xFFFFFF" "k \<noteq> 0 \<longrightarrow> 2 ^ 16 * 256 ^ k \<le> x"
    using compact_loop_spec [OF assms(1), of 3] by auto
  have "k < 30"
  proof (rule ccontr)
    assume "\<not> k < 30"
    then have "(2 :: int) ^ 16 * 256 ^ 30 \<le> 2 ^ 16 * 256 ^ k" by (intro mult_left_mono power_increasing) simp_all
    also have "\<dots> \<le> x" using k(4) \<open>\<not> k < 30\<close> by simp
    finally show False using x by simp
  qed
  with k(3) have "x div 256 ^ k < 2 ^ 24" by simp
  then have "x < 2 ^ 24 * 256 ^ k" by (simp add: int_div_less_iff)
  with k \<open>k < 30\<close> show ?thesis by (auto simp: dropped_bytes_def)
qed

lemma compact_loop_eq:
  assumes "0 \<le> x" and "x \<le> U256_MAX" and "dropped_bytes x k"
  shows "compact_loop 3 x = (3 + k, x div 256 ^ k)"
  using compact_loop_dropped [OF assms(1,2)] dropped_bytes_unique [OF assms(3)] by blast

lemma dropped_bytes_round:
  assumes "0 \<le> x" and "dropped_bytes x k"
  shows "dropped_bytes (x - x mod 256 ^ k) k"
proof -
  have e: "x - x mod 256 ^ k = x div 256 ^ k * 256 ^ k" by (simp add: minus_mod_eq_div_mult)
  have "2 ^ 16 \<le> x div 256 ^ k" if "k \<noteq> 0"
    using assms(2) that by (simp add: dropped_bytes_def int_le_div_iff)
  moreover have "x - x mod 256 ^ k \<le> x" by simp
  ultimately show ?thesis
    using assms(2) unfolding dropped_bytes_def e by (auto simp: int_div_less_iff)
qed

lemma Target_eq_Inr [result_iff]: "Target x = Inr y \<longleftrightarrow> 0 \<le> x \<and> x \<le> TARGET_MAX \<and> y = x"
  by (auto simp: Target_def result_iff)

lemma U256_eq_Inr [result_iff]: "U256 x = Inr y \<longleftrightarrow> 0 \<le> x \<and> x \<le> U256_MAX \<and> y = x"
  by (auto simp: U256_def result_iff)

lemma u256_to_target_eq_Inr:
  assumes "0 \<le> x" and "x \<le> U256_MAX" and "dropped_bytes x k"
  shows "u256_to_target x = Inr t \<longleftrightarrow> k < 26 \<and> t = (3 + int k) * 2 ^ 24 + x div 256 ^ k"
proof -
  have l: "0 \<le> x div 256 ^ k" "x div 256 ^ k < 2 ^ 24"
    using assms by (simp_all add: dropped_bytes_def pos_imp_zdiv_nonneg_iff int_div_less_iff)
  have h: "2 ^ 16 \<le> x div 256 ^ k" if "k \<noteq> 0"
    using assms(3) that by (simp add: dropped_bytes_def int_le_div_iff)
  have "k < 30" using compact_loop_dropped [OF assms(1,2)] dropped_bytes_unique [OF assms(3)] by blast
  then have "u256_to_target x = Inr t \<longleftrightarrow>
      (3 + int k) * 2 ^ 24 + x div 256 ^ k \<le> TARGET_MAX \<and> t = (3 + int k) * 2 ^ 24 + x div 256 ^ k"
    using l by (auto simp: u256_to_target_def compact_loop_eq [OF assms] result_iff)
  moreover have "(3 + int k) * 2 ^ 24 + x div 256 ^ k \<le> TARGET_MAX \<longleftrightarrow> k < 26"
    using l h by (cases "k = 0") (auto simp: TARGET_MAX_def)
  ultimately show ?thesis by simp
qed

lemma target_to_u256_compact:
  assumes "0 \<le> l" and "l < 2 ^ 24" and "l * 256 ^ k \<le> U256_MAX"
  shows "target_to_u256 ((3 + int k) * 2 ^ 24 + l) = Inr (l * 256 ^ k)"
proof -
  have "((3 + int k) * 2 ^ 24 + l) div 2 ^ 24 = 3 + int k" and "((3 + int k) * 2 ^ 24 + l) mod 2 ^ 24 = l"
    using assms by (simp_all only: mod_mult_self3 div_mult_self3 mod_pos_pos_trivial div_pos_pos_trivial)
  then show ?thesis
    using assms by (simp add: target_to_u256_def result_iff power_mult)
qed

lemma dropped_bytes_26:
  assumes "dropped_bytes x k"
  shows "k < 26 \<longleftrightarrow> x < 2 ^ 224"
proof
  assume "x < 2 ^ 224"
  then show "k < 26" using dropped_bytes_bound [OF assms, of 26] by auto
next
  assume "k < 26"
  have "x < 2 ^ 24 * 256 ^ k" using assms by (simp add: dropped_bytes_def)
  also have "\<dots> \<le> 2 ^ 24 * 256 ^ 25"
    using \<open>k < 26\<close> by (intro mult_left_mono power_increasing) simp_all
  finally show "x < 2 ^ 224" by simp
qed

text \<open>
  C25: A 256-bit number has a compact target exactly when it is below \<open>2 ^ 224\<close>, the numbers above
  being refused with an exception. Reading the target back gives the number with some of its last
  bytes cleared, at least sixteen significant bits being kept, and writing that number again gives
  the same target: the conversion loses nothing more.
\<close>

theorem target_roundtrip:
  assumes "0 \<le> x" and "x \<le> U256_MAX"
  shows "((\<exists>t. u256_to_target x = Inr t) \<longleftrightarrow> x < 2 ^ 224) \<and>
    (\<forall>t. u256_to_target x = Inr t \<longrightarrow>
      (\<exists>k. target_to_u256 t = Inr (x - x mod 256 ^ k) \<and> (k = 0 \<or> 2 ^ 16 * 256 ^ k \<le> x) \<and>
        u256_to_target (x - x mod 256 ^ k) = Inr t))"
proof -
  obtain k where k: "dropped_bytes x k" using compact_loop_dropped [OF assms] by blast
  note iff = u256_to_target_eq_Inr [OF assms k]
  have "(\<exists>t. u256_to_target x = Inr t) \<longleftrightarrow> x < 2 ^ 224" unfolding iff dropped_bytes_26 [OF k] by simp
  moreover have "\<exists>k. target_to_u256 t = Inr (x - x mod 256 ^ k) \<and> (k = 0 \<or> 2 ^ 16 * 256 ^ k \<le> x) \<and>
      u256_to_target (x - x mod 256 ^ k) = Inr t" if t: "u256_to_target x = Inr t" for t
  proof -
    have e: "x - x mod 256 ^ k = x div 256 ^ k * 256 ^ k" by (simp add: minus_mod_eq_div_mult)
    have l: "0 \<le> x div 256 ^ k" "x div 256 ^ k < 2 ^ 24"
      using assms k by (simp_all add: dropped_bytes_def pos_imp_zdiv_nonneg_iff int_div_less_iff)
    have b: "0 \<le> x - x mod 256 ^ k" "x - x mod 256 ^ k \<le> U256_MAX"
      using assms pos_mod_sign [of "256 ^ k" x, OF zero_less_power] zmod_le_nonneg_dividend [of x "256 ^ k"] by linarith+
    have "target_to_u256 t = Inr (x - x mod 256 ^ k)"
      using target_to_u256_compact [OF l] b t unfolding iff e by simp
    moreover have "u256_to_target (x - x mod 256 ^ k) = Inr t"
      using t u256_to_target_eq_Inr [OF b dropped_bytes_round [OF assms(1) k], of t] unfolding iff by (simp add: e)
    ultimately show ?thesis
      using k by (auto simp: dropped_bytes_def)
  qed
  ultimately show ?thesis by blast
qed

theorem target_roundtrip_witness:
  "\<exists>k. target_to_u256 0x1B0404CB = Inr ((0x404CB * 256 ^ 24 + 5) - (0x404CB * 256 ^ 24 + 5) mod 256 ^ k)"
proof -
  have "compact_loop 3 (0x404CB * 256 ^ 24 + 5) = (27, 0x404CB)" by (simp add: compact_loop.simps)
  then have "u256_to_target (0x404CB * 256 ^ 24 + 5) = Inr 0x1B0404CB"
    by (simp add: u256_to_target_def result_iff TARGET_MAX_def)
  then show ?thesis using target_roundtrip [of "0x404CB * 256 ^ 24 + 5"] by (simp add: U256_MAX_def) blast
qed

end
