(* ===== verification/Rewards.thy ===== *)
theory Rewards
  imports Py_Float
begin

text \<open>
  The issuance of tokens (\<^verbatim>\<open>hathor/util.py\<close>, \<^verbatim>\<open>hathor/conf/settings.py\<close>): the reward of a block,
  halved at fixed heights down to a minimum, and the closed computation of all tokens mined up
  to a height, which is shown to be the sum of the rewards.
\<close>

record supply_settings =
  BLOCKS_PER_HALVING :: "int option"
  INITIAL_TOKEN_UNITS_PER_BLOCK :: int
  MINIMUM_TOKEN_UNITS_PER_BLOCK :: int

definition DECIMAL_PLACES :: nat where "DECIMAL_PLACES = 2"

definition mainnet_supply :: supply_settings where
  "mainnet_supply = \<lparr>BLOCKS_PER_HALVING = Some (2 * 60 * 24 * 365), INITIAL_TOKEN_UNITS_PER_BLOCK = 64,
     MINIMUM_TOKEN_UNITS_PER_BLOCK = 8\<rparr>"

definition INITIAL_TOKENS_PER_BLOCK :: "supply_settings \<Rightarrow> int" where
  "INITIAL_TOKENS_PER_BLOCK s = INITIAL_TOKEN_UNITS_PER_BLOCK s * 10 ^ DECIMAL_PLACES"

definition MINIMUM_TOKENS_PER_BLOCK :: "supply_settings \<Rightarrow> int" where
  "MINIMUM_TOKENS_PER_BLOCK s = MINIMUM_TOKEN_UNITS_PER_BLOCK s * 10 ^ DECIMAL_PLACES"

definition MAXIMUM_NUMBER_OF_HALVINGS :: "libm \<Rightarrow> supply_settings \<Rightarrow> int result" where
  "MAXIMUM_NUMBER_OF_HALVINGS lm s =
     bindE (fl_of_int (INITIAL_TOKEN_UNITS_PER_BLOCK s)) (\<lambda>i.
     bindE (log_2 lm i) (\<lambda>li.
     bindE (fl_of_int (MINIMUM_TOKEN_UNITS_PER_BLOCK s)) (\<lambda>m.
     bindE (log_2 lm m) (\<lambda>lmin.
     fl_trunc (fl_sub li lmin)))))"

text \<open>\<^verbatim>\<open>//\<close> rounds down and raises on zero.\<close>

definition halvings_at :: "int \<Rightarrow> int \<Rightarrow> int result" where
  "halvings_at n height =
     bindE (guardE (n \<noteq> 0) (PyE ZeroDivisionError)) (\<lambda>_. Inr (max 0 ((height - 1) div n)))"

definition get_tokens_issued_per_block :: "libm \<Rightarrow> supply_settings \<Rightarrow> int \<Rightarrow> int result" where
  "get_tokens_issued_per_block lm s height =
     (case BLOCKS_PER_HALVING s of
        None \<Rightarrow>
          bindE (guardE (MINIMUM_TOKENS_PER_BLOCK s = INITIAL_TOKENS_PER_BLOCK s) (PyE AssertionError)) (\<lambda>_.
          Inr (MINIMUM_TOKENS_PER_BLOCK s))
      | Some n \<Rightarrow>
          bindE (halvings_at n height) (\<lambda>number_of_halvings.
          bindE (MAXIMUM_NUMBER_OF_HALVINGS lm s) (\<lambda>maximum.
          if maximum < number_of_halvings then Inr (MINIMUM_TOKENS_PER_BLOCK s)
          else Inr (max (INITIAL_TOKENS_PER_BLOCK s div 2 ^ nat number_of_halvings)
                        (MINIMUM_TOKENS_PER_BLOCK s)))))"

text \<open>One round of the loop over the past halvings: the tokens mined and the current reward.\<close>

definition halving_step :: "supply_settings \<Rightarrow> int \<Rightarrow> int \<times> int \<Rightarrow> int \<times> int" where
  "halving_step s n = (\<lambda>(mined_tokens, tokens_per_block).
     (mined_tokens + n * tokens_per_block, max (tokens_per_block div 2) (MINIMUM_TOKENS_PER_BLOCK s)))"

definition get_mined_tokens :: "supply_settings \<Rightarrow> int \<Rightarrow> int result" where
  "get_mined_tokens s height =
     bindE (of_option (PyE AssertionError) (BLOCKS_PER_HALVING s)) (\<lambda>n.
     bindE (halvings_at n height) (\<lambda>number_of_halvings.
     let blocks_in_this_halving = height - number_of_halvings * n;
         (mined_tokens, tokens_per_block) =
           (halving_step s n ^^ nat number_of_halvings) (0, INITIAL_TOKENS_PER_BLOCK s)
     in Inr (mined_tokens + blocks_in_this_halving * tokens_per_block)))"

subsection \<open>The reward after a number of halvings\<close>

definition reward :: "supply_settings \<Rightarrow> nat \<Rightarrow> int" where
  "reward s j = max (INITIAL_TOKENS_PER_BLOCK s div 2 ^ j) (MINIMUM_TOKENS_PER_BLOCK s)"

text \<open>Settings with which halving ends at the minimum, at the computed number of halvings or before.\<close>

definition halving_ok :: "libm \<Rightarrow> supply_settings \<Rightarrow> bool" where
  "halving_ok lm s \<longleftrightarrow> 0 \<le> MINIMUM_TOKENS_PER_BLOCK s \<and> MINIMUM_TOKENS_PER_BLOCK s \<le> INITIAL_TOKENS_PER_BLOCK s \<and>
     (case MAXIMUM_NUMBER_OF_HALVINGS lm s of
        Inl _ \<Rightarrow> False
      | Inr k \<Rightarrow> 0 \<le> k \<and> INITIAL_TOKENS_PER_BLOCK s div 2 ^ (nat k + 1) \<le> MINIMUM_TOKENS_PER_BLOCK s)"

lemma reward_Suc:
  assumes "0 \<le> MINIMUM_TOKENS_PER_BLOCK s"
  shows "max (reward s j div 2) (MINIMUM_TOKENS_PER_BLOCK s) = reward s (Suc j)"
proof -
  have "INITIAL_TOKENS_PER_BLOCK s div 2 ^ Suc j = INITIAL_TOKENS_PER_BLOCK s div 2 ^ j div 2"
    by (simp only: power_Suc2) (simp add: zdiv_zmult2_eq)
  moreover have "max a m div 2 \<le> m \<longleftrightarrow> a div 2 \<le> m" "m \<le> a \<Longrightarrow> max a m div 2 = a div 2"
    if "0 \<le> m" for a m :: int
    using that by (auto simp: max_def)
  ultimately show ?thesis using assms by (auto simp: reward_def max_def)
qed

lemma reward_final:
  assumes "INITIAL_TOKENS_PER_BLOCK s div 2 ^ (k + 1) \<le> MINIMUM_TOKENS_PER_BLOCK s"
    and "0 \<le> INITIAL_TOKENS_PER_BLOCK s" and "k < j"
  shows "reward s j = MINIMUM_TOKENS_PER_BLOCK s"
proof -
  have "INITIAL_TOKENS_PER_BLOCK s div 2 ^ j \<le> INITIAL_TOKENS_PER_BLOCK s div 2 ^ (k + 1)"
    using assms(2,3) power_increasing [of "k + 1" j "2 :: int"] by (intro zdiv_mono2) simp_all
  with assms(1) show ?thesis by (simp add: reward_def)
qed

lemma issued_eq_reward:
  assumes "BLOCKS_PER_HALVING s = Some n" and "0 < n" and "halving_ok lm s"
  shows "get_tokens_issued_per_block lm s h = Inr (reward s (nat (max 0 ((h - 1) div n))))"
proof -
  obtain k where k: "MAXIMUM_NUMBER_OF_HALVINGS lm s = Inr k" "0 \<le> k"
    "INITIAL_TOKENS_PER_BLOCK s div 2 ^ (nat k + 1) \<le> MINIMUM_TOKENS_PER_BLOCK s"
    and m: "0 \<le> INITIAL_TOKENS_PER_BLOCK s"
    using assms(3) by (auto simp: halving_ok_def split: sum.splits)
  define j where "j = max 0 ((h - 1) div n)"
  have "reward s (nat j) = MINIMUM_TOKENS_PER_BLOCK s" if "k < j"
    using reward_final [OF k(3) m, of "nat j"] k(2) that by (simp add: nat_less_eq_zless)
  then show ?thesis
    using assms(1,2) k(1) unfolding j_def [symmetric]
    by (simp add: get_tokens_issued_per_block_def halvings_at_def guardE_def j_def [symmetric]) (simp add: reward_def)
qed

lemma halving_steps:
  assumes "0 \<le> MINIMUM_TOKENS_PER_BLOCK s" and "MINIMUM_TOKENS_PER_BLOCK s \<le> INITIAL_TOKENS_PER_BLOCK s"
  shows "(halving_step s n ^^ j) (0, INITIAL_TOKENS_PER_BLOCK s) = (n * (\<Sum>i<j. reward s i), reward s j)"
proof (induction j)
  case 0
  then show ?case using assms by (simp add: reward_def)
next
  case (Suc j)
  then show ?case by (simp add: halving_step_def reward_Suc [OF assms(1)] distrib_left)
qed

text \<open>The closed form, and how it grows by one reward per block.\<close>

definition mined :: "supply_settings \<Rightarrow> int \<Rightarrow> int \<Rightarrow> int" where
  "mined s n h = (let j = nat (max 0 ((h - 1) div n)) in
     n * (\<Sum>i<j. reward s i) + (h - int j * n) * reward s j)"

lemma get_mined_tokens_eq:
  assumes "BLOCKS_PER_HALVING s = Some n" and "0 < n" and "halving_ok lm s"
  shows "get_mined_tokens s h = Inr (mined s n h)"
  using assms halving_steps [where s = s and n = n]
  by (simp add: get_mined_tokens_def halvings_at_def halving_ok_def mined_def Let_def of_option_def guardE_def)

lemma mined_Suc:
  assumes "0 < n" and "0 \<le> h"
  shows "mined s n (h + 1) = mined s n h + reward s (nat (h div n))"
proof (cases "h = 0")
  case True
  have "- 1 div n < 0" using assms(1) by (simp add: div_neg_pos_less0)
  then show ?thesis using True by (simp add: mined_def Let_def)
next
  case False
  then have nonneg: "0 \<le> (h - 1) div n" "0 \<le> h div n" using assms by (simp_all add: pos_imp_zdiv_nonneg_iff)
  show ?thesis
  proof (cases "h mod n = 0")
    case True
    define j where "j = nat ((h - 1) div n)"
    have "h = h div n * n" using True by auto
    have "(h - 1) div n = h div n - 1"
      using True assms by (intro int_div_pos_eq [of _ _ _ "n - 1"]) (auto simp: algebra_simps)
    then have q: "(h - 1) div n = int j" "h div n = int j + 1" using nonneg by (simp_all add: j_def)
    then have "h - int j * n = n" using \<open>h = h div n * n\<close> by (simp add: distrib_right)
    then show ?thesis by (simp add: mined_def Let_def q nat_add_distrib distrib_left)
      (simp add: algebra_simps)
  next
    case False
    then have "(h - 1) div n = h div n"
      using assms mod_pos_pos_trivial pos_mod_bound [OF assms(1), of h] pos_mod_sign [OF assms(1), of h]
      by (intro int_div_pos_eq [of _ _ _ "h mod n - 1"]) (auto simp: algebra_simps)
    then show ?thesis using nonneg by (simp add: mined_def Let_def algebra_simps)
  qed
qed

lemma mined_sum:
  assumes "0 < n"
  shows "mined s n (int h) = (\<Sum>i = 1..int h. reward s (nat ((i - 1) div n)))"
proof (induction h)
  case 0
  have "- 1 div n < 0" using assms by (simp add: div_neg_pos_less0)
  then show ?case by (simp add: mined_def Let_def)
next
  case (Suc h)
  have "{1..int (Suc h)} = insert (int h + 1) {1..int h}" by auto
  then show ?case using Suc mined_Suc [OF assms, of "int h"] by (simp add: add.commute)
qed

text \<open>
  C26: The number of mined tokens reported for a height is the sum of the rewards of the blocks up to
  that height, whatever the halving settings, as long as the computed maximum number of halvings
  reaches the minimum reward.
\<close>

theorem mined_tokens_sum:
  assumes "BLOCKS_PER_HALVING s = Some n" and "0 < n" and "halving_ok lm s" and "0 \<le> height"
  shows "\<exists>issued. (\<forall>i. 1 \<le> i \<longrightarrow> get_tokens_issued_per_block lm s i = Inr (issued i)) \<and>
    get_mined_tokens s height = Inr (\<Sum>i = 1..height. issued i)"
proof (intro exI conjI allI impI)
  fix i :: int
  assume "1 \<le> i"
  then have "0 \<le> (i - 1) div n" using assms(2) by (simp add: pos_imp_zdiv_nonneg_iff)
  then show "get_tokens_issued_per_block lm s i = Inr (reward s (nat ((i - 1) div n)))"
    using issued_eq_reward [OF assms(1-3), of i] by simp
next
  show "get_mined_tokens s height = Inr (\<Sum>i = 1..height. reward s (nat ((i - 1) div n)))"
    using get_mined_tokens_eq [OF assms(1-3)] mined_sum [OF assms(2), of s "nat height"] assms(4) by simp
qed

text \<open>The settings of mainnet, with a library whose logarithms of 64 and 8 are 6 and 3.\<close>

definition sample_libm :: libm where
  "sample_libm = \<lparr>pow2 = (\<lambda>x. Inr 0),
     log_2 = (\<lambda>x. if fl_scaled x = 64 * fl_one then fl_of_int 6 else fl_of_int 3), log2_int = (\<lambda>x. Inr 0)\<rparr>"

lemma mainnet_halvings: "MAXIMUM_NUMBER_OF_HALVINGS sample_libm mainnet_supply = Inr 3"
proof -
  have e: "\<exists>w. fl_of_int i = Inr w \<and> fl_is_int w i" if "\<bar>i\<bar> \<le> 2 ^ 53" for i
    using fl_of_int_is_int [OF that] by blast
  obtain i m l k where "fl_of_int 64 = Inr i" "fl_is_int i 64" "fl_of_int 8 = Inr m" "fl_is_int m 8"
    "fl_of_int 6 = Inr l" "fl_is_int l 6" "fl_of_int 3 = Inr k" "fl_is_int k 3"
    using e [of 64] e [of 8] e [of 6] e [of 3] by auto
  moreover from this have "fl_trunc (fl_sub l k) = Inr 3"
    using fl_trunc_is_int [OF fl_sub_is_int, of l 6 k 3] by simp
  ultimately show ?thesis
    using fl_one_pos
    by (simp add: MAXIMUM_NUMBER_OF_HALVINGS_def mainnet_supply_def sample_libm_def fl_is_int_def)
qed

lemma mainnet_halving_ok: "halving_ok sample_libm mainnet_supply"
  by (simp add: halving_ok_def mainnet_halvings)
    (simp add: mainnet_supply_def MINIMUM_TOKENS_PER_BLOCK_def INITIAL_TOKENS_PER_BLOCK_def DECIMAL_PLACES_def)

theorem mined_tokens_sum_witness:
  "\<exists>issued. (\<forall>i. 1 \<le> i \<longrightarrow> get_tokens_issued_per_block sample_libm mainnet_supply i = Inr (issued i)) \<and>
    get_mined_tokens mainnet_supply 2000000 = Inr (\<Sum>i = 1..2000000. issued i)"
  using mined_tokens_sum [OF _ _ mainnet_halving_ok, of 1051200 2000000] by (simp add: mainnet_supply_def)

end
