(* ===== verification/Heapq.thy ===== *)
theory Heapq
  imports Main "HOL-Library.Multiset"
begin

text \<open>
  Python's \<^verbatim>\<open>heapq\<close> on a list: \<^verbatim>\<open>heappush\<close> and \<^verbatim>\<open>heappop\<close> with the library's sifting, which decides in
  which order items of equal keys come out. Items are compared by a key.
\<close>

definition swap :: "'a list \<Rightarrow> nat \<Rightarrow> nat \<Rightarrow> 'a list" where
  "swap xs i j = xs[i := xs ! j, j := xs ! i]"

text \<open>\<^verbatim>\<open>_siftdown\<close> moves an item towards the root while it is less than its parent.\<close>

fun siftdown :: "('a \<Rightarrow> 'k :: linorder) \<Rightarrow> nat \<Rightarrow> 'a list \<Rightarrow> 'a list" where
  "siftdown key pos xs =
     (if 0 < pos \<and> key (xs ! pos) < key (xs ! ((pos - 1) div 2))
      then siftdown key ((pos - 1) div 2) (swap xs ((pos - 1) div 2) pos)
      else xs)"

declare siftdown.simps [simp del]

text \<open>\<^verbatim>\<open>_siftup\<close> moves an item down to a leaf, the smaller child going up, and then back by \<^verbatim>\<open>_siftdown\<close>.\<close>

definition smaller_child :: "('a \<Rightarrow> 'k :: linorder) \<Rightarrow> nat \<Rightarrow> 'a list \<Rightarrow> nat" where
  "smaller_child key pos xs =
     (if 2 * pos + 2 < length xs \<and> \<not> key (xs ! (2 * pos + 1)) < key (xs ! (2 * pos + 2))
      then 2 * pos + 2 else 2 * pos + 1)"

function siftup :: "('a \<Rightarrow> 'k :: linorder) \<Rightarrow> nat \<Rightarrow> 'a list \<Rightarrow> 'a list" where
  "siftup key pos xs =
     (if pos < length xs div 2
      then siftup key (smaller_child key pos xs) (swap xs (smaller_child key pos xs) pos)
      else siftdown key pos xs)"
  by pat_completeness auto
termination
  by (relation "measure (\<lambda>(_, pos, xs). length xs - pos)") (auto simp: swap_def smaller_child_def)

declare siftup.simps [simp del]

definition heappush :: "('a \<Rightarrow> 'k :: linorder) \<Rightarrow> 'a list \<Rightarrow> 'a \<Rightarrow> 'a list" where
  "heappush key heap item = siftdown key (length heap) (heap @ [item])"

fun heappop :: "('a \<Rightarrow> 'k :: linorder) \<Rightarrow> 'a list \<Rightarrow> ('a \<times> 'a list) option" where
  "heappop key [] = None"
| "heappop key [x] = Some (x, [])"
| "heappop key (x # y # xs) = Some (x, siftup key 0 (last (y # xs) # butlast (y # xs)))"

subsection \<open>Contents\<close>

lemma length_swap [simp]: "length (swap xs i j) = length xs"
  by (simp add: swap_def)

lemma mset_swap_eq [simp]: "i < length xs \<Longrightarrow> j < length xs \<Longrightarrow> mset (swap xs i j) = mset xs"
  unfolding swap_def by (metis mset_swap)

lemma nth_swap: "i < length xs \<Longrightarrow> j < length xs \<Longrightarrow>
    swap xs i j ! k = (if k = j then xs ! i else if k = i then xs ! j else xs ! k)"
  by (auto simp: swap_def nth_list_update)

lemma length_siftdown [simp]: "length (siftdown key pos xs) = length xs"
  by (induction key pos xs rule: siftdown.induct) (subst siftdown.simps, simp)

lemma mset_siftdown: "pos < length xs \<Longrightarrow> mset (siftdown key pos xs) = mset xs"
proof (induction key pos xs rule: siftdown.induct)
  case (1 key pos xs)
  then show ?case by (subst siftdown.simps) auto
qed

lemma smaller_child_bounds:
  "pos < length xs div 2 \<Longrightarrow> smaller_child key pos xs < length xs \<and> pos < smaller_child key pos xs"
  by (auto simp: smaller_child_def)

lemma mset_siftup: "pos < length xs \<Longrightarrow> mset (siftup key pos xs) = mset xs"
proof (induction key pos xs rule: siftup.induct)
  case (1 key pos xs)
  then show ?case using smaller_child_bounds [of pos xs key]
    by (subst siftup.simps) (auto simp: mset_siftdown)
qed

lemma mset_heappush: "mset (heappush key h x) = add_mset x (mset h)"
  by (simp add: heappush_def mset_siftdown)

lemma mset_heappop: "heappop key h = Some (x, h') \<Longrightarrow> mset h = add_mset x (mset h')"
proof (induction key h rule: heappop.induct)
  case (3 key a y xs)
  have "mset (siftup key 0 (last (y # xs) # butlast (y # xs))) = mset (last (y # xs) # butlast (y # xs))"
    by (rule mset_siftup) simp
  also have "\<dots> = mset (butlast (y # xs) @ [last (y # xs)])" by simp
  also have "\<dots> = mset (y # xs)" using append_butlast_last_id [of "y # xs"] by (metis list.distinct(1))
  finally show ?case using 3 by simp
qed simp_all

lemma heappop_None_iff: "heappop key h = None \<longleftrightarrow> h = []"
  by (cases "(key, h)" rule: heappop.cases) simp_all

subsection \<open>The heap order\<close>

text \<open>No item is less than its parent; the sifts break this at one position.\<close>

definition child_ok :: "('a \<Rightarrow> 'k :: linorder) \<Rightarrow> 'a list \<Rightarrow> nat \<Rightarrow> bool" where
  "child_ok key xs i \<longleftrightarrow> key (xs ! ((i - 1) div 2)) \<le> key (xs ! i)"

definition is_heap :: "('a \<Rightarrow> 'k :: linorder) \<Rightarrow> 'a list \<Rightarrow> bool" where
  "is_heap key xs \<longleftrightarrow> (\<forall>i. 0 < i \<and> i < length xs \<longrightarrow> child_ok key xs i)"

text \<open>The grandparent of a child of the broken position is not greater than the child.\<close>

definition bridge :: "('a \<Rightarrow> 'k :: linorder) \<Rightarrow> nat \<Rightarrow> 'a list \<Rightarrow> bool" where
  "bridge key pos xs \<longleftrightarrow> (\<forall>c. 0 < pos \<and> 0 < c \<and> c < length xs \<and> (c - 1) div 2 = pos \<longrightarrow>
     key (xs ! ((pos - 1) div 2)) \<le> key (xs ! c))"

definition heap_above :: "('a \<Rightarrow> 'k :: linorder) \<Rightarrow> nat \<Rightarrow> 'a list \<Rightarrow> bool" where
  "heap_above key pos xs \<longleftrightarrow>
     (\<forall>i. 0 < i \<and> i < length xs \<and> i \<noteq> pos \<longrightarrow> child_ok key xs i) \<and> bridge key pos xs"

definition heap_around :: "('a \<Rightarrow> 'k :: linorder) \<Rightarrow> nat \<Rightarrow> 'a list \<Rightarrow> bool" where
  "heap_around key pos xs \<longleftrightarrow>
     (\<forall>i. 0 < i \<and> i < length xs \<and> i \<noteq> pos \<and> (i - 1) div 2 \<noteq> pos \<longrightarrow> child_ok key xs i) \<and> bridge key pos xs"

lemma parent_less: "0 < i \<Longrightarrow> (i - 1) div 2 < (i :: nat)"
  by auto

lemma siftdown_step:
  assumes "heap_above key pos xs" and "0 < pos" and "pos < length xs" and "\<not> child_ok key xs pos"
  shows "heap_above key ((pos - 1) div 2) (swap xs ((pos - 1) div 2) pos)"
proof -
  let ?p = "(pos - 1) div 2" and ?ys = "swap xs ((pos - 1) div 2) pos"
  have p: "?p < pos" using assms(2) by auto
  have nth: "?ys ! k = (if k = pos then xs ! ?p else if k = ?p then xs ! pos else xs ! k)" for k
    using p assms(3) by (simp add: nth_swap)
  have ok: "child_ok key xs i" if "0 < i" "i < length xs" "i \<noteq> pos" for i
    using assms(1) that by (simp add: heap_above_def)
  have less: "key (xs ! pos) < key (xs ! ?p)" using assms(4) by (simp add: child_ok_def)
  have up: "key (xs ! ?p) \<le> key (xs ! c)" if "0 < c" "c < length xs" "(c - 1) div 2 = pos" for c
    using assms(1,2) that by (simp add: heap_above_def bridge_def)
  have "child_ok key ?ys i" if i: "0 < i" "i < length xs" "i \<noteq> ?p" for i
  proof -
    have "i = pos \<or> (i - 1) div 2 = pos \<or> i \<noteq> pos \<and> (i - 1) div 2 = ?p \<or> i \<noteq> pos \<and> (i - 1) div 2 \<noteq> pos \<and> (i - 1) div 2 \<noteq> ?p"
      by auto
    moreover have "(i - 1) div 2 \<noteq> pos" if "i = pos" using assms(2) that by auto
    ultimately show ?thesis
      using ok [of i] i less up [of i] p unfolding child_ok_def nth by (auto split: if_splits)
  qed
  moreover have "bridge key ?p ?ys"
    unfolding bridge_def
  proof (intro allI impI)
    fix c
    assume c: "0 < ?p \<and> 0 < c \<and> c < length ?ys \<and> (c - 1) div 2 = ?p"
    have "key (xs ! ((?p - 1) div 2)) \<le> key (xs ! ?p)" using ok [of ?p] c p assms(3) by (simp add: child_ok_def)
    moreover have "key (xs ! ?p) \<le> key (xs ! c)" if "c \<noteq> pos" using ok [of c] c that by (simp add: child_ok_def)
    moreover have "(?p - 1) div 2 < ?p" "c \<noteq> ?p" using c parent_less [of ?p] parent_less [of c] by auto
    ultimately show "key (?ys ! ((?p - 1) div 2)) \<le> key (?ys ! c)" unfolding nth using p by auto
  qed
  ultimately show ?thesis unfolding heap_above_def by simp
qed

lemma siftdown_heap: "pos < length xs \<Longrightarrow> heap_above key pos xs \<Longrightarrow> is_heap key (siftdown key pos xs)"
proof (induction key pos xs rule: siftdown.induct)
  case (1 key pos xs)
  show ?case
  proof (cases "0 < pos \<and> key (xs ! pos) < key (xs ! ((pos - 1) div 2))")
    case True
    then have "heap_above key ((pos - 1) div 2) (swap xs ((pos - 1) div 2) pos)"
      using siftdown_step [of key pos xs] 1(2,3) by (simp add: child_ok_def not_le)
    then have "is_heap key (siftdown key ((pos - 1) div 2) (swap xs ((pos - 1) div 2) pos))"
      using True 1(2) by (intro 1(1)) auto
    then show ?thesis using True by (subst siftdown.simps) simp
  next
    case False
    then have "is_heap key xs" using 1(3) by (auto simp: is_heap_def heap_above_def child_ok_def not_less)
    then show ?thesis using False by (subst siftdown.simps) auto
  qed
qed

lemma siftup_step:
  assumes "heap_around key pos xs" and "pos < length xs div 2"
  shows "heap_around key (smaller_child key pos xs) (swap xs (smaller_child key pos xs) pos)"
proof -
  let ?c = "smaller_child key pos xs" and ?ys = "swap xs (smaller_child key pos xs) pos"
  note c = smaller_child_bounds [OF assms(2), of key]
  have pc: "(?c - 1) div 2 = pos" by (simp add: smaller_child_def)
  have nth: "?ys ! k = (if k = pos then xs ! ?c else if k = ?c then xs ! pos else xs ! k)" for k
    using c assms(2) by (simp add: nth_swap)
  have ok: "child_ok key xs i" if "0 < i" "i < length xs" "i \<noteq> pos" "(i - 1) div 2 \<noteq> pos" for i
    using assms(1) that by (simp add: heap_around_def)
  have up: "key (xs ! ((pos - 1) div 2)) \<le> key (xs ! i)" if "0 < pos" "0 < i" "i < length xs" "(i - 1) div 2 = pos" for i
    using assms(1) that by (simp add: heap_around_def bridge_def)
  have least: "key (xs ! ?c) \<le> key (xs ! i)" if "0 < i" "i < length xs" "(i - 1) div 2 = pos" for i
  proof -
    have "i = 2 * pos + 1 \<or> i = 2 * pos + 2" using that by presburger
    then show ?thesis using that by (auto simp: smaller_child_def)
  qed
  have "child_ok key ?ys i" if i: "0 < i" "i < length xs" "i \<noteq> ?c" "(i - 1) div 2 \<noteq> ?c" for i
  proof -
    have "(i - 1) div 2 < i" using i(1) by auto
    then show ?thesis
      using ok [of i] up [of ?c] least [of i] i c pc unfolding child_ok_def nth by (auto split: if_splits)
  qed
  moreover have "bridge key ?c ?ys"
    unfolding bridge_def pc
  proof (intro allI impI)
    fix i
    assume i: "0 < ?c \<and> 0 < i \<and> i < length ?ys \<and> (i - 1) div 2 = ?c"
    then have "?c < i" by auto
    then show "key (?ys ! pos) \<le> key (?ys ! i)"
      using ok [of i] i c unfolding nth child_ok_def by auto
  qed
  ultimately show ?thesis unfolding heap_around_def by simp
qed

lemma siftup_heap: "pos < length xs \<Longrightarrow> heap_around key pos xs \<Longrightarrow> is_heap key (siftup key pos xs)"
proof (induction key pos xs rule: siftup.induct)
  case (1 key pos xs)
  show ?case
  proof (cases "pos < length xs div 2")
    case True
    then show ?thesis
      using 1(1) [OF True] siftup_step [OF 1(3) True] smaller_child_bounds [OF True, of key]
      by (subst siftup.simps) simp
  next
    case False
    then have "(i - 1) div 2 \<noteq> pos" if "0 < i" "i < length xs" for i using that by auto
    then have "heap_above key pos xs" using 1(3) by (auto simp: heap_above_def heap_around_def)
    then show ?thesis using siftdown_heap [OF 1(2)] False by (subst siftup.simps) simp
  qed
qed

lemma is_heap_Nil [simp]: "is_heap key []"
  by (simp add: is_heap_def)

lemma heap_heappush:
  assumes "is_heap key h"
  shows "is_heap key (heappush key h x)"
proof -
  have "child_ok key (h @ [x]) i" if "0 < i" "i < length (h @ [x])" "i \<noteq> length h" for i
  proof -
    have "i < length h" "(i - 1) div 2 < length h" using that by auto
    then show ?thesis using assms that by (simp add: is_heap_def child_ok_def nth_append)
  qed
  then have "heap_above key (length h) (h @ [x])"
    by (auto simp: heap_above_def bridge_def)
  then show ?thesis unfolding heappush_def by (intro siftdown_heap) simp_all
qed

lemma is_heap_root:
  assumes "is_heap key h" and "i < length h"
  shows "key (h ! 0) \<le> key (h ! i)"
  using assms(2)
proof (induction i rule: less_induct)
  case (less i)
  show ?case
  proof (cases "i = 0")
    case False
    then have "(i - 1) div 2 < i" by auto
    with less have "key (h ! 0) \<le> key (h ! ((i - 1) div 2))" by simp
    also have "\<dots> \<le> key (h ! i)" using assms(1) less(2) False by (simp add: is_heap_def child_ok_def)
    finally show ?thesis .
  qed simp
qed

lemma heap_heappop:
  assumes "is_heap key h" and "heappop key h = Some (x, h')"
  shows "is_heap key h'" and "\<forall>y \<in> set h. key x \<le> key y"
proof -
  have "is_heap key h' \<and> x = h ! 0"
    using assms
  proof (induction key h rule: heappop.induct)
    case (3 key a y xs)
    let ?ys = "last (y # xs) # butlast (y # xs)"
    have "child_ok key ?ys i" if i: "0 < i" "i < length ?ys" "(i - 1) div 2 \<noteq> 0" for i
    proof -
      have n: "?ys ! k = (a # y # xs) ! k" if "0 < k" "k < length ?ys" for k
        using that nth_butlast [of "k - 1" "y # xs"] by (cases k) simp_all
      have "0 < (i - 1) div 2" "(i - 1) div 2 < length ?ys" using i by auto
      moreover have "child_ok key (a # y # xs) i" using 3(1) i by (auto simp: is_heap_def split: if_splits)
      ultimately show ?thesis unfolding child_ok_def n [OF i(1,2)] by (simp only: n)
    qed
    then have "heap_around key 0 ?ys" by (auto simp: heap_around_def bridge_def)
    then have "is_heap key (siftup key 0 ?ys)" by (intro siftup_heap) simp
    then show ?case using 3(2) by simp
  qed simp_all
  then show "is_heap key h'" and "\<forall>y \<in> set h. key x \<le> key y"
    using is_heap_root [OF assms(1)] by (auto simp: in_set_conv_nth)
qed

end
