(* ===== verification/Traversal.thy ===== *)
theory Traversal
  imports Storage Heapq
begin

text \<open>
  Walks on the graph of vertices (\<^verbatim>\<open>hathor/transaction/storage/traversal.py\<close>). A walk is a
  generator: the caller's loop body runs between two steps of it, may change metadata, may ask
  to skip the neighbours of the vertex it was given, and may leave the loop. The body is a
  function of the caller's state and the vertex.
\<close>

record walk_cfg =
  is_dag_funds :: bool
  is_dag_verifications :: bool
  is_left_to_right :: bool

record walk =
  seen :: "bytes set"
  to_visit :: "vertex list"

definition item_key :: "walk_cfg \<Rightarrow> vertex \<Rightarrow> int" where
  "item_key cfg v = (if is_left_to_right cfg then vtimestamp v else - vtimestamp v)"

type_synonym push_op = "walk \<Rightarrow> vertex \<Rightarrow> walk"
type_synonym pop_op = "walk \<Rightarrow> (vertex \<times> walk) result"

subsection \<open>The two orders\<close>

definition bfs_push :: "walk_cfg \<Rightarrow> push_op" where
  "bfs_push cfg w v = w\<lparr>to_visit := heappush (item_key cfg) (to_visit w) v\<rparr>"

definition bfs_pop :: "walk_cfg \<Rightarrow> pop_op" where
  "bfs_pop cfg w =
     bindE (of_option (PyE IndexError) (heappop (item_key cfg) (to_visit w))) (\<lambda>(v, q).
     bindE (the_hash v) (\<lambda>h.
     bindE (guardE (h \<in> seen w) (PyE KeyError)) (\<lambda>_.
     Inr (v, w\<lparr>to_visit := q, seen := seen w - {h}\<rparr>))))"

definition dfs_push :: push_op where
  "dfs_push w v = w\<lparr>to_visit := to_visit w @ [v]\<rparr>"

definition dfs_pop :: pop_op where
  "dfs_pop w =
     bindE (guardE (to_visit w \<noteq> []) (PyE IndexError)) (\<lambda>_.
     Inr (last (to_visit w), w\<lparr>to_visit := butlast (to_visit w)\<rparr>))"

subsection \<open>The walk\<close>

text \<open>The neighbours in the order in which they are added.\<close>

definition neighbors :: "walk_cfg \<Rightarrow> storage \<Rightarrow> vertex \<Rightarrow> bytes list result" where
  "neighbors cfg st v =
     (if is_left_to_right cfg then
        if is_dag_verifications cfg \<or> is_dag_funds cfg then
          bindE (the_hash v) (\<lambda>h.
          Inr ((if is_dag_verifications cfg then children (st_meta st h) else []) @
               (if is_dag_funds cfg then concat (map snd (spent_outputs (st_meta st h))) else [])))
        else Inr []
      else Inr ((if is_dag_verifications cfg then parents (vertex_base v) else []) @
                (if is_dag_funds cfg then map ti_tx_id (inputs (vertex_base v)) else [])))"

definition neighbor_step :: "push_op \<Rightarrow> storage \<Rightarrow> walk \<Rightarrow> bytes \<Rightarrow> walk result" where
  "neighbor_step push st w h =
     (if h \<in> seen w then Inr w
      else bindE (get_transaction st h) (\<lambda>n. Inr (push (w\<lparr>seen := insert h (seen w)\<rparr>) n)))"

definition add_neighbors :: "push_op \<Rightarrow> walk_cfg \<Rightarrow> storage \<Rightarrow> walk \<Rightarrow> vertex \<Rightarrow> walk result" where
  "add_neighbors push cfg st w v = bindE (neighbors cfg st v) (foldE (neighbor_step push st) w)"

text \<open>What the body of the caller's loop does with a vertex.\<close>

datatype 's step = Next 's | Skip 's | Break 's

partial_function (option) walk_loop ::
  "push_op \<Rightarrow> pop_op \<Rightarrow> walk_cfg \<Rightarrow> ('s \<Rightarrow> storage) \<Rightarrow> ('s \<Rightarrow> vertex \<Rightarrow> 's step result option) \<Rightarrow>
   's \<Rightarrow> walk \<Rightarrow> 's result option" where
  "walk_loop push pop cfg sto body s w =
     (if to_visit w = [] then Some (Inr s)
      else case pop w of
        Inl e \<Rightarrow> Some (Inl e)
      | Inr (v, w1) \<Rightarrow>
          (case body s v of
             None \<Rightarrow> None
           | Some (Inl e) \<Rightarrow> Some (Inl e)
           | Some (Inr (Break s')) \<Rightarrow> Some (Inr s')
           | Some (Inr (Skip s')) \<Rightarrow> walk_loop push pop cfg sto body s' w1
           | Some (Inr (Next s')) \<Rightarrow>
               (case add_neighbors push cfg (sto s') w1 v of
                  Inl e \<Rightarrow> Some (Inl e)
                | Inr w2 \<Rightarrow> walk_loop push pop cfg sto body s' w2)))"

definition walk_init :: "push_op \<Rightarrow> walk_cfg \<Rightarrow> storage \<Rightarrow> bool \<Rightarrow> vertex \<Rightarrow> walk result" where
  "walk_init push cfg st skip_root root =
     bindE (the_hash root) (\<lambda>h.
     let w = \<lparr>seen = {h}, to_visit = []\<rparr> in
     if skip_root then add_neighbors push cfg st w root else Inr (push w root))"

definition walk_run ::
  "push_op \<Rightarrow> pop_op \<Rightarrow> walk_cfg \<Rightarrow> ('s \<Rightarrow> storage) \<Rightarrow> ('s \<Rightarrow> vertex \<Rightarrow> 's step result option) \<Rightarrow>
   bool \<Rightarrow> 's \<Rightarrow> vertex \<Rightarrow> 's result option" where
  "walk_run push pop cfg sto body skip_root s root =
     (case walk_init push cfg (sto s) skip_root root of
        Inl e \<Rightarrow> Some (Inl e)
      | Inr w \<Rightarrow> walk_loop push pop cfg sto body s w)"

abbreviation bfs_run ::
  "walk_cfg \<Rightarrow> ('s \<Rightarrow> storage) \<Rightarrow> ('s \<Rightarrow> vertex \<Rightarrow> 's step result option) \<Rightarrow> bool \<Rightarrow> 's \<Rightarrow> vertex \<Rightarrow> 's result option" where
  "bfs_run cfg \<equiv> walk_run (bfs_push cfg) (bfs_pop cfg) cfg"

abbreviation dfs_run ::
  "walk_cfg \<Rightarrow> ('s \<Rightarrow> storage) \<Rightarrow> ('s \<Rightarrow> vertex \<Rightarrow> 's step result option) \<Rightarrow> bool \<Rightarrow> 's \<Rightarrow> vertex \<Rightarrow> 's result option" where
  "dfs_run cfg \<equiv> walk_run dfs_push dfs_pop cfg"

text \<open>\<^verbatim>\<open>list(walk.run(root))\<close>.\<close>

definition collect :: "storage \<times> vertex list \<Rightarrow> vertex \<Rightarrow> (storage \<times> vertex list) step result option" where
  "collect = (\<lambda>(st, vs) v. Some (Inr (Next (st, vs @ [v]))))"

definition bfs_list :: "walk_cfg \<Rightarrow> storage \<Rightarrow> bool \<Rightarrow> vertex \<Rightarrow> vertex list result option" where
  "bfs_list cfg st skip_root root = bindR (bfs_run cfg fst collect skip_root (st, []) root) (\<lambda>(_, vs). Some (Inr vs))"

definition dfs_list :: "walk_cfg \<Rightarrow> storage \<Rightarrow> bool \<Rightarrow> vertex \<Rightarrow> vertex list result option" where
  "dfs_list cfg st skip_root root = bindR (dfs_run cfg fst collect skip_root (st, []) root) (\<lambda>(_, vs). Some (Inr vs))"

subsection \<open>The graph\<close>

abbreviation vhash :: "vertex \<Rightarrow> bytes" where
  "vhash v \<equiv> the (tx_hash (vertex_base v))"

definition nbs :: "walk_cfg \<Rightarrow> storage \<Rightarrow> bytes \<Rightarrow> bytes list" where
  "nbs cfg st h = (case st_txs st h of None \<Rightarrow> [] | Some v \<Rightarrow>
     (case neighbors cfg st v of Inl _ \<Rightarrow> [] | Inr ns \<Rightarrow> ns))"

text \<open>Vertices are stored under their hashes, neighbours are stored, and lie on the side that is walked to.\<close>

definition graph_ok :: "walk_cfg \<Rightarrow> storage \<Rightarrow> bool" where
  "graph_ok cfg st \<longleftrightarrow> finite (dom (st_txs st)) \<and>
     (\<forall>h v. st_txs st h = Some v \<longrightarrow> tx_hash (vertex_base v) = Some h \<and>
       (\<forall>n \<in> set (nbs cfg st h). \<exists>u. st_txs st n = Some u \<and> item_key cfg v < item_key cfg u))"

definition same_graph :: "storage \<Rightarrow> storage \<Rightarrow> bool" where
  "same_graph st st' \<longleftrightarrow> st_txs st' = st_txs st \<and>
     (\<forall>h. children (st_meta st' h) = children (st_meta st h) \<and> spent_outputs (st_meta st' h) = spent_outputs (st_meta st h))"

lemma same_graph_refl [simp]: "same_graph st st"
  by (simp add: same_graph_def)

lemma same_graph_trans: "same_graph a b \<Longrightarrow> same_graph b c \<Longrightarrow> same_graph a c"
  by (simp add: same_graph_def)

lemma neighbors_same_graph: "same_graph st st' \<Longrightarrow> neighbors cfg st' v = neighbors cfg st v"
  by (cases "the_hash v") (simp_all add: same_graph_def neighbors_def)

lemma add_neighbors_same_graph:
  assumes "same_graph st st'"
  shows "add_neighbors push cfg st' w v = add_neighbors push cfg st w v"
proof -
  have "neighbor_step push st' = neighbor_step push st"
    using assms by (simp add: fun_eq_iff neighbor_step_def get_transaction_def same_graph_def)
  then show ?thesis by (simp add: add_neighbors_def neighbors_same_graph [OF assms])
qed

lemma stored_hash: "graph_ok cfg st \<Longrightarrow> st_txs st h = Some v \<Longrightarrow> tx_hash (vertex_base v) = Some h"
  by (simp add: graph_ok_def)

lemma neighbors_stored:
  assumes "graph_ok cfg st" and "st_txs st h = Some v"
  shows "neighbors cfg st v = Inr (nbs cfg st h)"
  using assms by (auto simp: nbs_def neighbors_def the_hash_def of_option_def dest: stored_hash)

lemma nbs_stored:
  assumes "graph_ok cfg st" and "st_txs st h = Some v" and "n \<in> set (nbs cfg st h)"
  shows "\<exists>u. st_txs st n = Some u \<and> item_key cfg v < item_key cfg u"
  using assms by (simp add: graph_ok_def)

subsection \<open>The contract of the two orders\<close>

text \<open>
  What the walk needs of the pending vertices: pushing adds one and popping takes one out. A
  breadth-first walk forgets the popped hash, but its vertex was the first in the order of keys.
\<close>

locale walk_queue =
  fixes push :: push_op and pop :: pop_op and key :: "vertex \<Rightarrow> int" and ordered :: bool
    and inv :: "vertex list \<Rightarrow> bool"
  assumes inv_Nil: "inv []"
    and push_inv: "inv (to_visit w) \<Longrightarrow> inv (to_visit (push w v))"
    and push_to_visit: "mset (to_visit (push w v)) = add_mset v (mset (to_visit w))"
    and push_seen: "seen (push w v) = seen w"
    and pop_some: "inv (to_visit w) \<Longrightarrow> to_visit w \<noteq> [] \<Longrightarrow>
      \<forall>u \<in> set (to_visit w). tx_hash (vertex_base u) \<noteq> None \<and> vhash u \<in> seen w \<Longrightarrow>
      \<exists>v w'. pop w = Inr (v, w') \<and> inv (to_visit w') \<and> mset (to_visit w) = add_mset v (mset (to_visit w')) \<and>
        (if ordered then (\<forall>u \<in> set (to_visit w). key v \<le> key u) \<and> seen w' = seen w - {vhash v}
         else seen w' = seen w)"

interpretation bfs: walk_queue "bfs_push cfg" "bfs_pop cfg" "item_key cfg" True "is_heap (item_key cfg)" for cfg
proof unfold_locales
  fix w :: walk
  assume heap: "is_heap (item_key cfg) (to_visit w)" and ne: "to_visit w \<noteq> []"
    and h: "\<forall>u \<in> set (to_visit w). tx_hash (vertex_base u) \<noteq> None \<and> vhash u \<in> seen w"
  obtain v q where p: "heappop (item_key cfg) (to_visit w) = Some (v, q)"
    using ne heappop_None_iff [of "item_key cfg" "to_visit w"] by auto
  note m = mset_heappop [OF p]
  then have "v \<in> set (to_visit w)" by (metis set_mset_mset union_single_eq_member)
  with h obtain hv where "tx_hash (vertex_base v) = Some hv" "hv \<in> seen w" by fastforce
  then show "\<exists>v w'. bfs_pop cfg w = Inr (v, w') \<and> is_heap (item_key cfg) (to_visit w') \<and>
      mset (to_visit w) = add_mset v (mset (to_visit w')) \<and>
      (if True then (\<forall>u \<in> set (to_visit w). item_key cfg v \<le> item_key cfg u) \<and> seen w' = seen w - {vhash v}
       else seen w' = seen w)"
    using heap_heappop [OF heap p] m p
    by (simp add: bfs_pop_def of_option_def the_hash_def guardE_def)
qed (simp_all add: bfs_push_def heap_heappush mset_heappush)

interpretation dfs: walk_queue dfs_push dfs_pop "item_key cfg" False "\<lambda>_. True" for cfg
proof unfold_locales
  fix w :: walk
  assume "to_visit w \<noteq> []"
  then have "mset (to_visit w) = add_mset (last (to_visit w)) (mset (butlast (to_visit w)))"
    by (cases "to_visit w" rule: rev_cases) simp_all
  then show "\<exists>v w'. dfs_pop w = Inr (v, w') \<and> True \<and> mset (to_visit w) = add_mset v (mset (to_visit w')) \<and>
      (if False then (\<forall>u \<in> set (to_visit w). item_key cfg v \<le> item_key cfg u) \<and> seen w' = seen w - {vhash v}
       else seen w' = seen w)"
    using \<open>to_visit w \<noteq> []\<close> by (simp add: dfs_pop_def guardE_def)
qed (simp_all add: dfs_push_def)

context walk_queue
begin

lemma set_push: "set (to_visit (push w v)) = insert v (set (to_visit w))"
  using push_to_visit [of w v] by (metis set_mset_add_mset_insert set_mset_mset)

text \<open>Adding neighbours pushes the unseen ones, each once.\<close>

lemma neighbor_fold:
  assumes "inv (to_visit w)" and "\<forall>n \<in> set ns. \<exists>u. st_txs st n = Some u \<and> tx_hash (vertex_base u) = Some n"
  shows "\<exists>w' news. foldE (neighbor_step push st) w ns = Inr w' \<and> inv (to_visit w') \<and>
    mset (to_visit w') = mset news + mset (to_visit w) \<and> distinct (map vhash news) \<and>
    vhash ` set news = set ns - seen w \<and> seen w' = seen w \<union> set ns \<and>
    (\<forall>u \<in> set news. st_txs st (vhash u) = Some u \<and> tx_hash (vertex_base u) \<noteq> None)"
  using assms
proof (induction ns arbitrary: w)
  case Nil
  then show ?case by (intro exI [of _ w] exI [of _ "[]"]) simp
next
  case (Cons n ns)
  show ?case
  proof (cases "n \<in> seen w")
    case True
    then show ?thesis using Cons.IH [OF Cons.prems(1)] Cons.prems(2) by (auto simp: neighbor_step_def)
  next
    case False
    obtain u where u: "st_txs st n = Some u" "tx_hash (vertex_base u) = Some n" using Cons.prems(2) by auto
    let ?w = "push (w\<lparr>seen := insert n (seen w)\<rparr>) u"
    have "inv (to_visit ?w)" using push_inv [of "w\<lparr>seen := insert n (seen w)\<rparr>"] Cons.prems(1) by simp
    then obtain w' news where i: "foldE (neighbor_step push st) ?w ns = Inr w'" "inv (to_visit w')"
      "mset (to_visit w') = mset news + mset (to_visit ?w)" "distinct (map vhash news)"
      "vhash ` set news = set ns - seen ?w" "seen w' = seen ?w \<union> set ns"
      "\<forall>u \<in> set news. st_txs st (vhash u) = Some u \<and> tx_hash (vertex_base u) \<noteq> None"
      using Cons.IH [of ?w] Cons.prems(2) by auto
    have "mset (to_visit ?w) = add_mset u (mset (to_visit w))" "seen ?w = insert n (seen w)"
      by (simp_all add: push_to_visit push_seen)
    moreover have "neighbor_step push st w n = Inr ?w"
      using u(1) False by (simp add: neighbor_step_def get_transaction_def of_option_def)
    ultimately show ?thesis
      using i u False by (intro exI [of _ w'] exI [of _ "u # news"]) auto
  qed
qed

text \<open>
  The state of a walk from \<open>r\<close>: the hashes visited so far, those whose neighbours were added, and
  the pending vertices.
\<close>

definition queue_ok :: "storage \<Rightarrow> bytes list \<Rightarrow> walk \<Rightarrow> bool" where
  "queue_ok st vs w \<longleftrightarrow> inv (to_visit w) \<and> set vs \<subseteq> dom (st_txs st) \<and> distinct (vs @ map vhash (to_visit w)) \<and>
     (\<forall>u \<in> set (to_visit w). st_txs st (vhash u) = Some u \<and> tx_hash (vertex_base u) \<noteq> None) \<and>
     (ordered \<longrightarrow> (\<forall>h \<in> set vs. \<forall>u \<in> set (to_visit w). key (the (st_txs st h)) \<le> key u))"

definition hashes_ok :: "(bytes \<Rightarrow> bytes set) \<Rightarrow> bytes \<Rightarrow> bool \<Rightarrow> bytes set \<Rightarrow> bytes set \<Rightarrow> bytes set \<Rightarrow> bytes set \<Rightarrow> bool" where
  "hashes_ok nb r skip V E P S \<longleftrightarrow>
     P \<subseteq> S \<and> S \<subseteq> V \<union> P \<union> {r} \<and> (\<not> ordered \<longrightarrow> V \<subseteq> S) \<and>
     (if skip then r \<in> S \<and> r \<notin> V \<union> P else r \<in> V \<union> P) \<and>
     (\<forall>e \<in> E. nb e \<subseteq> V \<union> P \<union> {r}) \<and>
     (\<forall>p \<in> P. \<not> skip \<and> p = r \<or> (\<exists>e \<in> E. p \<in> nb e))"

definition walk_inv ::
  "walk_cfg \<Rightarrow> storage \<Rightarrow> bytes \<Rightarrow> bool \<Rightarrow> bytes list \<Rightarrow> bytes set \<Rightarrow> walk \<Rightarrow> bool" where
  "walk_inv cfg st r skip vs E w \<longleftrightarrow> queue_ok st vs w \<and>
     hashes_ok (\<lambda>h. set (nbs cfg st h)) r skip (set vs) E (vhash ` set (to_visit w)) (seen w)"

lemma hashes_ok_pop:
  assumes "hashes_ok nb r skip V E (insert h P) S" and "h \<notin> P" and "h \<notin> V"
    and "S' = (if ordered then S - {h} else S)"
  shows "hashes_ok nb r skip (insert h V) E P S'"
proof -
  have "P \<subseteq> S'" "S' \<subseteq> insert h V \<union> P \<union> {r}" "\<not> ordered \<longrightarrow> insert h V \<subseteq> S'"
    using assms unfolding hashes_ok_def by auto
  moreover have "if skip then r \<in> S' \<and> r \<notin> insert h V \<union> P else r \<in> insert h V \<union> P"
    using assms unfolding hashes_ok_def by (cases skip) auto
  moreover have "(\<forall>e \<in> E. nb e \<subseteq> insert h V \<union> P \<union> {r}) \<and> (\<forall>p \<in> P. \<not> skip \<and> p = r \<or> (\<exists>e \<in> E. p \<in> nb e))"
    using assms(1) unfolding hashes_ok_def by auto
  ultimately show ?thesis unfolding hashes_ok_def by blast
qed

lemma hashes_ok_expand:
  assumes "hashes_ok nb r skip V E P S" and "N = nb h - S" and "N \<inter> V = {}"
  shows "hashes_ok nb r skip V (insert h E) (N \<union> P) (S \<union> nb h)"
proof -
  have "N \<union> P \<subseteq> S \<union> nb h" "S \<union> nb h \<subseteq> V \<union> (N \<union> P) \<union> {r}" "\<not> ordered \<longrightarrow> V \<subseteq> S \<union> nb h"
    using assms unfolding hashes_ok_def by auto
  moreover have "if skip then r \<in> S \<union> nb h \<and> r \<notin> V \<union> (N \<union> P) else r \<in> V \<union> (N \<union> P)"
    using assms unfolding hashes_ok_def by (cases skip) auto
  moreover have "\<forall>e \<in> insert h E. nb e \<subseteq> V \<union> (N \<union> P) \<union> {r}"
    using assms unfolding hashes_ok_def by auto
  moreover have "\<forall>p \<in> N \<union> P. \<not> skip \<and> p = r \<or> (\<exists>e \<in> insert h E. p \<in> nb e)"
    using assms unfolding hashes_ok_def by auto
  ultimately show ?thesis unfolding hashes_ok_def by blast
qed

lemma walk_inv_pop:
  assumes J: "walk_inv cfg st r skip vs E w" and ne: "to_visit w \<noteq> []"
  shows "\<exists>v w'. pop w = Inr (v, w') \<and> v \<in> set (to_visit w) \<and> vhash v \<notin> set vs \<and>
    walk_inv cfg st r skip (vs @ [vhash v]) E w' \<and> (ordered \<longrightarrow> (\<forall>h \<in> set vs. key (the (st_txs st h)) \<le> key v))"
proof -
  have q: "queue_ok st vs w" and h: "hashes_ok (\<lambda>h. set (nbs cfg st h)) r skip (set vs) E (vhash ` set (to_visit w)) (seen w)"
    using J by (simp_all add: walk_inv_def)
  have i: "inv (to_visit w)" using q by (simp add: queue_ok_def)
  have "vhash ` set (to_visit w) \<subseteq> seen w" using h by (simp add: hashes_ok_def)
  then have "\<forall>u \<in> set (to_visit w). tx_hash (vertex_base u) \<noteq> None \<and> vhash u \<in> seen w"
    using q by (auto simp: queue_ok_def)
  from pop_some [OF i ne this] obtain v w' where p: "pop w = Inr (v, w')" "inv (to_visit w')"
    "mset (to_visit w) = add_mset v (mset (to_visit w'))" "seen w' = (if ordered then seen w - {vhash v} else seen w)"
    "ordered \<longrightarrow> (\<forall>u \<in> set (to_visit w). key v \<le> key u)"
    by (cases ordered) auto
  have s: "set (to_visit w) = insert v (set (to_visit w'))"
    using p(3) by (metis set_mset_add_mset_insert set_mset_mset)
  have "mset (vs @ map vhash (to_visit w)) = mset ((vs @ [vhash v]) @ map vhash (to_visit w'))"
    using p(3) by simp
  then have d: "distinct ((vs @ [vhash v]) @ map vhash (to_visit w'))"
    using q mset_eq_imp_distinct_iff unfolding queue_ok_def by blast
  then have n: "vhash v \<notin> vhash ` set (to_visit w')" "vhash v \<notin> set vs" by auto
  have v: "st_txs st (vhash v) = Some v" using q unfolding queue_ok_def s by blast
  have "queue_ok st (vs @ [vhash v]) w'"
    using q p(2,5) d v unfolding queue_ok_def s by auto
  moreover have "hashes_ok (\<lambda>h. set (nbs cfg st h)) r skip (set (vs @ [vhash v])) E (vhash ` set (to_visit w')) (seen w')"
    using hashes_ok_pop [OF h [unfolded s image_insert] n p(4)] by simp
  moreover have "ordered \<longrightarrow> (\<forall>h \<in> set vs. key (the (st_txs st h)) \<le> key v)"
    using q unfolding queue_ok_def s by blast
  ultimately show ?thesis using p(1) s n(2) by (auto simp: walk_inv_def)
qed

lemma walk_inv_expand:
  assumes J: "walk_inv cfg st r skip vs E w" and g: "graph_ok cfg st" and v: "st_txs st (vhash v) = Some v"
    and key: "ordered \<Longrightarrow> key = item_key cfg"
    and last: "ordered \<longrightarrow> (\<forall>h \<in> set vs. key (the (st_txs st h)) \<le> key v)"
  shows "\<exists>w'. add_neighbors push cfg st w v = Inr w' \<and> walk_inv cfg st r skip vs (insert (vhash v) E) w'"
proof -
  let ?ns = "nbs cfg st (vhash v)"
  have q: "queue_ok st vs w" and h: "hashes_ok (\<lambda>h. set (nbs cfg st h)) r skip (set vs) E (vhash ` set (to_visit w)) (seen w)"
    using J by (simp_all add: walk_inv_def)
  have st: "\<forall>n \<in> set ?ns. \<exists>u. st_txs st n = Some u \<and> tx_hash (vertex_base u) = Some n \<and> item_key cfg v < item_key cfg u"
    using nbs_stored [OF g v] stored_hash [OF g] by blast
  then have "\<forall>n \<in> set ?ns. \<exists>u. st_txs st n = Some u \<and> tx_hash (vertex_base u) = Some n" by blast
  with q obtain w' news where w': "foldE (neighbor_step push st) w ?ns = Inr w'" "inv (to_visit w')"
    "mset (to_visit w') = mset news + mset (to_visit w)" "distinct (map vhash news)"
    "vhash ` set news = set ?ns - seen w" "seen w' = seen w \<union> set ?ns"
    "\<forall>u \<in> set news. st_txs st (vhash u) = Some u \<and> tx_hash (vertex_base u) \<noteq> None"
    using neighbor_fold [of w ?ns st] unfolding queue_ok_def by blast
  note q' = q [unfolded queue_ok_def]
  have s: "set (to_visit w') = set news \<union> set (to_visit w)"
    using w'(3) by (metis set_mset_mset set_mset_union)
  have ku: "item_key cfg v < item_key cfg u" if "u \<in> set news" for u
    using st w'(5,7) that by (metis DiffD1 image_eqI option.inject)
  have new: "vhash u \<notin> set vs" if "u \<in> set news" for u
  proof
    assume a: "vhash u \<in> set vs"
    have "vhash u \<notin> seen w" using that w'(5) by auto
    then have ordered using h a unfolding hashes_ok_def by auto
    then have "key (the (st_txs st (vhash u))) \<le> key v" using last a by blast
    then show False using ku [OF that] w'(7) that key [OF \<open>ordered\<close>] by simp
  qed
  have "mset (vs @ map vhash (to_visit w')) = mset (map vhash news @ vs @ map vhash (to_visit w))"
    using w'(3) by (simp add: image_mset_union)
  moreover have "vhash ` set (to_visit w) \<subseteq> seen w" using h by (simp add: hashes_ok_def)
  then have "vhash ` set news \<inter> vhash ` set (to_visit w) = {}" unfolding w'(5) by blast
  then have "distinct (map vhash news @ vs @ map vhash (to_visit w))"
    using q w'(4) new unfolding queue_ok_def by auto
  ultimately have "distinct (vs @ map vhash (to_visit w'))"
    using mset_eq_imp_distinct_iff by blast
  moreover have "ordered \<longrightarrow> (\<forall>h \<in> set vs. \<forall>u \<in> set news. key (the (st_txs st h)) \<le> key u)"
    using last ku key by force
  ultimately have "queue_ok st vs w'" using q' w'(2,7) unfolding queue_ok_def s by auto
  moreover have "hashes_ok (\<lambda>h. set (nbs cfg st h)) r skip (set vs) (insert (vhash v) E) (vhash ` set (to_visit w')) (seen w')"
    using hashes_ok_expand [OF h w'(5)] new unfolding s image_Un w'(6) by auto
  ultimately show ?thesis
    using w'(1) by (simp add: walk_inv_def add_neighbors_def neighbors_stored [OF g v])
qed

text \<open>
  The rule for a loop over a walk: an invariant of the caller's state, of the visited and of the
  expanded hashes. The body may change metadata but not the graph; the loop always ends.
\<close>

lemma walk_loop_rule:
  assumes g: "graph_ok cfg st" and key: "ordered \<Longrightarrow> key = item_key cfg"
    and frame: "\<And>s vs E. I s vs E \<Longrightarrow> same_graph st (sto s)"
    and step: "\<And>s vs E v. I s vs E \<Longrightarrow> st_txs st (vhash v) = Some v \<Longrightarrow> vhash v \<notin> set vs \<Longrightarrow>
      \<not> skip \<and> vhash v = r \<or> (\<exists>e \<in> E. vhash v \<in> set (nbs cfg st e)) \<Longrightarrow>
      ordered \<longrightarrow> (\<forall>h \<in> set vs. key (the (st_txs st h)) \<le> key v) \<Longrightarrow>
      \<exists>x. body s v = Some (Inr x) \<and>
        (case x of Next s' \<Rightarrow> I s' (vs @ [vhash v]) (insert (vhash v) E)
         | Skip s' \<Rightarrow> I s' (vs @ [vhash v]) E | Break s' \<Rightarrow> Q s')"
    and final: "\<And>s vs E. I s vs E \<Longrightarrow> distinct vs \<Longrightarrow> set vs \<subseteq> dom (st_txs st) \<Longrightarrow>
      \<forall>e \<in> E. set (nbs cfg st e) \<subseteq> set vs \<union> {r} \<Longrightarrow> (if skip then r \<notin> set vs else r \<in> set vs) \<Longrightarrow> Q s"
    and "walk_inv cfg st r skip vs E w" and "I s vs E"
  shows "\<exists>s'. walk_loop push pop cfg sto body s w = Some (Inr s') \<and> Q s'"
  using assms(6,7)
proof (induction "card (dom (st_txs st)) - length vs" arbitrary: vs E w s rule: less_induct)
  case less
  show ?case
  proof (cases "to_visit w = []")
    case True
    then have "Q s" using final [OF less(3)] less(2) by (simp add: walk_inv_def queue_ok_def hashes_ok_def split: if_splits)
    then show ?thesis using True by (subst walk_loop.simps) simp
  next
    case False
    obtain v w1 where p: "pop w = Inr (v, w1)" "v \<in> set (to_visit w)" "vhash v \<notin> set vs"
      "walk_inv cfg st r skip (vs @ [vhash v]) E w1" "ordered \<longrightarrow> (\<forall>h \<in> set vs. key (the (st_txs st h)) \<le> key v)"
      using walk_inv_pop [OF less(2) False] by blast
    have v: "st_txs st (vhash v) = Some v" and origin: "\<not> skip \<and> vhash v = r \<or> (\<exists>e \<in> E. vhash v \<in> set (nbs cfg st e))"
      using less(2) p(2) by (auto simp: walk_inv_def queue_ok_def hashes_ok_def)
    obtain x where x: "body s v = Some (Inr x)"
      "case x of Next s' \<Rightarrow> I s' (vs @ [vhash v]) (insert (vhash v) E)
       | Skip s' \<Rightarrow> I s' (vs @ [vhash v]) E | Break s' \<Rightarrow> Q s'"
      using step [OF less(3) v p(3) origin p(5)] by blast
    have "distinct (vs @ [vhash v])" "set (vs @ [vhash v]) \<subseteq> dom (st_txs st)"
      using p(4) by (simp_all add: walk_inv_def queue_ok_def)
    then have "length (vs @ [vhash v]) \<le> card (dom (st_txs st))"
      using g by (metis card_mono distinct_card graph_ok_def)
    then have dec: "card (dom (st_txs st)) - length (vs @ [vhash v]) < card (dom (st_txs st)) - length vs" by simp
    show ?thesis
    proof (cases x)
      case (Next s')
      have o: "ordered \<longrightarrow> (\<forall>h \<in> set (vs @ [vhash v]). key (the (st_txs st h)) \<le> key v)" using p(5) v by simp
      have "same_graph st (sto s')" using frame x(2) Next by simp
      then have "add_neighbors push cfg (sto s') w1 v = add_neighbors push cfg st w1 v"
        by (rule add_neighbors_same_graph)
      with walk_inv_expand [OF p(4) g v key o] obtain w2 where
        "add_neighbors push cfg (sto s') w1 v = Inr w2" "walk_inv cfg st r skip (vs @ [vhash v]) (insert (vhash v) E) w2"
        by auto
      then show ?thesis using less(1) [OF dec] x p(1) Next False by (subst walk_loop.simps) simp
    next
      case (Skip s')
      then show ?thesis using less(1) [OF dec p(4)] x p(1) False by (subst walk_loop.simps) simp
    next
      case (Break s')
      then show ?thesis using x p(1) False by (subst walk_loop.simps) simp
    qed
  qed
qed

lemma walk_init_inv:
  assumes "graph_ok cfg st" and "st_txs st r = Some root" and "ordered \<Longrightarrow> key = item_key cfg"
  shows "\<exists>w. walk_init push cfg st skip root = Inr w \<and> walk_inv cfg st r skip [] (if skip then {r} else {}) w"
proof -
  have r: "tx_hash (vertex_base root) = Some r" using stored_hash [OF assms(1,2)] .
  let ?w = "\<lparr>seen = {r}, to_visit = []\<rparr>"
  show ?thesis
  proof (cases skip)
    case True
    have "walk_inv cfg st r True [] {} ?w" by (simp add: walk_inv_def queue_ok_def hashes_ok_def inv_Nil)
    from walk_inv_expand [OF this assms(1), of root] show ?thesis
      using True assms(2,3) r by (auto simp: walk_init_def the_hash_def of_option_def)
  next
    case False
    have "mset (to_visit (push ?w root)) = {#root#}" by (simp add: push_to_visit)
    then have "to_visit (push ?w root) = [root]" by (metis mset_single_iff_right mset_zero_iff)
    moreover have "inv (to_visit (push ?w root))" by (intro push_inv) (simp add: inv_Nil)
    ultimately have "walk_inv cfg st r False [] {} (push ?w root)"
      using r assms(2) by (simp add: walk_inv_def queue_ok_def hashes_ok_def push_seen)
    then show ?thesis using False r by (simp add: walk_init_def the_hash_def of_option_def)
  qed
qed

lemma walk_run_rule:
  assumes g: "graph_ok cfg st" and r: "st_txs st r = Some root" and key: "ordered \<Longrightarrow> key = item_key cfg"
    and frame: "\<And>s vs E. I s vs E \<Longrightarrow> same_graph st (sto s)"
    and step: "\<And>s vs E v. I s vs E \<Longrightarrow> st_txs st (vhash v) = Some v \<Longrightarrow> vhash v \<notin> set vs \<Longrightarrow>
      \<not> skip \<and> vhash v = r \<or> (\<exists>e \<in> E. vhash v \<in> set (nbs cfg st e)) \<Longrightarrow>
      ordered \<longrightarrow> (\<forall>h \<in> set vs. key (the (st_txs st h)) \<le> key v) \<Longrightarrow>
      \<exists>x. body s v = Some (Inr x) \<and>
        (case x of Next s' \<Rightarrow> I s' (vs @ [vhash v]) (insert (vhash v) E)
         | Skip s' \<Rightarrow> I s' (vs @ [vhash v]) E | Break s' \<Rightarrow> Q s')"
    and final: "\<And>s vs E. I s vs E \<Longrightarrow> distinct vs \<Longrightarrow> set vs \<subseteq> dom (st_txs st) \<Longrightarrow>
      \<forall>e \<in> E. set (nbs cfg st e) \<subseteq> set vs \<union> {r} \<Longrightarrow> (if skip then r \<notin> set vs else r \<in> set vs) \<Longrightarrow> Q s"
    and init: "I s [] (if skip then {r} else {})"
  shows "\<exists>s'. walk_run push pop cfg sto body skip s root = Some (Inr s') \<and> Q s'"
proof -
  have sg: "same_graph st (sto s)" using frame [OF init] .
  have "walk_init push cfg (sto s) skip root = walk_init push cfg st skip root"
    by (simp only: walk_init_def Let_def add_neighbors_same_graph [OF sg])
  then obtain w where w: "walk_init push cfg (sto s) skip root = Inr w"
    "walk_inv cfg st r skip [] (if skip then {r} else {}) w"
    using walk_init_inv [OF g r key] by auto
  have "\<exists>s'. walk_loop push pop cfg sto body s w = Some (Inr s') \<and> Q s'"
    by (rule walk_loop_rule [where I = I and vs = "[]" and E = "if skip then {r} else {}" and skip = skip and r = r,
        OF g key frame step final w(2) init]) assumption+
  then show ?thesis unfolding walk_run_def w(1) by simp
qed

end

subsection \<open>Which vertices are visited\<close>

definition edges :: "walk_cfg \<Rightarrow> storage \<Rightarrow> (bytes \<times> bytes) set" where
  "edges cfg st = {(a, b). b \<in> set (nbs cfg st a)}"

text \<open>With \<^verbatim>\<open>skip_root\<close> the root itself is left out.\<close>

definition reached :: "walk_cfg \<Rightarrow> storage \<Rightarrow> bool \<Rightarrow> bytes \<Rightarrow> bytes set" where
  "reached cfg st skip_root r = (if skip_root then (edges cfg st)\<^sup>+ `` {r} else (edges cfg st)\<^sup>* `` {r})"

lemma edges_key:
  assumes "graph_ok cfg st" and "(a, b) \<in> (edges cfg st)\<^sup>+"
  shows "\<exists>u v. st_txs st a = Some u \<and> st_txs st b = Some v \<and> item_key cfg u < item_key cfg v"
proof -
  have edge: "\<exists>u v. st_txs st a = Some u \<and> st_txs st b = Some v \<and> item_key cfg u < item_key cfg v"
    if "(a, b) \<in> edges cfg st" for a b
  proof -
    have b: "b \<in> set (nbs cfg st a)" using that by (simp add: edges_def)
    then obtain u where "st_txs st a = Some u" by (cases "st_txs st a") (simp_all add: nbs_def)
    with nbs_stored [OF assms(1) this b] show ?thesis by blast
  qed
  show ?thesis
    using assms(2) by (induction rule: trancl_induct) (use edge in fastforce)+
qed

lemma closed_reached:
  assumes "graph_ok cfg st" and "\<forall>e \<in> E. set (nbs cfg st e) \<subseteq> V \<union> {r}"
    and "if skip then r \<notin> V \<and> E = insert r V else r \<in> V \<and> E = V"
  shows "reached cfg st skip r \<subseteq> V"
proof -
  have "h \<in> V" if "(r, h) \<in> (edges cfg st)\<^sup>+" for h
    using that
  proof (induction rule: trancl_induct)
    case (base h)
    then have "(r, h) \<in> (edges cfg st)\<^sup>+" by blast
    with edges_key [OF assms(1)] have "h \<noteq> r" by fastforce
    then show ?case using base assms(2,3) by (auto simp: edges_def split: if_splits)
  next
    case (step e h)
    then have "(r, h) \<in> (edges cfg st)\<^sup>+" by auto
    with edges_key [OF assms(1)] have "h \<noteq> r" by fastforce
    then show ?case using step assms(2,3) by (auto simp: edges_def split: if_splits)
  qed
  then show ?thesis using assms(3) by (auto simp: reached_def rtrancl_eq_or_trancl split: if_splits)
qed

lemma reached_step:
  assumes "if skip then E = insert r V else E = V" and "V \<subseteq> reached cfg st skip r"
    and "\<not> skip \<and> h = r \<or> (\<exists>e \<in> E. h \<in> set (nbs cfg st e))"
  shows "h \<in> reached cfg st skip r"
  using assms
  by (auto simp: reached_def edges_def split: if_splits intro: rtrancl_into_rtrancl trancl_into_trancl)

definition reached_vertices :: "walk_cfg \<Rightarrow> storage \<Rightarrow> bool \<Rightarrow> bytes \<Rightarrow> vertex set" where
  "reached_vertices cfg st skip_root r = {v. \<exists>h \<in> reached cfg st skip_root r. st_txs st h = Some v}"

context walk_queue
begin

lemma collect_all:
  assumes g: "graph_ok cfg st" and r: "st_txs st r = Some root" and key: "ordered \<Longrightarrow> key = item_key cfg"
  shows "\<exists>vs. walk_run push pop cfg fst collect skip (st, []) root = Some (Inr (st, vs)) \<and>
    distinct vs \<and> (ordered \<longrightarrow> sorted (map key vs)) \<and> set vs = reached_vertices cfg st skip r"
proof -
  define stored where "stored acc \<longleftrightarrow> (\<forall>v \<in> set acc. st_txs st (vhash v) = Some v)" for acc
  define I where "I s vs E \<longleftrightarrow> fst s = st \<and> vs = map vhash (snd s) \<and> stored (snd s) \<and>
    set vs \<subseteq> reached cfg st skip r \<and> (ordered \<longrightarrow> sorted (map key (snd s))) \<and>
    (if skip then E = insert r (set vs) else E = set vs)" for s vs E
  define Q where "Q s \<longleftrightarrow> fst s = st \<and> stored (snd s) \<and> distinct (snd s) \<and>
    (ordered \<longrightarrow> sorted (map key (snd s))) \<and> vhash ` set (snd s) = reached cfg st skip r" for s
  have "\<exists>s'. walk_run push pop cfg fst collect skip (st, []) root = Some (Inr s') \<and> Q s'"
  proof (rule walk_run_rule [where I = I and st = st, OF g r key])
    fix s vs E v
    assume i: "I s vs E" and v: "st_txs st (vhash v) = Some v"
      and o: "\<not> skip \<and> vhash v = r \<or> (\<exists>e \<in> E. vhash v \<in> set (nbs cfg st e))"
      and k: "ordered \<longrightarrow> (\<forall>h \<in> set vs. key (the (st_txs st h)) \<le> key v)"
    obtain acc where s: "s = (st, acc)" "vs = map vhash acc" "stored acc" using i by (cases s) (auto simp: I_def)
    have "vhash v \<in> reached cfg st skip r"
      using reached_step [OF _ _ o, of "set vs"] i by (auto simp: I_def)
    moreover have "ordered \<longrightarrow> sorted (map key (acc @ [v]))"
      using i k s by (auto simp: I_def sorted_append stored_def)
    ultimately have "I (st, acc @ [v]) (vs @ [vhash v]) (insert (vhash v) E)"
      using i s v by (auto simp: I_def stored_def)
    then show "\<exists>x. collect s v = Some (Inr x) \<and> (case x of Next s' \<Rightarrow> I s' (vs @ [vhash v]) (insert (vhash v) E)
        | Skip s' \<Rightarrow> I s' (vs @ [vhash v]) E | Break s' \<Rightarrow> Q s')"
      by (simp add: collect_def s)
  next
    fix s vs E
    assume i: "I s vs E" and f: "distinct vs" "\<forall>e \<in> E. set (nbs cfg st e) \<subseteq> set vs \<union> {r}"
      "if skip then r \<notin> set vs else r \<in> set vs"
    then have "reached cfg st skip r \<subseteq> set vs" by (intro closed_reached [OF g f(2)]) (auto simp: I_def)
    then show "Q s" using i f(1) by (auto simp: I_def Q_def distinct_map)
  qed (auto simp: I_def stored_def)
  moreover have "set acc = reached_vertices cfg st skip r"
    if a: "stored acc" and b: "vhash ` set acc = reached cfg st skip r" for acc
  proof (intro set_eqI iffI)
    fix v
    assume "v \<in> set acc"
    then show "v \<in> reached_vertices cfg st skip r"
      using a unfolding reached_vertices_def stored_def b [symmetric] by auto
  next
    fix v
    assume "v \<in> reached_vertices cfg st skip r"
    then obtain u where "u \<in> set acc" "st_txs st (vhash u) = Some v"
      unfolding reached_vertices_def b [symmetric] by auto
    then show "v \<in> set acc" using a by (simp add: stored_def)
  qed
  ultimately show ?thesis by (auto simp: Q_def)
qed

end

text \<open>
  C20: a breadth-first walk from a stored vertex always ends and yields exactly the vertices that can
  be reached along the chosen edges, each of them once although hashes are forgotten when their
  vertex is taken, from the root outwards in the order of timestamps. A depth-first walk yields
  the same vertices.
\<close>

theorem walks_visit_reachable:
  assumes "graph_ok cfg st" and "st_txs st r = Some root"
  shows "\<exists>vs us. bfs_list cfg st skip_root root = Some (Inr vs) \<and> dfs_list cfg st skip_root root = Some (Inr us) \<and>
    distinct vs \<and> sorted (map (item_key cfg) vs) \<and> set vs = reached_vertices cfg st skip_root r \<and> mset us = mset vs"
proof -
  obtain vs where vs: "bfs_run cfg fst collect skip_root (st, []) root = Some (Inr (st, vs))" "distinct vs"
    "sorted (map (item_key cfg) vs)" "set vs = reached_vertices cfg st skip_root r"
    using bfs.collect_all [OF assms, where skip = skip_root] by auto
  obtain us where us: "dfs_run cfg fst collect skip_root (st, []) root = Some (Inr (st, us))" "distinct us"
    "set us = reached_vertices cfg st skip_root r"
    using dfs.collect_all [OF assms, where skip = skip_root] by auto
  have "mset us = mset vs" using vs(2,4) us(2,3) by (simp flip: set_eq_iff_mset_eq_distinct)
  then show ?thesis using vs us by (auto simp: bfs_list_def dfs_list_def)
qed

text \<open>A diamond of four transactions.\<close>

definition sample_vertex :: "byte \<Rightarrow> int \<Rightarrow> vertex" where
  "sample_vertex b t = VTransaction \<lparr>nonce = 0, timestamp = t, version = 1, weight = 0, inputs = [], outputs = [],
     parents = [], tx_hash = Some [b], tokens = []\<rparr>"

definition diamond :: storage where
  "diamond = \<lparr>st_txs = [[1] \<mapsto> sample_vertex 1 10, [2] \<mapsto> sample_vertex 2 20, [3] \<mapsto> sample_vertex 3 15,
                         [4] \<mapsto> sample_vertex 4 30],
     st_meta = (\<lambda>h. (new_meta (Some h) 0 0)\<lparr>children :=
       (if h = [1] then [[2], [3]] else if h = [2] \<or> h = [3] then [[4]] else [])\<rparr>),
     st_best_tips = None\<rparr>"

definition both_dags :: walk_cfg where
  "both_dags = \<lparr>is_dag_funds = True, is_dag_verifications = True, is_left_to_right = True\<rparr>"

lemma diamond_graph_ok: "graph_ok both_dags diamond"
  by (auto simp: graph_ok_def diamond_def both_dags_def nbs_def neighbors_def the_hash_def of_option_def sample_vertex_def
      item_key_def new_meta_def base_transaction.defs split: if_splits)

theorem walks_visit_reachable_witness:
  "\<exists>vs us. bfs_list both_dags diamond False (sample_vertex 1 10) = Some (Inr vs) \<and>
    dfs_list both_dags diamond False (sample_vertex 1 10) = Some (Inr us) \<and>
    distinct vs \<and> sorted (map (item_key both_dags) vs) \<and> set vs = reached_vertices both_dags diamond False [1] \<and> mset us = mset vs"
  using walks_visit_reachable [OF diamond_graph_ok, of "[1]" "sample_vertex 1 10" False] by (simp add: diamond_def)

end
