(* ===== verification/Topological_Sort.thy ===== *)
theory Topological_Sort
  imports Traversal
begin

text \<open>
  The order in which a node loads its storage (\<^verbatim>\<open>_topological_sort\<close> and \<^verbatim>\<open>_topological_sort_dfs\<close> of
  \<^verbatim>\<open>hathor/transaction/storage/transaction_storage.py\<close>): an iterative depth-first search that
  yields a vertex when it is met for the second time, after everything it depends on. The stack is
  a list with its top in front, and \<^verbatim>\<open>visited\<close> maps a hash to 0 while it is in progress and to 1
  once it has been yielded.
\<close>

type_synonym visit_marks = "bytes \<Rightarrow> nat option"

definition depends_on :: "vertex \<Rightarrow> bytes list" where
  "depends_on v = rev (parents (vertex_base v)) @ map ti_tx_id (inputs (vertex_base v))"

definition push_dep :: "storage \<Rightarrow> visit_marks \<Rightarrow> vertex list \<Rightarrow> bytes \<Rightarrow> vertex list result" where
  "push_dep st visited stack h =
     (if visited h \<noteq> None then Inr stack
      else bindE (get_transaction st h) (\<lambda>u. Inr (u # stack)))"

partial_function (option) topo_loop ::
  "storage \<Rightarrow> visit_marks \<Rightarrow> vertex list \<Rightarrow> vertex list \<Rightarrow> (visit_marks \<times> vertex list) result option" where
  "topo_loop st visited out stack =
     (case stack of
        [] \<Rightarrow> Some (Inr (visited, out))
      | tx # rest \<Rightarrow>
          (case tx_hash (vertex_base tx) of
             None \<Rightarrow> Some (Inl (PyE AssertionError))
           | Some h \<Rightarrow>
               (case visited h of
                  Some n \<Rightarrow>
                    if n = 0 then topo_loop st (visited(h \<mapsto> 1)) (out @ [tx]) rest
                    else topo_loop st visited out rest
                | None \<Rightarrow>
                    (case foldE (push_dep st (visited(h \<mapsto> 0))) stack (depends_on tx) of
                       Inl e \<Rightarrow> Some (Inl e)
                     | Inr stack' \<Rightarrow> topo_loop st (visited(h \<mapsto> 0)) out stack'))))"

definition topological_sort_dfs ::
  "storage \<Rightarrow> visit_marks \<times> vertex list \<Rightarrow> vertex \<Rightarrow> (visit_marks \<times> vertex list) result option" where
  "topological_sort_dfs st = (\<lambda>(visited, out) root.
     case tx_hash (vertex_base root) of
       Some h \<Rightarrow> if visited h \<noteq> None then Some (Inr (visited, out)) else topo_loop st visited out [root]
     | None \<Rightarrow> topo_loop st visited out [root])"

text \<open>All transactions come in the order of the storage, first the blocks and then all.\<close>

definition topological_sort :: "storage \<Rightarrow> vertex list \<Rightarrow> vertex list result option" where
  "topological_sort st all_txs =
     bindR (foldR (topological_sort_dfs st) (Map.empty, []) (filter is_block all_txs)) (\<lambda>s.
     bindR (foldR (topological_sort_dfs st) s all_txs) (\<lambda>(visited, out). Some (Inr out)))"

text \<open>The transactions behind a vertex, of which the last ones are returned.\<close>

definition get_transactions_before :: "storage \<Rightarrow> bytes \<Rightarrow> nat \<Rightarrow> vertex list result option" where
  "get_transactions_before st h num_blocks =
     (case get_transaction st h of
        Inl e \<Rightarrow> Some (Inl e)
      | Inr ref_tx \<Rightarrow>
          bindR (topological_sort_dfs st (Map.empty, []) ref_tx) (\<lambda>(visited, out).
          let result = filter (\<lambda>v. \<not> is_block v) out in
          Some (Inr (if num_blocks = 0 then result else drop (length result - num_blocks) result))))"

subsection \<open>Dependencies\<close>

definition backward :: walk_cfg where
  "backward = \<lparr>is_dag_funds = True, is_dag_verifications = True, is_left_to_right = False\<rparr>"

lemma backward_deps:
  assumes "graph_ok backward st" and "st_txs st h = Some v" and "d \<in> set (depends_on v)"
  shows "\<exists>u. st_txs st d = Some u \<and> tx_hash (vertex_base u) = Some d \<and> vtimestamp u < vtimestamp v"
proof -
  have "d \<in> set (nbs backward st h)" using assms(2,3) by (simp add: nbs_def neighbors_def backward_def depends_on_def)
  from nbs_stored [OF assms(1,2) this] obtain u where "st_txs st d = Some u" "item_key backward v < item_key backward u" by blast
  with stored_hash [OF assms(1)] show ?thesis by (auto simp: item_key_def backward_def)
qed

text \<open>A list in which everything comes after what it depends on.\<close>

fun in_order :: "bytes set \<Rightarrow> vertex list \<Rightarrow> bool" where
  "in_order D [] \<longleftrightarrow> True"
| "in_order D (v # vs) \<longleftrightarrow> set (depends_on v) \<subseteq> D \<and> in_order (insert (vhash v) D) vs"

lemma in_order_snoc: "in_order D (vs @ [v]) \<longleftrightarrow> in_order D vs \<and> set (depends_on v) \<subseteq> D \<union> vhash ` set vs"
  by (induction vs arbitrary: D) auto

definition all_stored :: "storage \<Rightarrow> vertex list \<Rightarrow> bool" where
  "all_stored st vs \<longleftrightarrow> (\<forall>v \<in> set vs. tx_hash (vertex_base v) \<noteq> None \<and> st_txs st (vhash v) = Some v)"

definition done_ok :: "storage \<Rightarrow> visit_marks \<Rightarrow> vertex list \<Rightarrow> bool" where
  "done_ok st visited out \<longleftrightarrow> all_stored st out \<and> distinct (map vhash out) \<and> in_order {} out \<and>
     (\<forall>h. visited h = Some 1 \<longleftrightarrow> h \<in> vhash ` set out) \<and> (\<forall>h n. visited h = Some n \<longrightarrow> n = 0 \<or> n = 1)"

text \<open>
  A vertex in progress is on the stack; what it depends on was yielded or lies above it, and all
  that lies above it is older.
\<close>

definition frame_ok :: "bytes set \<Rightarrow> vertex list \<Rightarrow> bytes \<Rightarrow> bool" where
  "frame_ok D stack h \<longleftrightarrow> (\<exists>as x bs. stack = as @ x # bs \<and> vhash x = h \<and> h \<notin> vhash ` set as \<and>
     set (depends_on x) \<subseteq> D \<union> vhash ` set as \<and> (\<forall>y \<in> set as. vtimestamp y < vtimestamp x))"

definition topo_inv :: "storage \<Rightarrow> visit_marks \<Rightarrow> vertex list \<Rightarrow> vertex list \<Rightarrow> bool" where
  "topo_inv st visited out stack \<longleftrightarrow> done_ok st visited out \<and> all_stored st stack \<and>
     (\<forall>h. visited h = Some 0 \<longrightarrow> frame_ok (vhash ` set out) stack h)"

lemma frame_ok_pop:
  assumes "frame_ok D (x # rest) h" and "h \<noteq> vhash x" and "D \<union> {vhash x} \<subseteq> D'"
  shows "frame_ok D' rest h"
proof -
  obtain as y bs where s: "x # rest = as @ y # bs" "vhash y = h" "h \<notin> vhash ` set as"
    "set (depends_on y) \<subseteq> D \<union> vhash ` set as" "\<forall>z \<in> set as. vtimestamp z < vtimestamp y"
    using assms(1) unfolding frame_ok_def by blast
  obtain as' where "as = x # as'" "rest = as' @ y # bs" using s(1,2) assms(2) by (cases as) auto
  then show ?thesis using s assms(3) unfolding frame_ok_def by (intro exI [of _ as'] exI [of _ y] exI [of _ bs]) auto
qed

lemma frame_ok_push:
  assumes "frame_ok D (x # rest) h" and "h \<noteq> vhash x" and "h \<notin> vhash ` set new" and "\<forall>y \<in> set new. vtimestamp y < vtimestamp x"
  shows "frame_ok D (new @ x # rest) h"
proof -
  obtain as y bs where s: "x # rest = as @ y # bs" "vhash y = h" "h \<notin> vhash ` set as"
    "set (depends_on y) \<subseteq> D \<union> vhash ` set as" "\<forall>z \<in> set as. vtimestamp z < vtimestamp y"
    using assms(1) unfolding frame_ok_def by blast
  then obtain as' where as': "as = x # as'" using assms(2) by (cases as) auto
  have "\<forall>z \<in> set (new @ as). vtimestamp z < vtimestamp y" using s(5) assms(4) as' by force
  then show ?thesis
    using s assms(3) unfolding frame_ok_def by (intro exI [of _ "new @ as"] exI [of _ y] exI [of _ bs]) auto
qed

lemma push_deps:
  assumes "\<forall>d \<in> set ds. \<exists>u. st_txs st d = Some u \<and> tx_hash (vertex_base u) = Some d"
  shows "\<exists>new. foldE (push_dep st visited) stack ds = Inr (new @ stack) \<and> all_stored st new \<and>
    vhash ` set new = {d \<in> set ds. visited d = None}"
  using assms
proof (induction ds arbitrary: stack)
  case Nil
  then show ?case by (simp add: all_stored_def)
next
  case (Cons d ds)
  then obtain u where u: "st_txs st d = Some u" "tx_hash (vertex_base u) = Some d" by auto
  show ?case
  proof (cases "visited d")
    case None
    obtain new where "foldE (push_dep st visited) (u # stack) ds = Inr (new @ u # stack)" "all_stored st new"
      "vhash ` set new = {d \<in> set ds. visited d = None}" using Cons.IH [of "u # stack"] Cons.prems by auto
    moreover have "push_dep st visited stack d = Inr (u # stack)"
      using u None by (simp add: push_dep_def get_transaction_def of_option_def)
    ultimately show ?thesis using u None by (intro exI [of _ "new @ [u]"]) (auto simp: all_stored_def)
  next
    case (Some n)
    then have "push_dep st visited stack d = Inr stack" by (simp add: push_dep_def)
    moreover have "{e \<in> set (d # ds). visited e = None} = {e \<in> set ds. visited e = None}" using Some by auto
    ultimately show ?thesis using Cons.IH [of stack] Cons.prems by simp
  qed
qed

subsection \<open>The three kinds of step\<close>

lemma topo_inv_yield:
  assumes "topo_inv st visited out (x # rest)" and "visited (vhash x) = Some 0"
  shows "topo_inv st (visited(vhash x \<mapsto> 1)) (out @ [x]) rest"
proof -
  have d: "done_ok st visited out" and s: "all_stored st (x # rest)" using assms(1) by (simp_all add: topo_inv_def)
  have "frame_ok (vhash ` set out) (x # rest) (vhash x)" using assms by (simp add: topo_inv_def)
  then have deps: "set (depends_on x) \<subseteq> vhash ` set out"
    unfolding frame_ok_def by (auto simp: Cons_eq_append_conv)
  have "vhash x \<notin> vhash ` set out" using d assms(2) by (force simp: done_ok_def)
  then have "done_ok st (visited(vhash x \<mapsto> 1)) (out @ [x])"
    using d s deps by (auto simp: done_ok_def all_stored_def in_order_snoc)
  moreover have "frame_ok (vhash ` set (out @ [x])) rest h" if "visited h = Some 0" "h \<noteq> vhash x" for h
    using assms(1) that by (intro frame_ok_pop [of "vhash ` set out" x rest h]) (auto simp: topo_inv_def)
  ultimately show ?thesis using s by (auto simp: topo_inv_def all_stored_def)
qed

lemma topo_inv_pop:
  assumes "topo_inv st visited out (x # rest)" and "visited (vhash x) = Some 1"
  shows "topo_inv st visited out rest"
proof -
  have "vhash x \<in> vhash ` set out" using assms by (simp add: topo_inv_def done_ok_def)
  then have "frame_ok (vhash ` set out) rest h" if "visited h = Some 0" for h
    using assms that by (intro frame_ok_pop [of "vhash ` set out" x rest h]) (auto simp: topo_inv_def)
  then show ?thesis using assms(1) by (auto simp: topo_inv_def all_stored_def)
qed

lemma topo_inv_push:
  assumes "graph_ok backward st" and "topo_inv st visited out (x # rest)" and "visited (vhash x) = None"
  shows "\<exists>new. foldE (push_dep st (visited(vhash x \<mapsto> 0))) (x # rest) (depends_on x) = Inr (new @ x # rest) \<and>
    topo_inv st (visited(vhash x \<mapsto> 0)) out (new @ x # rest)"
proof -
  have d: "done_ok st visited out" and s: "all_stored st (x # rest)" using assms(2) by (simp_all add: topo_inv_def)
  have x: "st_txs st (vhash x) = Some x" using s by (simp add: all_stored_def)
  note deps = backward_deps [OF assms(1) x]
  have self: "vhash x \<notin> set (depends_on x)" using deps [of "vhash x"] x by auto
  obtain new where new: "foldE (push_dep st (visited(vhash x \<mapsto> 0))) (x # rest) (depends_on x) = Inr (new @ x # rest)"
    "all_stored st new" "vhash ` set new = {d \<in> set (depends_on x). (visited(vhash x \<mapsto> 0)) d = None}"
    using push_deps [of "depends_on x" st "visited(vhash x \<mapsto> 0)" "x # rest"] deps by blast
  have older: "vtimestamp y < vtimestamp x" if "y \<in> set new" for y
  proof -
    have "vhash y \<in> set (depends_on x)" using new(3) that by auto
    with deps obtain u where "st_txs st (vhash y) = Some u" "vtimestamp u < vtimestamp x" by blast
    then show ?thesis using new(2) that by (simp add: all_stored_def)
  qed
  have progress: "\<not> visited e = Some 0" if "e \<in> set (depends_on x)" for e
  proof
    assume "visited e = Some 0"
    then obtain as y bs where f: "x # rest = as @ y # bs" "vhash y = e" "\<forall>z \<in> set as. vtimestamp z < vtimestamp y"
      using assms(2) by (auto simp: topo_inv_def frame_ok_def)
    have "e \<noteq> vhash x" using self that by auto
    then have "vtimestamp x < vtimestamp y" using f by (cases as) auto
    moreover have "st_txs st e = Some y" using s f by (auto simp: all_stored_def)
    ultimately show False using deps [OF that] by auto
  qed
  have "set (depends_on x) \<subseteq> vhash ` set out \<union> vhash ` set new"
  proof
    fix e
    assume e: "e \<in> set (depends_on x)"
    show "e \<in> vhash ` set out \<union> vhash ` set new"
    proof (cases "visited e")
      case None
      then show ?thesis using e self unfolding new(3) by auto
    next
      case (Some n)
      then have "n = 1" using d progress [OF e] unfolding done_ok_def by blast
      then show ?thesis using d Some by (simp add: done_ok_def)
    qed
  qed
  moreover have "vhash x \<notin> vhash ` set new" using self unfolding new(3) by auto
  ultimately have "frame_ok (vhash ` set out) (new @ x # rest) (vhash x)"
    using older unfolding frame_ok_def by blast
  moreover have "frame_ok (vhash ` set out) (new @ x # rest) h" if "visited h = Some 0" for h
    using assms(2,3) that older new(3) by (intro frame_ok_push) (auto simp: topo_inv_def)
  moreover have "vhash x \<notin> vhash ` set out" using d assms(3) unfolding done_ok_def by (metis option.distinct(1))
  then have "done_ok st (visited(vhash x \<mapsto> 0)) out" using d unfolding done_ok_def by simp
  moreover have "all_stored st (new @ x # rest)" using s new(2) unfolding all_stored_def by (simp add: ball_Un)
  ultimately have "topo_inv st (visited(vhash x \<mapsto> 0)) out (new @ x # rest)"
    unfolding topo_inv_def by (simp split: if_splits)
  then show ?thesis using new(1) by blast
qed

subsection \<open>The whole search\<close>

lemma topo_loop_ends:
  assumes "graph_ok backward st" and "topo_inv st visited out stack"
  shows "\<exists>visited' out'. topo_loop st visited out stack = Some (Inr (visited', out')) \<and> topo_inv st visited' out' [] \<and>
    dom visited \<union> vhash ` set stack \<subseteq> dom visited'"
  using assms(2)
proof (induction "(card (dom (st_txs st) - dom visited), length stack)" arbitrary: visited out stack
    rule: wf_induct_rule [OF wf_lex_prod [OF wf_less_than wf_less_than]])
  case (1 visited stack out)
  note IH = 1(1) and inv = 1(2)
  have step: "\<exists>visited' out'. topo_loop st v1 o1 s1 = Some (Inr (visited', out')) \<and> topo_inv st visited' out' [] \<and>
      dom v1 \<union> vhash ` set s1 \<subseteq> dom visited'"
    if "topo_inv st v1 o1 s1" "dom (st_txs st) - dom v1 \<subset> dom (st_txs st) - dom visited \<or> dom v1 = dom visited \<and> length s1 < length stack"
    for v1 o1 s1
    using that(2) assms(1) IH [OF _ that(1)] by (auto simp: graph_ok_def intro: psubset_card_mono)
  show ?case
  proof (cases stack)
    case Nil
    then show ?thesis using inv by (subst topo_loop.simps) simp
  next
    case (Cons x rest)
    obtain h where hash: "tx_hash (vertex_base x) = Some h" and stored: "st_txs st h = Some x"
      using inv Cons by (auto simp: topo_inv_def all_stored_def)
    have vh: "vhash x = h" using hash by simp
    consider "visited h = None" | "visited h = Some 0" | "visited h = Some 1"
      using inv by (cases "visited h") (auto simp: topo_inv_def done_ok_def)
    moreover have shorter: "\<exists>visited' out'. topo_loop st v1 o1 rest = Some (Inr (visited', out')) \<and> topo_inv st visited' out' [] \<and>
        dom visited \<union> vhash ` set stack \<subseteq> dom visited'"
      if "topo_inv st v1 o1 rest" "dom v1 = dom visited" "h \<in> dom visited" for v1 o1
    proof -
      have head: "vhash ` set stack = insert h (vhash ` set rest)" using Cons vh by simp
      have "length rest < length stack" using Cons by simp
      with step [OF that(1)] that(2) obtain visited' out' where
        r: "topo_loop st v1 o1 rest = Some (Inr (visited', out'))" "topo_inv st visited' out' []"
          "dom v1 \<union> vhash ` set rest \<subseteq> dom visited'" by metis
      have "dom visited \<union> vhash ` set stack \<subseteq> dom visited'" unfolding head using r(3) that(2,3) by blast
      with r show ?thesis by blast
    qed
    ultimately show ?thesis
    proof cases
      case 1
      obtain new where new: "foldE (push_dep st (visited(h \<mapsto> 0))) stack (depends_on x) = Inr (new @ stack)"
        "topo_inv st (visited(h \<mapsto> 0)) out (new @ stack)"
        using topo_inv_push [OF assms(1) inv [unfolded Cons]] 1 unfolding vh Cons by blast
      have "dom (st_txs st) - dom (visited(h \<mapsto> 0)) \<subset> dom (st_txs st) - dom visited" using 1 stored by auto
      moreover have "topo_loop st visited out stack = topo_loop st (visited(h \<mapsto> 0)) out (new @ stack)"
        using 1 Cons hash new(1) by (subst topo_loop.simps) simp
      ultimately show ?thesis using step [OF new(2)] by (auto simp: image_Un)
    next
      case 2
      have "topo_inv st (visited(h \<mapsto> 1)) (out @ [x]) rest" using topo_inv_yield [OF inv [unfolded Cons]] 2 by (simp only: vh)
      moreover have "topo_loop st visited out stack = topo_loop st (visited(h \<mapsto> 1)) (out @ [x]) rest"
        using 2 Cons hash by (subst topo_loop.simps) simp
      moreover have "h \<in> dom visited" "dom (visited(h \<mapsto> 1)) = dom visited" using 2 by auto
      ultimately show ?thesis using shorter by metis
    next
      case 3
      have "topo_inv st visited out rest" using topo_inv_pop [OF inv [unfolded Cons]] 3 by (simp only: vh)
      moreover have "topo_loop st visited out stack = topo_loop st visited out rest"
        using 3 Cons hash by (subst topo_loop.simps) simp
      moreover have "h \<in> dom visited" using 3 by auto
      ultimately show ?thesis using shorter by metis
    qed
  qed
qed

lemma topo_inv_Nil: "topo_inv st visited out [] \<Longrightarrow> visited h \<noteq> None \<longleftrightarrow> h \<in> vhash ` set out"
proof -
  assume "topo_inv st visited out []"
  then have "\<And>h. (visited h = Some 1) = (h \<in> vhash ` set out)" "\<And>h n. visited h = Some n \<Longrightarrow> n = 0 \<or> n = 1"
    "\<And>h. visited h \<noteq> Some 0" by (auto simp: topo_inv_def done_ok_def frame_ok_def)
  then show ?thesis by (metis option.exhaust option.distinct(1))
qed

lemma topological_sort_dfs_ends:
  assumes "graph_ok backward st" and "topo_inv st visited out []" and "st_txs st (vhash root) = Some root"
  shows "\<exists>visited' out'. topological_sort_dfs st (visited, out) root = Some (Inr (visited', out')) \<and>
    topo_inv st visited' out' [] \<and> dom visited \<union> {vhash root} \<subseteq> dom visited'"
proof -
  have hash: "tx_hash (vertex_base root) = Some (vhash root)" using stored_hash [OF assms(1,3)] by simp
  then obtain h where h: "tx_hash (vertex_base root) = Some h" by blast
  have "topo_inv st visited out [root]"
    using assms(2,3) h by (auto simp: topo_inv_def all_stored_def frame_ok_def)
  from topo_loop_ends [OF assms(1) this] show ?thesis
    using assms(2) h by (auto simp: topological_sort_dfs_def)
qed

lemma topological_sort_fold:
  assumes "graph_ok backward st" and "topo_inv st (fst s) (snd s) []" and "set vs \<subseteq> ran (st_txs st)"
  shows "\<exists>s'. foldR (topological_sort_dfs st) s vs = Some (Inr s') \<and> topo_inv st (fst s') (snd s') [] \<and>
    dom (fst s) \<union> vhash ` set vs \<subseteq> dom (fst s')"
  using assms(2,3)
proof (induction vs arbitrary: s)
  case (Cons v vs)
  have v: "st_txs st (vhash v) = Some v" using Cons.prems(2) stored_hash [OF assms(1)] by (fastforce simp: ran_def)
  obtain s1 where s1: "topological_sort_dfs st s v = Some (Inr s1)" "topo_inv st (fst s1) (snd s1) []"
    "dom (fst s) \<union> {vhash v} \<subseteq> dom (fst s1)"
    using topological_sort_dfs_ends [OF assms(1) Cons.prems(1) v] by (metis fst_conv snd_conv prod.collapse)
  from Cons.IH [OF s1(2)] Cons.prems(2) obtain s' where
    s': "foldR (topological_sort_dfs st) s1 vs = Some (Inr s')" "topo_inv st (fst s') (snd s') []"
    "dom (fst s1) \<union> vhash ` set vs \<subseteq> dom (fst s')" by auto
  have "dom (fst s) \<union> vhash ` set (v # vs) \<subseteq> dom (fst s')" using s1(3) s'(3) by auto
  with s1(1) s'(1,2) show ?case by simp
qed simp

lemma topological_sort_inv:
  assumes "graph_ok backward st" and "set all_txs = ran (st_txs st)"
  shows "\<exists>visited vs. topological_sort st all_txs = Some (Inr vs) \<and> topo_inv st visited vs [] \<and> set vs = ran (st_txs st)"
proof -
  have "topo_inv st (fst (Map.empty, [])) (snd (Map.empty, [])) []"
    by (simp add: topo_inv_def done_ok_def all_stored_def)
  from topological_sort_fold [OF assms(1) this, of "filter is_block all_txs"] obtain s1 where
    s1: "foldR (topological_sort_dfs st) (Map.empty, []) (filter is_block all_txs) = Some (Inr s1)" "topo_inv st (fst s1) (snd s1) []"
    using assms(2) by auto
  from topological_sort_fold [OF assms(1) s1(2), of all_txs] obtain s2 where
    s2: "foldR (topological_sort_dfs st) s1 all_txs = Some (Inr s2)" "topo_inv st (fst s2) (snd s2) []"
    "dom (fst s1) \<union> vhash ` set all_txs \<subseteq> dom (fst s2)"
    using assms(2) by auto
  have out: "all_stored st (snd s2)" using s2(2) by (simp add: topo_inv_def done_ok_def)
  have "v \<in> set (snd s2)" if v: "st_txs st h = Some v" for h v
  proof -
    have "vhash v = h" using stored_hash [OF assms(1) v] by simp
    moreover have "v \<in> set all_txs" using v assms(2) by (auto simp: ran_def)
    ultimately have "h \<in> dom (fst s2)" using s2(3) by auto
    then obtain u where u: "u \<in> set (snd s2)" "vhash u = h" using topo_inv_Nil [OF s2(2), of h] by auto
    then have "st_txs st h = Some u" using out by (auto simp: all_stored_def)
    with v u(1) show ?thesis by simp
  qed
  then have "set (snd s2) = ran (st_txs st)" using out by (auto simp: ran_def all_stored_def)
  then show ?thesis using s1(1) s2(1,2) by (cases s2) (auto simp: topological_sort_def)
qed

text \<open>
  C21: loading the storage goes through every stored vertex exactly once and never meets a vertex
  before its parents and the transactions whose outputs it spends. The search always ends.
\<close>

theorem topological_sort_order:
  assumes "graph_ok backward st" and "set all_txs = ran (st_txs st)"
  shows "\<exists>vs. topological_sort st all_txs = Some (Inr vs) \<and> distinct vs \<and> set vs = ran (st_txs st) \<and> in_order {} vs"
proof -
  obtain visited vs where "topological_sort st all_txs = Some (Inr vs)" "topo_inv st visited vs []" "set vs = ran (st_txs st)"
    using topological_sort_inv [OF assms] by blast
  then show ?thesis by (auto simp: topo_inv_def done_ok_def distinct_map)
qed

text \<open>A chain of two transactions, stored in the wrong order.\<close>

definition second_tx :: vertex where
  "second_tx = VTransaction \<lparr>nonce = 0, timestamp = 20, version = 1, weight = 0, inputs = [], outputs = [],
     parents = [[1]], tx_hash = Some [2], tokens = []\<rparr>"

definition two_txs :: storage where
  "two_txs = \<lparr>st_txs = [[1] \<mapsto> sample_vertex 1 10, [2] \<mapsto> second_tx],
     st_meta = (\<lambda>h. new_meta (Some h) 0 0), st_best_tips = None\<rparr>"

lemma two_txs_graph_ok: "graph_ok backward two_txs"
  by (auto simp: graph_ok_def two_txs_def second_tx_def backward_def nbs_def neighbors_def the_hash_def of_option_def
      sample_vertex_def item_key_def new_meta_def base_transaction.defs split: if_splits)

theorem topological_sort_order_witness:
  "\<exists>vs. topological_sort two_txs [second_tx, sample_vertex 1 10] = Some (Inr vs) \<and>
    distinct vs \<and> set vs = ran (st_txs two_txs) \<and> in_order {} vs"
  using topological_sort_order [OF two_txs_graph_ok, of "[second_tx, sample_vertex 1 10]"] by (simp add: two_txs_def insert_commute)

end
