(* ===== verification/Tips_Index.thy ===== *)
theory Tips_Index
  imports Storage
begin

text \<open>
  The index of tips (\<^verbatim>\<open>TipsIndex\<close> of \<^verbatim>\<open>hathor/indexes.py\<close>): for every indexed vertex the interval
  of time from its own timestamp to that of its first indexed child. The interval tree of the
  package \<^verbatim>\<open>intervaltree\<close> is a parameter; it is a set of intervals, answers which of them contain
  a point, refuses empty intervals and raises when an absent interval is removed. An end of
  \<^verbatim>\<open>None\<close> stands for the float \<^verbatim>\<open>inf\<close>.
\<close>

record interval =
  iv_begin :: int
  iv_end :: "int option"
  iv_data :: bytes

definition before_end :: "int \<Rightarrow> int option \<Rightarrow> bool" where
  "before_end t e \<longleftrightarrow> (case e of None \<Rightarrow> True | Some x \<Rightarrow> t < x)"

definition min_end :: "int option \<Rightarrow> int \<Rightarrow> int option" where
  "min_end e t = (case e of None \<Rightarrow> Some t | Some x \<Rightarrow> Some (min x t))"

record 't interval_tree =
  it_empty :: 't
  it_items :: "'t \<Rightarrow> interval set"
  it_add :: "'t \<Rightarrow> interval \<Rightarrow> 't result"
  it_remove :: "'t \<Rightarrow> interval \<Rightarrow> 't result"
  it_at :: "'t \<Rightarrow> int \<Rightarrow> interval list"

definition it_ok :: "'t interval_tree \<Rightarrow> bool" where
  "it_ok lib \<longleftrightarrow> it_items lib (it_empty lib) = {} \<and>
     (\<forall>t i. if before_end (iv_begin i) (iv_end i)
        then \<exists>t'. it_add lib t i = Inr t' \<and> it_items lib t' = insert i (it_items lib t)
        else it_add lib t i = Inl (PyE ValueError)) \<and>
     (\<forall>t i. if i \<in> it_items lib t
        then \<exists>t'. it_remove lib t i = Inr t' \<and> it_items lib t' = it_items lib t - {i}
        else it_remove lib t i = Inl (PyE ValueError)) \<and>
     (\<forall>t p. distinct (it_at lib t p) \<and> set (it_at lib t p) = {i \<in> it_items lib t. iv_begin i \<le> p \<and> before_end p (iv_end i)})"

record 't tips_index =
  tips_tree :: 't
  tx_last_interval :: "(bytes \<times> interval) list"

definition new_tips_index :: "'t interval_tree \<Rightarrow> 't tips_index" where
  "new_tips_index lib = \<lparr>tips_tree = it_empty lib, tx_last_interval = []\<rparr>"

definition indexed :: "'t tips_index \<Rightarrow> bytes \<Rightarrow> bool" where
  "indexed ti h \<longleftrightarrow> map_of (tx_last_interval ti) h \<noteq> None"

text \<open>Put an interval in the place of another one of the same vertex.\<close>

definition replace_interval :: "'t interval_tree \<Rightarrow> 't tips_index \<Rightarrow> bytes \<Rightarrow> interval \<Rightarrow> int option \<Rightarrow> 't tips_index result" where
  "replace_interval lib ti h pi e =
     bindE (it_remove lib (tips_tree ti) pi) (\<lambda>t1.
     let new_interval = \<lparr>iv_begin = iv_begin pi, iv_end = e, iv_data = iv_data pi\<rparr> in
     bindE (it_add lib t1 new_interval) (\<lambda>t2.
     Inr \<lparr>tips_tree = t2, tx_last_interval = dict_set (tx_last_interval ti) h new_interval\<rparr>))"

definition fix_parent :: "'t interval_tree \<Rightarrow> vertex \<Rightarrow> 't tips_index \<Rightarrow> bytes \<Rightarrow> 't tips_index result" where
  "fix_parent lib v ti parent_hash =
     (case map_of (tx_last_interval ti) parent_hash of
        None \<Rightarrow> Inr ti
      | Some pi \<Rightarrow>
          if before_end (vtimestamp v) (iv_end pi) then replace_interval lib ti parent_hash pi (Some (vtimestamp v))
          else Inr ti)"

definition min_child_step :: "storage \<Rightarrow> 't tips_index \<Rightarrow> int option \<Rightarrow> bytes \<Rightarrow> int option result" where
  "min_child_step st ti min_timestamp child_hash =
     (if indexed ti child_hash
      then bindE (get_transaction st child_hash) (\<lambda>child. Inr (min_end min_timestamp (vtimestamp child)))
      else Inr min_timestamp)"

definition min_child :: "storage \<Rightarrow> 't tips_index \<Rightarrow> bytes \<Rightarrow> int option result" where
  "min_child st ti h = foldE (min_child_step st ti) None (children (st_meta st h))"

definition tips_add_tx :: "'t interval_tree \<Rightarrow> storage \<Rightarrow> 't tips_index \<Rightarrow> vertex \<Rightarrow> (bool \<times> 't tips_index) result" where
  "tips_add_tx lib st ti v =
     bindE (the_hash v) (\<lambda>h.
     if indexed ti h then Inr (False, ti)
     else
       bindE (foldE (fix_parent lib v) ti (parents (vertex_base v))) (\<lambda>ti1.
       bindE (min_child st ti1 h) (\<lambda>min_timestamp.
       let interval = \<lparr>iv_begin = vtimestamp v, iv_end = min_timestamp, iv_data = h\<rparr> in
       bindE (it_add lib (tips_tree ti1) interval) (\<lambda>t.
       Inr (True, \<lparr>tips_tree = t, tx_last_interval = dict_set (tx_last_interval ti1) h interval\<rparr>)))))"

definition tips_update_tx ::
  "'t interval_tree \<Rightarrow> storage \<Rightarrow> bool \<Rightarrow> 't tips_index \<Rightarrow> vertex \<Rightarrow> 't tips_index result" where
  "tips_update_tx lib st relax_assert ti v =
     bindE (the_hash v) (\<lambda>h.
     if voided_by (st_meta st h) \<noteq> {} then
       bindE (guardE (relax_assert \<or> \<not> indexed ti h) (PyE AssertionError)) (\<lambda>_. Inr ti)
     else
       bindE (of_option (PyE KeyError) (map_of (tx_last_interval ti) h)) (\<lambda>pi.
       bindE (min_child st ti h) (\<lambda>min_timestamp.
       if min_timestamp \<noteq> iv_end pi then replace_interval lib ti h pi min_timestamp else Inr ti)))"

definition update_parent ::
  "'t interval_tree \<Rightarrow> storage \<Rightarrow> bool \<Rightarrow> vertex \<Rightarrow> 't tips_index \<Rightarrow> bytes \<Rightarrow> 't tips_index result" where
  "update_parent lib st relax_assert v ti parent_hash =
     bindE (get_transaction st parent_hash) (\<lambda>parent.
     if is_block parent \<noteq> is_block v then Inr ti else tips_update_tx lib st relax_assert ti parent)"

definition tips_del_tx ::
  "'t interval_tree \<Rightarrow> storage \<Rightarrow> bool \<Rightarrow> 't tips_index \<Rightarrow> vertex \<Rightarrow> 't tips_index result" where
  "tips_del_tx lib st relax_assert ti v =
     bindE (the_hash v) (\<lambda>h.
     case map_of (tx_last_interval ti) h of
       None \<Rightarrow> Inr ti
     | Some interval \<Rightarrow>
         bindE (guardE (relax_assert \<or> iv_end interval = None) (PyE AssertionError)) (\<lambda>_.
         bindE (it_remove lib (tips_tree ti) interval) (\<lambda>t.
         foldE (update_parent lib st relax_assert v)
           \<lparr>tips_tree = t, tx_last_interval = filter (\<lambda>(k, _). k \<noteq> h) (tx_last_interval ti)\<rparr> (parents (vertex_base v)))))"

definition tips_at :: "'t interval_tree \<Rightarrow> 't tips_index \<Rightarrow> int \<Rightarrow> interval list" where
  "tips_at lib ti index = it_at lib (tips_tree ti) index"

subsection \<open>What the index stands for\<close>

text \<open>Parents and children in the metadata agree, and children are strictly newer.\<close>

definition dag_ok :: "storage \<Rightarrow> bool" where
  "dag_ok st \<longleftrightarrow> (\<forall>h v. st_txs st h = Some v \<longrightarrow> tx_hash (vertex_base v) = Some h \<and>
     (\<forall>c \<in> set (children (st_meta st h)). \<exists>u. st_txs st c = Some u \<and> vtimestamp v < vtimestamp u \<and> h \<in> set (parents (vertex_base u))) \<and>
     (\<forall>p \<in> set (parents (vertex_base v)). \<exists>u. st_txs st p = Some u \<and> vtimestamp u < vtimestamp v \<and> h \<in> set (children (st_meta st p))))"

definition time_of :: "storage \<Rightarrow> bytes \<Rightarrow> int" where
  "time_of st h = vtimestamp (the (st_txs st h))"

definition child_times :: "storage \<Rightarrow> bytes set \<Rightarrow> bytes \<Rightarrow> int set" where
  "child_times st K h = time_of st ` (set (children (st_meta st h)) \<inter> K)"

definition first_child :: "storage \<Rightarrow> bytes set \<Rightarrow> bytes \<Rightarrow> int option" where
  "first_child st K h = (if child_times st K h = {} then None else Some (Min (child_times st K h)))"

definition spec_interval :: "storage \<Rightarrow> bytes set \<Rightarrow> bytes \<Rightarrow> interval" where
  "spec_interval st K h = \<lparr>iv_begin = time_of st h, iv_end = first_child st K h, iv_data = h\<rparr>"

text \<open>The vertices that are tips at a time, among the indexed ones: already there and without a child.\<close>

definition tips_of :: "storage \<Rightarrow> bytes set \<Rightarrow> int \<Rightarrow> bytes set" where
  "tips_of st K t = {h \<in> K. time_of st h \<le> t \<and> (\<forall>c \<in> set (children (st_meta st h)) \<inter> K. t < time_of st c)}"

definition tips_content :: "'t interval_tree \<Rightarrow> 't tips_index \<Rightarrow> (bytes \<Rightarrow> interval option) \<Rightarrow> bool" where
  "tips_content lib ti m \<longleftrightarrow> map_of (tx_last_interval ti) = m \<and> it_items lib (tips_tree ti) = ran m \<and>
     (\<forall>h iv. m h = Some iv \<longrightarrow> iv_data iv = h)"

definition spec_map :: "storage \<Rightarrow> bytes set \<Rightarrow> bytes \<Rightarrow> interval option" where
  "spec_map st K h = (if h \<in> K then Some (spec_interval st K h) else None)"

definition tips_inv :: "'t interval_tree \<Rightarrow> storage \<Rightarrow> bytes set \<Rightarrow> 't tips_index \<Rightarrow> bool" where
  "tips_inv lib st K ti \<longleftrightarrow> tips_content lib ti (spec_map st K)"

lemma finite_child_times [simp]: "finite (child_times st K h)"
  by (simp add: child_times_def)

lemma before_first_child: "before_end t (first_child st K h) \<longleftrightarrow> (\<forall>c \<in> set (children (st_meta st h)) \<inter> K. t < time_of st c)"
  by (auto simp: before_end_def first_child_def child_times_def)

lemma min_end_first_child:
  "min_end (first_child st K h) t = Some (Min (insert t (child_times st K h)))"
  by (simp add: min_end_def first_child_def min.commute)

lemma first_child_insert:
  "first_child st (insert k K) h =
     (if k \<in> set (children (st_meta st h)) then min_end (first_child st K h) (time_of st k) else first_child st K h)"
proof -
  have "child_times st (insert k K) h =
      (if k \<in> set (children (st_meta st h)) then insert (time_of st k) (child_times st K h) else child_times st K h)"
    by (auto simp: child_times_def)
  then show ?thesis unfolding min_end_first_child by (simp add: first_child_def)
qed

lemma min_child_eq:
  assumes "dag_ok st" and "st_txs st h \<noteq> None" and "\<And>c. indexed ti c \<longleftrightarrow> c \<in> K"
  shows "min_child st ti h = Inr (first_child st K h)"
proof -
  have "foldE (min_child_step st ti) (first_child_in A) cs = Inr (first_child_in (A \<union> set cs))"
    if "set cs \<subseteq> dom (st_txs st)" "finite A" and first_child_in: "\<And>A. first_child_in A = (let T = time_of st ` (A \<inter> K) in if T = {} then None else Some (Min T))"
    for A cs and first_child_in :: "bytes set \<Rightarrow> int option"
    using that(1,2)
  proof (induction cs arbitrary: A)
    case (Cons c cs)
    then obtain u where u: "st_txs st c = Some u" by auto
    have "min_child_step st ti (first_child_in A) c = Inr (first_child_in (insert c A))"
      using u assms(3) Cons.prems(2)
      by (auto simp: min_child_step_def get_transaction_def of_option_def first_child_in min_end_def time_of_def min.commute)
    then show ?case using Cons.IH [of "insert c A"] Cons.prems by simp
  qed simp
  from this [of "children (st_meta st h)" "{}" "\<lambda>A. let T = time_of st ` (A \<inter> K) in if T = {} then None else Some (Min T)"]
  show ?thesis
    using assms(1,2) by (fastforce simp: min_child_def first_child_def child_times_def dag_ok_def)
qed

text \<open>Replacing, adding and removing intervals, seen on the map.\<close>

lemma it_remove_ok:
  assumes "it_ok lib" and "i \<in> it_items lib t"
  obtains t' where "it_remove lib t i = Inr t'" and "it_items lib t' = it_items lib t - {i}"
proof -
  have "\<forall>t i. if i \<in> it_items lib t
      then \<exists>t'. it_remove lib t i = Inr t' \<and> it_items lib t' = it_items lib t - {i}
      else it_remove lib t i = Inl (PyE ValueError)"
    using assms(1) unfolding it_ok_def by blast
  from this [rule_format, of i t] assms(2) that show ?thesis by auto
qed

lemma it_add_ok:
  assumes "it_ok lib" and "before_end (iv_begin i) (iv_end i)"
  obtains t' where "it_add lib t i = Inr t'" and "it_items lib t' = insert i (it_items lib t)"
proof -
  have "\<forall>t i. if before_end (iv_begin i) (iv_end i)
      then \<exists>t'. it_add lib t i = Inr t' \<and> it_items lib t' = insert i (it_items lib t)
      else it_add lib t i = Inl (PyE ValueError)"
    using assms(1) unfolding it_ok_def by blast
  from this [rule_format, of i t] assms(2) that show ?thesis by auto
qed

lemma ran_upd: "m h = Some iv \<Longrightarrow> \<forall>k i. m k = Some i \<longrightarrow> iv_data i = k \<Longrightarrow> ran (m(h \<mapsto> iv')) = insert iv' (ran m - {iv})"
  by (auto simp: ran_def) (metis option.inject)

lemma replace_interval_content:
  assumes "it_ok lib" and "tips_content lib ti m" and "m h = Some pi" and "before_end (iv_begin pi) e"
  shows "\<exists>ti'. replace_interval lib ti h pi e = Inr ti' \<and> tips_content lib ti' (m(h \<mapsto> pi\<lparr>iv_end := e\<rparr>))"
proof -
  have c: "map_of (tx_last_interval ti) = m" "it_items lib (tips_tree ti) = ran m" "\<forall>k i. m k = Some i \<longrightarrow> iv_data i = k"
    using assms(2) by (auto simp: tips_content_def)
  have "pi \<in> it_items lib (tips_tree ti)" using assms(3) c by (auto simp: ran_def)
  from it_remove_ok [OF assms(1) this] obtain t1 where
    t1: "it_remove lib (tips_tree ti) pi = Inr t1" "it_items lib t1 = ran m - {pi}"
    unfolding c(2) .
  define n where "n = \<lparr>iv_begin = iv_begin pi, iv_end = e, iv_data = iv_data pi\<rparr>"
  have n: "n = pi\<lparr>iv_end := e\<rparr>" by (simp add: n_def)
  have "before_end (iv_begin n) (iv_end n)" using assms(4) by (simp add: n_def)
  from it_add_ok [OF assms(1) this] obtain t2 where
    t2: "it_add lib t1 n = Inr t2" "it_items lib t2 = insert n (it_items lib t1)" .
  have "iv_data pi = h" using c(3) assms(3) by blast
  then have "tips_content lib \<lparr>tips_tree = t2, tx_last_interval = dict_set (tx_last_interval ti) h n\<rparr> (m(h \<mapsto> n))"
    using c t1(2) t2(2) ran_upd [OF assms(3) c(3)] by (auto simp: tips_content_def n_def)
  then show ?thesis using t1(1) t2(1) unfolding n [symmetric] by (simp add: replace_interval_def n_def Let_def)
qed

definition cut :: "int \<Rightarrow> interval \<Rightarrow> interval" where
  "cut t iv = (if before_end t (iv_end iv) then iv\<lparr>iv_end := Some t\<rparr> else iv)"

lemma cut_cut [simp]: "cut t (cut t iv) = cut t iv"
  by (simp add: cut_def before_end_def)

lemma iv_begin_cut [simp]: "iv_begin (cut t iv) = iv_begin iv"
  by (simp add: cut_def)

lemma fix_parent_content:
  assumes "it_ok lib" and "tips_content lib ti m" and "\<forall>iv. m p = Some iv \<longrightarrow> iv_begin iv < vtimestamp v"
  shows "\<exists>ti'. fix_parent lib v ti p = Inr ti' \<and> tips_content lib ti' (m(p := map_option (cut (vtimestamp v)) (m p)))"
proof (cases "m p")
  case None
  then have "m(p := map_option (cut (vtimestamp v)) (m p)) = m" by auto
  moreover have "map_of (tx_last_interval ti) = m" using assms(2) by (simp add: tips_content_def)
  ultimately show ?thesis using None assms(2) by (simp add: fix_parent_def)
next
  case (Some pi)
  have c: "map_of (tx_last_interval ti) = m" using assms(2) by (simp add: tips_content_def)
  have b: "before_end (iv_begin pi) (Some (vtimestamp v))" using Some assms(3) by (simp add: before_end_def)
  have "m(p \<mapsto> pi) = m" using Some by auto
  then show ?thesis
    using Some replace_interval_content [OF assms(1,2) Some b] assms(2) by (simp add: fix_parent_def c cut_def)
qed

lemma fix_parents_content:
  assumes "it_ok lib" and "tips_content lib ti m" and "\<forall>p \<in> set ps. \<forall>iv. m p = Some iv \<longrightarrow> iv_begin iv < vtimestamp v"
  shows "\<exists>ti'. foldE (fix_parent lib v) ti ps = Inr ti' \<and>
    tips_content lib ti' (\<lambda>p. if p \<in> set ps then map_option (cut (vtimestamp v)) (m p) else m p)"
  using assms(2,3)
proof (induction ps arbitrary: ti m)
  case (Cons p ps)
  let ?m = "m(p := map_option (cut (vtimestamp v)) (m p))"
  obtain ti1 where t: "fix_parent lib v ti p = Inr ti1" "tips_content lib ti1 ?m"
    using fix_parent_content [OF assms(1) Cons.prems(1), of p v] Cons.prems(2) by auto
  have "(\<lambda>q. if q \<in> set ps then map_option (cut (vtimestamp v)) (?m q) else ?m q) =
      (\<lambda>q. if q \<in> set (p # ps) then map_option (cut (vtimestamp v)) (m q) else m q)"
    by (auto simp: fun_eq_iff option.map_comp o_def)
  moreover have "\<forall>q \<in> set ps. \<forall>iv. ?m q = Some iv \<longrightarrow> iv_begin iv < vtimestamp v" using Cons.prems(2) by auto
  ultimately show ?case using Cons.IH [OF t(2)] t(1) by simp
qed simp

text \<open>Adding a vertex: its interval joins, those of its parents end at its time.\<close>

lemma spec_map_insert:
  assumes "dag_ok st" and "st_txs st h = Some v" and "h \<notin> K" and "K \<subseteq> dom (st_txs st)"
  shows "(\<lambda>p. if p \<in> set (parents (vertex_base v)) then map_option (cut (vtimestamp v)) (spec_map st K p) else spec_map st K p)
      (h \<mapsto> spec_interval st K h) = spec_map st (insert h K)"
proof
  fix p
  have self: "h \<notin> set (children (st_meta st h))" using assms(1,2) by (fastforce simp: dag_ok_def)
  have iff: "p \<in> set (parents (vertex_base v)) \<longleftrightarrow> h \<in> set (children (st_meta st p))" if "p \<in> K"
    using assms(1,2,4) that by (fastforce simp: dag_ok_def)
  have cut: "cut (vtimestamp v) (spec_interval st K p) = (spec_interval st K p)\<lparr>iv_end := min_end (first_child st K p) (time_of st h)\<rparr>"
    using assms(2) by (cases "first_child st K p") (auto simp: cut_def spec_interval_def before_end_def min_end_def time_of_def)
  show "((\<lambda>p. if p \<in> set (parents (vertex_base v)) then map_option (cut (vtimestamp v)) (spec_map st K p) else spec_map st K p)
      (h \<mapsto> spec_interval st K h)) p = spec_map st (insert h K) p"
    using self iff cut assms(3)
    by (auto simp: spec_map_def spec_interval_def first_child_insert)
qed

lemma tips_add_exact:
  assumes "it_ok lib" and "dag_ok st" and "tips_inv lib st K ti" and "st_txs st h = Some v" and "h \<notin> K" and "K \<subseteq> dom (st_txs st)"
  shows "\<exists>ti'. tips_add_tx lib st ti v = Inr (True, ti') \<and> tips_inv lib st (insert h K) ti'"
proof -
  have hash: "tx_hash (vertex_base v) = Some h" using assms(2,4) by (simp add: dag_ok_def)
  have c: "tips_content lib ti (spec_map st K)" using assms(3) by (simp add: tips_inv_def)
  have "\<forall>p \<in> set (parents (vertex_base v)). \<forall>iv. spec_map st K p = Some iv \<longrightarrow> iv_begin iv < vtimestamp v"
    using assms(2,4) by (fastforce simp: spec_map_def spec_interval_def dag_ok_def time_of_def split: if_splits)
  from fix_parents_content [OF assms(1) c this] obtain ti1 where
    t1: "foldE (fix_parent lib v) ti (parents (vertex_base v)) = Inr ti1"
    "tips_content lib ti1 (\<lambda>p. if p \<in> set (parents (vertex_base v)) then map_option (cut (vtimestamp v)) (spec_map st K p) else spec_map st K p)"
    by blast
  have ix: "indexed ti1 c \<longleftrightarrow> c \<in> K" for c
    using t1(2) by (auto simp: indexed_def tips_content_def spec_map_def)
  have mc: "min_child st ti1 h = Inr (first_child st K h)"
    by (rule min_child_eq [OF assms(2) _ ix]) (simp add: assms(4))
  define n where "n = spec_interval st K h"
  have "before_end (iv_begin n) (iv_end n)"
    using assms(2,4) unfolding n_def spec_interval_def by (fastforce simp: before_first_child time_of_def dag_ok_def)
  from it_add_ok [OF assms(1) this] obtain t where
    t: "it_add lib (tips_tree ti1) n = Inr t" "it_items lib t = insert n (it_items lib (tips_tree ti1))" .
  let ?m = "\<lambda>p. if p \<in> set (parents (vertex_base v)) then map_option (cut (vtimestamp v)) (spec_map st K p) else spec_map st K p"
  have "?m h = None" using assms(5) by (simp add: spec_map_def)
  then have "tips_content lib \<lparr>tips_tree = t, tx_last_interval = dict_set (tx_last_interval ti1) h n\<rparr> (?m(h \<mapsto> n))"
    using t1(2) t(2) by (auto simp: tips_content_def n_def spec_interval_def)
  then have "tips_inv lib st (insert h K) \<lparr>tips_tree = t, tx_last_interval = dict_set (tx_last_interval ti1) h n\<rparr>"
    unfolding tips_inv_def n_def spec_map_insert [OF assms(2,4,5,6)] .
  moreover have "\<not> indexed ti h" using c assms(5) by (simp add: indexed_def tips_content_def spec_map_def)
  moreover have "\<lparr>iv_begin = vtimestamp v, iv_end = first_child st K h, iv_data = h\<rparr> = n"
    using assms(4) by (simp add: n_def spec_interval_def time_of_def)
  ultimately show ?thesis
    using t1(1) mc t(1) hash by (simp add: tips_add_tx_def the_hash_def of_option_def Let_def)
qed

subsection \<open>Deleting a vertex\<close>

text \<open>While the parents are updated, those that are pending still count the deleted vertex.\<close>

definition mixed_map :: "storage \<Rightarrow> bytes set \<Rightarrow> bytes set \<Rightarrow> bytes set \<Rightarrow> bytes \<Rightarrow> interval option" where
  "mixed_map st K K' pending p = (if p \<in> K' then Some (spec_interval st (if p \<in> pending then K else K') p) else None)"

text \<open>Which vertices the index holds: executed ones of one kind, with their parents of that kind.\<close>

definition index_scope :: "storage \<Rightarrow> bool \<Rightarrow> bytes set \<Rightarrow> vertex \<Rightarrow> bool" where
  "index_scope st blocks K' v \<longleftrightarrow> is_block v = blocks \<and>
     (\<forall>k \<in> K'. \<exists>u. st_txs st k = Some u \<and> is_block u = blocks \<and> voided_by (st_meta st k) = {}) \<and>
     (\<forall>p \<in> set (parents (vertex_base v)). \<forall>u. st_txs st p = Some u \<and> is_block u = blocks \<and> voided_by (st_meta st p) = {} \<longrightarrow> p \<in> K')"

lemma update_parent_content:
  assumes "it_ok lib" and "dag_ok st" and "tips_content lib ti (mixed_map st K K' P)"
    and "index_scope st blocks K' v" and "q \<in> set (parents (vertex_base v))" and "st_txs st q = Some u"
  shows "\<exists>ti'. update_parent lib st relax v ti q = Inr ti' \<and> tips_content lib ti' (mixed_map st K K' (P - {q}))"
proof (cases "q \<in> K'")
  case False
  then have "mixed_map st K K' (P - {q}) = mixed_map st K K' P" by (auto simp: mixed_map_def fun_eq_iff)
  moreover have "is_block u \<noteq> is_block v \<or> voided_by (st_meta st q) \<noteq> {}"
    using assms(4,5,6) False by (auto simp: index_scope_def)
  moreover have "tx_hash (vertex_base u) = Some q" using assms(2,6) by (simp add: dag_ok_def)
  moreover have "\<not> indexed ti q" using assms(3) False by (simp add: indexed_def tips_content_def mixed_map_def)
  ultimately show ?thesis
    using assms(3,6)
    by (auto simp: update_parent_def get_transaction_def of_option_def tips_update_tx_def the_hash_def guardE_def)
next
  case True
  define m where "m = mixed_map st K K' P"
  define pi where "pi = spec_interval st (if q \<in> P then K else K') q"
  have c: "map_of (tx_last_interval ti) = m" using assms(3) by (simp add: tips_content_def m_def)
  have pi: "m q = Some pi" using True by (simp add: m_def mixed_map_def pi_def)
  have u: "is_block u = is_block v" "voided_by (st_meta st q) = {}" "tx_hash (vertex_base u) = Some q"
    using assms(2,4,6) True by (auto simp: index_scope_def dag_ok_def)
  have ix: "indexed ti x \<longleftrightarrow> x \<in> K'" for x using c by (auto simp: indexed_def m_def mixed_map_def)
  have mc: "min_child st ti q = Inr (first_child st K' q)"
    by (rule min_child_eq [OF assms(2) _ ix]) (simp add: assms(6))
  have next_map: "m(q \<mapsto> pi\<lparr>iv_end := first_child st K' q\<rparr>) = mixed_map st K K' (P - {q})"
    using True by (auto simp: fun_eq_iff m_def mixed_map_def pi_def spec_interval_def)
  have "before_end (iv_begin pi) (first_child st K' q)"
    using assms(2,6) by (fastforce simp: pi_def spec_interval_def before_first_child time_of_def dag_ok_def)
  from replace_interval_content [OF assms(1) assms(3) [folded m_def] pi this] obtain ti' where
    t: "replace_interval lib ti q pi (first_child st K' q) = Inr ti'" "tips_content lib ti' (mixed_map st K K' (P - {q}))"
    unfolding next_map by blast
  moreover have "tips_content lib ti (mixed_map st K K' (P - {q}))" if "first_child st K' q = iv_end pi"
  proof -
    have "m(q \<mapsto> pi\<lparr>iv_end := first_child st K' q\<rparr>) = m" using pi that by auto
    then show ?thesis using assms(3) next_map by (simp add: m_def)
  qed
  ultimately show ?thesis
    using u assms(6) c pi mc
    by (auto simp: update_parent_def get_transaction_def of_option_def tips_update_tx_def the_hash_def)
qed

lemma update_parents_content:
  assumes "it_ok lib" and "dag_ok st" and "tips_content lib ti (mixed_map st K K' P)"
    and "index_scope st blocks K' v" and "set qs \<subseteq> set (parents (vertex_base v))" and "set qs \<subseteq> dom (st_txs st)"
  shows "\<exists>ti'. foldE (update_parent lib st relax v) ti qs = Inr ti' \<and> tips_content lib ti' (mixed_map st K K' (P - set qs))"
  using assms(3,5,6)
proof (induction qs arbitrary: ti P)
  case (Cons q qs)
  then obtain u where "st_txs st q = Some u" by auto
  with Cons.prems obtain ti1 where t: "update_parent lib st relax v ti q = Inr ti1" "tips_content lib ti1 (mixed_map st K K' (P - {q}))"
    using update_parent_content [OF assms(1,2) Cons.prems(1) assms(4), of q u relax] by auto
  have "P - set (q # qs) = P - {q} - set qs" by auto
  then show ?case using Cons.IH [OF t(2)] Cons.prems(2,3) t(1) by simp
qed simp

lemma map_of_filter_neq: "map_of (filter (\<lambda>(k, _). k \<noteq> h) d) = (map_of d)(h := None)"
  by (induction d) auto

lemma child_parent:
  assumes "dag_ok st" and "st_txs st p = Some u" and "st_txs st h = Some v" and "h \<in> set (children (st_meta st p))"
  shows "p \<in> set (parents (vertex_base v))"
proof -
  have "\<exists>w. st_txs st h = Some w \<and> vtimestamp u < vtimestamp w \<and> p \<in> set (parents (vertex_base w))"
    using assms(1,2,4) unfolding dag_ok_def by blast
  with assms(3) show ?thesis by simp
qed

lemma spec_map_delete:
  assumes "dag_ok st" and "st_txs st h = Some v" and "K \<subseteq> dom (st_txs st)"
  shows "(spec_map st K)(h := None) = mixed_map st K (K - {h}) (set (parents (vertex_base v)))"
proof
  fix p
  have "child_times st K p = child_times st (K - {h}) p" if "p \<in> K" "p \<notin> set (parents (vertex_base v))"
  proof -
    obtain u where "st_txs st p = Some u" using assms(3) \<open>p \<in> K\<close> by blast
    then have "h \<notin> set (children (st_meta st p))" using child_parent [OF assms(1) _ assms(2)] that(2) by blast
    then show ?thesis by (auto simp: child_times_def)
  qed
  then show "((spec_map st K)(h := None)) p = mixed_map st K (K - {h}) (set (parents (vertex_base v))) p"
    by (auto simp: spec_map_def mixed_map_def spec_interval_def first_child_def)
qed

lemma tips_del_exact:
  assumes "it_ok lib" and "dag_ok st" and "tips_inv lib st K ti" and "st_txs st h = Some v" and "h \<in> K"
    and "index_scope st (is_block v) (K - {h}) v" and "relax \<or> first_child st K h = None"
  shows "\<exists>ti'. tips_del_tx lib st relax ti v = Inr ti' \<and> tips_inv lib st (K - {h}) ti'"
proof -
  have hash: "tx_hash (vertex_base v) = Some h" using assms(2,4) by (simp add: dag_ok_def)
  have c: "map_of (tx_last_interval ti) = spec_map st K" "it_items lib (tips_tree ti) = ran (spec_map st K)"
    using assms(3) by (simp_all add: tips_inv_def tips_content_def)
  define n where "n = spec_interval st K h"
  have n: "spec_map st K h = Some n" using assms(5) by (simp add: spec_map_def n_def)
  then have "n \<in> it_items lib (tips_tree ti)" unfolding c(2) by (auto simp: ran_def)
  from it_remove_ok [OF assms(1) this] obtain t where
    t: "it_remove lib (tips_tree ti) n = Inr t" "it_items lib t = ran (spec_map st K) - {n}"
    unfolding c(2) .
  define P where "P = set (parents (vertex_base v))"
  define ti0 where "ti0 = \<lparr>tips_tree = t, tx_last_interval = filter (\<lambda>(k, _). k \<noteq> h) (tx_last_interval ti)\<rparr>"
  have "K \<subseteq> dom (st_txs st)" using assms(4,6) by (auto simp: index_scope_def)
  then have m: "(spec_map st K)(h := None) = mixed_map st K (K - {h}) P"
    unfolding P_def by (rule spec_map_delete [OF assms(2,4)])
  have "ran ((spec_map st K)(h := None)) = ran (spec_map st K) - {n}"
    by (auto simp: ran_def spec_map_def n_def spec_interval_def split: if_splits)
  then have "tips_content lib ti0 (mixed_map st K (K - {h}) P)"
    using c t(2) unfolding m [symmetric]
    by (auto simp: tips_content_def ti0_def map_of_filter_neq spec_map_def spec_interval_def split: if_splits)
  moreover have "set (parents (vertex_base v)) \<subseteq> dom (st_txs st)" using assms(2,4) by (fastforce simp: dag_ok_def)
  ultimately obtain ti' where "foldE (update_parent lib st relax v) ti0 (parents (vertex_base v)) = Inr ti'"
    "tips_content lib ti' (mixed_map st K (K - {h}) (P - set (parents (vertex_base v))))"
    using update_parents_content [OF assms(1,2) _ assms(6)] by blast
  moreover have "mixed_map st K (K - {h}) (P - set (parents (vertex_base v))) = spec_map st (K - {h})"
    by (simp add: fun_eq_iff mixed_map_def spec_map_def P_def)
  moreover have "relax \<or> iv_end n = None" using assms(7) by (simp add: n_def spec_interval_def)
  ultimately show ?thesis
    using hash c(1) n t(1)
    by (auto simp: tips_del_tx_def the_hash_def of_option_def guardE_def tips_inv_def ti0_def)
qed

lemma tips_at_exact:
  assumes "it_ok lib" and "tips_inv lib st K ti"
  shows "iv_data ` set (tips_at lib ti t) = tips_of st K t" and "distinct (map iv_data (tips_at lib ti t))"
proof -
  have s: "set (tips_at lib ti t) = {i \<in> ran (spec_map st K). iv_begin i \<le> t \<and> before_end t (iv_end i)}"
    using assms unfolding it_ok_def tips_at_def tips_inv_def tips_content_def by (simp only:)
  also have eq: "\<dots> = spec_interval st K ` {h \<in> K. time_of st h \<le> t \<and> before_end t (first_child st K h)}"
    by (auto simp: ran_def spec_map_def spec_interval_def)
  finally show "iv_data ` set (tips_at lib ti t) = tips_of st K t"
    by (simp add: image_image spec_interval_def tips_of_def before_first_child)
  have "inj_on iv_data (set (tips_at lib ti t))"
    unfolding s eq by (auto simp: inj_on_def spec_interval_def)
  moreover have "distinct (tips_at lib ti t)" using assms(1) by (simp add: it_ok_def tips_at_def)
  ultimately show "distinct (map iv_data (tips_at lib ti t))" by (simp add: distinct_map)
qed


text \<open>A list of intervals as the tree, and a transaction with one child.\<close>

definition list_tree :: "interval list interval_tree" where
  "list_tree = \<lparr>it_empty = [], it_items = set,
     it_add = (\<lambda>t i. if before_end (iv_begin i) (iv_end i) then Inr (i # t) else Inl (PyE ValueError)),
     it_remove = (\<lambda>t i. if i \<in> set t then Inr (removeAll i t) else Inl (PyE ValueError)),
     it_at = (\<lambda>t p. remdups (filter (\<lambda>i. iv_begin i \<le> p \<and> before_end p (iv_end i)) t))\<rparr>"

lemma list_tree_ok: "it_ok list_tree"
  by (simp add: it_ok_def list_tree_def)

definition tips_vertex :: "byte \<Rightarrow> int \<Rightarrow> bytes list \<Rightarrow> vertex" where
  "tips_vertex b t ps = VTransaction \<lparr>nonce = 0, timestamp = t, version = 1, weight = 0, inputs = [], outputs = [],
     parents = ps, tx_hash = Some [b], tokens = []\<rparr>"

definition tips_storage :: storage where
  "tips_storage = \<lparr>st_txs = [[1] \<mapsto> tips_vertex 1 10 [], [2] \<mapsto> tips_vertex 2 20 [[1]]],
     st_meta = (\<lambda>h. (new_meta (Some h) 0 0)\<lparr>children := (if h = [1] then [[2]] else [])\<rparr>), st_best_tips = None\<rparr>"

definition sample_tips :: "interval list tips_index" where
  "sample_tips = (let i = \<lparr>iv_begin = 10, iv_end = None, iv_data = [1]\<rparr> in \<lparr>tips_tree = [i], tx_last_interval = [([1], i)]\<rparr>)"

lemma tips_storage_dag_ok: "dag_ok tips_storage"
  by (auto simp: dag_ok_def tips_storage_def tips_vertex_def new_meta_def base_transaction.defs split: if_splits)

lemma sample_tips_inv: "tips_inv list_tree tips_storage {[1]} sample_tips"
  by (auto simp: tips_inv_def tips_content_def spec_map_def spec_interval_def first_child_def child_times_def time_of_def
      sample_tips_def list_tree_def tips_storage_def tips_vertex_def new_meta_def base_transaction.defs Let_def ran_def)


end
