(* ===== verification/Tx_Index.thy ===== *)
theory Tx_Index
  imports Storage "HOL-Library.Product_Lexorder" "HOL-Library.List_Lexorder"
begin

text \<open>
  The index of vertices sorted by time (\<^verbatim>\<open>TransactionsIndex\<close> of \<^verbatim>\<open>hathor/indexes.py\<close>) and the
  functions that page through it. The sorted list itself is \<^verbatim>\<open>SortedKeyList\<close> of the package
  \<^verbatim>\<open>sortedcontainers\<close>, a parameter with the documented behaviour of its methods as a hypothesis.
  Elements are pairs of a timestamp and a hash and compare lexicographically.
\<close>

type_synonym index_element = "int \<times> bytes"

record 'l sorted_key_list =
  skl_empty :: 'l
  skl_list :: "'l \<Rightarrow> index_element list"
  skl_add :: "'l \<Rightarrow> index_element \<Rightarrow> 'l"
  skl_contains :: "'l \<Rightarrow> index_element \<Rightarrow> bool"
  skl_bisect_key_left :: "'l \<Rightarrow> index_element \<Rightarrow> nat"
  skl_pop :: "'l \<Rightarrow> nat \<Rightarrow> 'l"

text \<open>The list is kept sorted, \<^verbatim>\<open>bisect_key_left\<close> counts the elements below the key, \<^verbatim>\<open>pop\<close> removes by index.\<close>

definition skl_ok :: "'l sorted_key_list \<Rightarrow> bool" where
  "skl_ok lib \<longleftrightarrow> skl_list lib (skl_empty lib) = [] \<and>
     (\<forall>l x. sorted (skl_list lib l) \<longrightarrow> skl_list lib (skl_add lib l x) = insort x (skl_list lib l)) \<and>
     (\<forall>l x. skl_contains lib l x \<longleftrightarrow> x \<in> set (skl_list lib l)) \<and>
     (\<forall>l k. sorted (skl_list lib l) \<longrightarrow> skl_bisect_key_left lib l k = length (filter (\<lambda>y. y < k) (skl_list lib l))) \<and>
     (\<forall>l i. i < length (skl_list lib l) \<longrightarrow>
        skl_list lib (skl_pop lib l i) = take i (skl_list lib l) @ drop (Suc i) (skl_list lib l))"

text \<open>Python's slices clamp their bounds; a negative bound counts from the end.\<close>

definition py_bound :: "nat \<Rightarrow> int \<Rightarrow> nat" where
  "py_bound n i = (if i < 0 then nat (i + int n) else min n (nat i))"

definition py_slice :: "'a list \<Rightarrow> int \<Rightarrow> int \<Rightarrow> 'a list" where
  "py_slice xs i j = take (py_bound (length xs) j - py_bound (length xs) i) (drop (py_bound (length xs) i) xs)"

definition py_slice_from :: "'a list \<Rightarrow> int \<Rightarrow> 'a list" where
  "py_slice_from xs i = drop (py_bound (length xs) i) xs"

subsection \<open>Pages\<close>

definition get_newest_sorted_key_list :: "'l sorted_key_list \<Rightarrow> 'l \<Rightarrow> int \<Rightarrow> bytes list \<times> bool" where
  "get_newest_sorted_key_list lib l count =
     (let newest = rev (py_slice_from (skl_list lib l) (- count)) in
      (map snd newest, \<not> count \<ge> int (length (skl_list lib l))))"

definition get_older_sorted_key_list :: "'l sorted_key_list \<Rightarrow> 'l \<Rightarrow> int \<Rightarrow> bytes \<Rightarrow> int \<Rightarrow> bytes list \<times> bool" where
  "get_older_sorted_key_list lib l ts h count =
     (let idx = int (skl_bisect_key_left lib l (ts, h));
          first_idx = max 0 (idx - count);
          txs = rev (py_slice (skl_list lib l) first_idx idx)
      in (map snd txs, 0 < first_idx))"

definition get_newer_sorted_key_list :: "'l sorted_key_list \<Rightarrow> 'l \<Rightarrow> int \<Rightarrow> bytes \<Rightarrow> int \<Rightarrow> bytes list \<times> bool" where
  "get_newer_sorted_key_list lib l ts h count =
     (let idx = int (skl_bisect_key_left lib l (ts, h));
          last_idx = min (int (length (skl_list lib l))) (idx + 1 + count);
          txs = rev (py_slice (skl_list lib l) (idx + 1) last_idx)
      in (map snd txs, last_idx < int (length (skl_list lib l))))"

subsection \<open>The index\<close>

definition txs_add_tx :: "'l sorted_key_list \<Rightarrow> 'l \<Rightarrow> vertex \<Rightarrow> (bool \<times> 'l) result" where
  "txs_add_tx lib l v =
     bindE (the_hash v) (\<lambda>h.
     let element = (vtimestamp v, h) in
     if skl_contains lib l element then Inr (False, l)
     else Inr (True, skl_add lib l element))"

text \<open>The position of a vertex: the first element not below its key, if it has its hash.\<close>

definition find_tx_index :: "'l sorted_key_list \<Rightarrow> 'l \<Rightarrow> vertex \<Rightarrow> nat option result" where
  "find_tx_index lib l v =
     bindE (the_hash v) (\<lambda>h.
     let idx = skl_bisect_key_left lib l (vtimestamp v, h) in
     Inr (if idx < length (skl_list lib l) \<and> snd (skl_list lib l ! idx) = h then Some idx else None))"

definition txs_del_tx :: "'l sorted_key_list \<Rightarrow> 'l \<Rightarrow> vertex \<Rightarrow> 'l result" where
  "txs_del_tx lib l v =
     bindE (the_hash v) (\<lambda>h.
     let idx = skl_bisect_key_left lib l (vtimestamp v, h) in
     Inr (if idx < length (skl_list lib l) \<and> snd (skl_list lib l ! idx) = h then skl_pop lib l idx else l))"

definition txs_update :: "'l sorted_key_list \<Rightarrow> 'l \<Rightarrow> index_element list \<Rightarrow> 'l" where
  "txs_update lib l elements = foldl (skl_add lib) l elements"

definition find_first_at_timestamp :: "'l sorted_key_list \<Rightarrow> 'l \<Rightarrow> int \<Rightarrow> nat" where
  "find_first_at_timestamp lib l ts = skl_bisect_key_left lib l (ts, [])"

definition get_all_sorted_txs :: "'l sorted_key_list \<Rightarrow> 'l \<Rightarrow> int \<Rightarrow> int \<Rightarrow> int \<Rightarrow> 'l" where
  "get_all_sorted_txs lib l ts count offset =
     (let idx = int (find_first_at_timestamp lib l ts);
          txs = py_slice (skl_list lib l) idx (idx + offset + count)
      in txs_update lib (skl_empty lib) txs)"

subsection \<open>Sorted lists split at a key\<close>

lemma sorted_filter_less:
  assumes "sorted (xs :: 'a :: linorder list)"
  shows "filter (\<lambda>y. y < k) xs = take (length (filter (\<lambda>y. y < k) xs)) xs"
    and "filter (\<lambda>y. \<not> y < k) xs = drop (length (filter (\<lambda>y. y < k) xs)) xs"
proof -
  have e: "xs = filter (\<lambda>y. y < k) xs @ filter (\<lambda>y. \<not> y < k) xs"
    using assms
  proof (induction xs)
    case (Cons x xs)
    show ?case
    proof (cases "x < k")
      case False
      then have "filter (\<lambda>y. y < k) xs = []" "filter (\<lambda>y. \<not> y < k) xs = xs"
        using Cons.prems by (auto simp: filter_empty_conv intro!: filter_True)
      then show ?thesis using False by simp
    qed (use Cons in simp)
  qed simp
  show "filter (\<lambda>y. y < k) xs = take (length (filter (\<lambda>y. y < k) xs)) xs"
    by (subst (3) e) simp
  show "filter (\<lambda>y. \<not> y < k) xs = drop (length (filter (\<lambda>y. y < k) xs)) xs"
    by (subst (3) e) simp
qed

lemma py_bound_nat [simp]: "py_bound n (int i) = min n i"
  by (simp add: py_bound_def)

text \<open>
  What the index is relied on to be: sorted, without repetitions, one element for each hash.
\<close>

definition txs_inv :: "'l sorted_key_list \<Rightarrow> 'l \<Rightarrow> bool" where
  "txs_inv lib l \<longleftrightarrow> sorted (skl_list lib l) \<and> distinct (map snd (skl_list lib l))"

definition below :: "'l sorted_key_list \<Rightarrow> 'l \<Rightarrow> index_element \<Rightarrow> index_element list" where
  "below lib l k = filter (\<lambda>y. y < k) (skl_list lib l)"

definition beyond :: "'l sorted_key_list \<Rightarrow> 'l \<Rightarrow> index_element \<Rightarrow> index_element list" where
  "beyond lib l k = filter (\<lambda>y. k < y) (skl_list lib l)"

lemma bisect_eq: "skl_ok lib \<Longrightarrow> txs_inv lib l \<Longrightarrow> skl_bisect_key_left lib l k = length (below lib l k)"
  unfolding skl_ok_def txs_inv_def below_def by blast

lemma split_at_member:
  assumes "txs_inv lib l" and "k \<in> set (skl_list lib l)"
  shows "skl_list lib l = below lib l k @ k # beyond lib l k"
proof -
  have s: "sorted (skl_list lib l)" and d: "distinct (skl_list lib l)"
    using assms(1) by (auto simp: txs_inv_def distinct_map)
  obtain as bs where ab: "skl_list lib l = as @ k # bs" using assms(2) by (meson split_list)
  have "\<forall>x \<in> set as. x < k" "\<forall>x \<in> set bs. k < x"
    using s d unfolding ab by (auto simp: sorted_append order.strict_iff_order)
  then have "filter (\<lambda>y. y < k) as = as" "filter (\<lambda>y. y < k) bs = []" "filter (\<lambda>y. k < y) as = []" "filter (\<lambda>y. k < y) bs = bs"
    by (auto simp: filter_empty_conv intro!: filter_True)
  then show ?thesis by (simp add: ab below_def beyond_def)
qed

text \<open>
  The pages of the index are exact. Asking for older elements gives the hashes of the next
  \<open>count\<close> elements below the reference, newest first, and tells whether there are more; asking
  for newer ones gives the next \<open>count\<close> elements above a reference that is in the index; asking
  for a positive number of the newest gives the last \<open>count\<close> of the index.
\<close>

theorem pages_exact:
  assumes "skl_ok lib" and "txs_inv lib l" and "0 < count"
  shows "get_newest_sorted_key_list lib l (int count) =
      (map snd (take count (rev (skl_list lib l))), count < length (skl_list lib l)) \<and>
    get_older_sorted_key_list lib l ts h (int count) =
      (map snd (take count (rev (below lib l (ts, h)))), count < length (below lib l (ts, h))) \<and>
    ((ts, h) \<in> set (skl_list lib l) \<longrightarrow>
      get_newer_sorted_key_list lib l ts h (int count) =
        (map snd (rev (take count (beyond lib l (ts, h)))), count < length (beyond lib l (ts, h))))"
proof (intro conjI impI)
  let ?xs = "skl_list lib l" and ?n = "length (below lib l (ts, h))"
  have "py_bound (length ?xs) (- int count) = length ?xs - count"
    using assms(3) by (simp add: py_bound_def nat_diff_distrib')
  then show "get_newest_sorted_key_list lib l (int count) = (map snd (take count (rev ?xs)), count < length ?xs)"
    by (simp add: get_newest_sorted_key_list_def py_slice_from_def take_rev not_le)
  have s: "sorted ?xs" using assms(2) by (simp add: txs_inv_def)
  have b: "below lib l (ts, h) = take ?n ?xs"
    using sorted_filter_less(1) [OF s, of "(ts, h)"] by (simp add: below_def)
  have n: "?n \<le> length ?xs" by (simp add: below_def)
  have f: "max 0 (int ?n - int count) = int (?n - count)" by simp
  have "py_slice ?xs (int (?n - count)) (int ?n) = drop (?n - count) (below lib l (ts, h))"
    using n by (subst (4) b) (simp add: py_slice_def min_absorb2 drop_take)
  then show "get_older_sorted_key_list lib l ts h (int count) =
      (map snd (take count (rev (below lib l (ts, h)))), count < ?n)"
    by (simp add: get_older_sorted_key_list_def Let_def bisect_eq [OF assms(1,2)] f take_rev)
  assume m: "(ts, h) \<in> set ?xs"
  define a where "a = beyond lib l (ts, h)"
  have xs: "?xs = below lib l (ts, h) @ (ts, h) # a" unfolding a_def by (rule split_at_member [OF assms(2) m])
  have len: "length ?xs = ?n + 1 + length a" by (subst xs) simp
  have "py_slice ?xs (int (?n + 1)) (int (min (length ?xs) (?n + 1 + count))) = take count a"
    unfolding py_slice_def py_bound_nat len by (subst xs) (simp add: min_def)
  then show "get_newer_sorted_key_list lib l ts h (int count) = (map snd (rev (take count a)), count < length a)"
    using len by (simp add: get_newer_sorted_key_list_def Let_def bisect_eq [OF assms(1,2)] min_def ac_simps split: if_splits)
qed

text \<open>A sorted list as the library, for examples.\<close>

definition list_skl :: "index_element list sorted_key_list" where
  "list_skl = \<lparr>skl_empty = [], skl_list = (\<lambda>l. l), skl_add = (\<lambda>l x. insort x l), skl_contains = (\<lambda>l x. x \<in> set l),
     skl_bisect_key_left = (\<lambda>l k. length (filter (\<lambda>y. y < k) l)), skl_pop = (\<lambda>l i. take i l @ drop (Suc i) l)\<rparr>"

lemma list_skl_ok: "skl_ok list_skl"
  by (simp add: skl_ok_def list_skl_def)

theorem pages_exact_witness:
  "get_older_sorted_key_list list_skl [(1, [7]), (2, [5]), (2, [6]), (4, [1])] 4 [1] 2 = ([[6], [5]], True)"
  using pages_exact [OF list_skl_ok, of "[(1, [7]), (2, [5]), (2, [6]), (4, [1])]" 2 4 "[1]"]
  by (simp add: txs_inv_def list_skl_def below_def)

subsection \<open>The index as a set\<close>

lemma index_at:
  assumes "skl_ok lib" and "txs_inv lib l" and "\<forall>t. (t, h) \<in> set (skl_list lib l) \<longrightarrow> t = ts"
  defines "i \<equiv> skl_bisect_key_left lib l (ts, h)"
  shows "i < length (skl_list lib l) \<and> snd (skl_list lib l ! i) = h \<longleftrightarrow> (ts, h) \<in> set (skl_list lib l)"
    and "(ts, h) \<in> set (skl_list lib l) \<Longrightarrow> skl_list lib l ! i = (ts, h)"
proof -
  have i: "i = length (below lib l (ts, h))" unfolding i_def by (rule bisect_eq [OF assms(1,2)])
  show "i < length (skl_list lib l) \<and> snd (skl_list lib l ! i) = h \<longleftrightarrow> (ts, h) \<in> set (skl_list lib l)"
  proof
    assume a: "i < length (skl_list lib l) \<and> snd (skl_list lib l ! i) = h"
    then have "(fst (skl_list lib l ! i), h) \<in> set (skl_list lib l)" by (metis nth_mem prod.collapse)
    with assms(3) show "(ts, h) \<in> set (skl_list lib l)" by metis
  next
    assume "(ts, h) \<in> set (skl_list lib l)"
    from split_at_member [OF assms(2) this] show "i < length (skl_list lib l) \<and> snd (skl_list lib l ! i) = h"
      unfolding i by (metis add_Suc_right length_append length_Cons less_add_Suc1 nth_append_length snd_conv)
  qed
  show "skl_list lib l ! i = (ts, h)" if "(ts, h) \<in> set (skl_list lib l)"
    using split_at_member [OF assms(2) that] unfolding i by (metis nth_append_length)
qed

lemma pop_member:
  assumes "skl_ok lib" and "txs_inv lib l" and "k \<in> set (skl_list lib l)"
  defines "l' \<equiv> skl_pop lib l (skl_bisect_key_left lib l k)"
  shows "txs_inv lib l'" and "set (skl_list lib l') = set (skl_list lib l) - {k}"
proof -
  let ?i = "skl_bisect_key_left lib l k"
  have i: "?i = length (below lib l k)" by (rule bisect_eq [OF assms(1,2)])
  have s: "sorted (skl_list lib l)" and d: "distinct (map snd (skl_list lib l))"
    using assms(2) by (simp_all add: txs_inv_def)
  note xs = split_at_member [OF assms(2,3)]
  have "?i < length (skl_list lib l)" unfolding i by (subst xs) simp
  then have "skl_list lib l' = take ?i (skl_list lib l) @ drop (Suc ?i) (skl_list lib l)"
    using assms(1) unfolding skl_ok_def l'_def by blast
  also have "\<dots> = below lib l k @ beyond lib l k" unfolding i by (subst (1 2) xs) simp
  finally have p: "skl_list lib l' = below lib l k @ beyond lib l k" .
  show "set (skl_list lib l') = set (skl_list lib l) - {k}"
    unfolding p using d by (subst xs) (auto simp: below_def beyond_def)
  show "txs_inv lib l'"
    using s d unfolding txs_inv_def p by (subst (asm) (1 2) xs) (auto simp: sorted_append)
qed

lemma add_member:
  assumes "skl_ok lib" and "txs_inv lib l" and "k \<notin> set (skl_list lib l)"
    and "\<forall>t. (t, snd k) \<in> set (skl_list lib l) \<longrightarrow> t = fst k"
  shows "txs_inv lib (skl_add lib l k)" and "set (skl_list lib (skl_add lib l k)) = insert k (set (skl_list lib l))"
proof -
  have s: "sorted (skl_list lib l)" and d: "distinct (map snd (skl_list lib l))"
    using assms(2) by (simp_all add: txs_inv_def)
  have "skl_list lib (skl_add lib l k) = insort k (skl_list lib l)"
    using assms(1) s unfolding skl_ok_def by blast
  moreover have "snd k \<notin> snd ` set (skl_list lib l)" using assms(3,4) by (cases k) force
  ultimately show "txs_inv lib (skl_add lib l k)" "set (skl_list lib (skl_add lib l k)) = insert k (set (skl_list lib l))"
    using assms(3) s d by (auto simp: txs_inv_def sorted_insort set_insort_key distinct_map distinct_insort)
qed

lemma txs_add_exact:
  assumes "skl_ok lib" and "txs_inv lib l" and "tx_hash (vertex_base v) = Some h"
    and "\<forall>t. (t, h) \<in> set (skl_list lib l) \<longrightarrow> t = vtimestamp v"
  shows "\<exists>l'. txs_add_tx lib l v = Inr ((vtimestamp v, h) \<notin> set (skl_list lib l), l') \<and> txs_inv lib l' \<and>
    set (skl_list lib l') = insert (vtimestamp v, h) (set (skl_list lib l))"
proof -
  have "skl_contains lib l (vtimestamp v, h) \<longleftrightarrow> (vtimestamp v, h) \<in> set (skl_list lib l)"
    using assms(1) unfolding skl_ok_def by blast
  then have c: "txs_add_tx lib l v = Inr (if (vtimestamp v, h) \<in> set (skl_list lib l) then (False, l)
      else (True, skl_add lib l (vtimestamp v, h)))"
    using assms(3) by (simp add: txs_add_tx_def the_hash_def Let_def)
  show ?thesis
  proof (cases "(vtimestamp v, h) \<in> set (skl_list lib l)")
    case True
    then show ?thesis using assms(2) unfolding c by (simp add: insert_absorb)
  next
    case False
    then show ?thesis using add_member [OF assms(1,2) False] assms(4) unfolding c by simp
  qed
qed

lemma txs_del_exact:
  assumes "skl_ok lib" and "txs_inv lib l" and "tx_hash (vertex_base v) = Some h"
    and "\<forall>t. (t, h) \<in> set (skl_list lib l) \<longrightarrow> t = vtimestamp v"
  shows "\<exists>l'. txs_del_tx lib l v = Inr l' \<and> txs_inv lib l' \<and>
    set (skl_list lib l') = set (skl_list lib l) - {(vtimestamp v, h)}"
proof -
  have c: "txs_del_tx lib l v = Inr (if (vtimestamp v, h) \<in> set (skl_list lib l)
      then skl_pop lib l (skl_bisect_key_left lib l (vtimestamp v, h)) else l)"
    using assms(3) index_at(1) [OF assms(1,2,4)] by (simp add: txs_del_tx_def the_hash_def Let_def)
  show ?thesis
    using pop_member [OF assms(1,2), of "(vtimestamp v, h)"] assms(2) unfolding c
    by (cases "(vtimestamp v, h) \<in> set (skl_list lib l)") simp_all
qed

text \<open>
  C23: the index implements a set of pairs of timestamps and hashes. Adding a vertex inserts its
  pair and reports whether it was new; deleting removes exactly the pair of the vertex, and finding
  it gives the position of the pair, if it is there. All keep the index sorted and without
  repetitions, given that a hash belongs to one timestamp.
\<close>

theorem txs_index_refines:
  assumes "skl_ok lib" and "txs_inv lib l" and "tx_hash (vertex_base v) = Some h"
    and "\<forall>t. (t, h) \<in> set (skl_list lib l) \<longrightarrow> t = vtimestamp v"
  shows "(\<exists>l'. txs_add_tx lib l v = Inr ((vtimestamp v, h) \<notin> set (skl_list lib l), l') \<and> txs_inv lib l' \<and>
      set (skl_list lib l') = insert (vtimestamp v, h) (set (skl_list lib l))) \<and>
    (\<exists>l'. txs_del_tx lib l v = Inr l' \<and> txs_inv lib l' \<and>
      set (skl_list lib l') = set (skl_list lib l) - {(vtimestamp v, h)}) \<and>
    (\<exists>p. find_tx_index lib l v = Inr p \<and>
      (case p of None \<Rightarrow> (vtimestamp v, h) \<notin> set (skl_list lib l)
       | Some i \<Rightarrow> i < length (skl_list lib l) \<and> skl_list lib l ! i = (vtimestamp v, h)))"
proof -
  have "\<exists>p. find_tx_index lib l v = Inr p \<and>
      (case p of None \<Rightarrow> (vtimestamp v, h) \<notin> set (skl_list lib l)
       | Some i \<Rightarrow> i < length (skl_list lib l) \<and> skl_list lib l ! i = (vtimestamp v, h))"
    using assms(3) index_at [OF assms(1,2,4)] by (auto simp: find_tx_index_def the_hash_def of_option_def Let_def)
  with txs_add_exact [OF assms] txs_del_exact [OF assms] show ?thesis by blast
qed

definition sample_indexed :: vertex where
  "sample_indexed = VTransaction \<lparr>nonce = 0, timestamp = 4, version = 1, weight = 0, inputs = [], outputs = [],
     parents = [], tx_hash = Some [1], tokens = []\<rparr>"

theorem txs_index_refines_witness:
  "\<exists>l'. txs_del_tx list_skl [(1, [7]), (2, [5]), (4, [1])] sample_indexed = Inr l' \<and> txs_inv list_skl l' \<and>
    set (skl_list list_skl l') = {(1, [7]), (2, [5])}"
proof -
  let ?xs = "[(1, [7]), (2, [5]), (4, [1])] :: index_element list"
  have l: "skl_list list_skl = (\<lambda>l. l)" by (simp add: list_skl_def)
  have v: "vtimestamp sample_indexed = 4" "tx_hash (vertex_base sample_indexed) = Some [1]"
    by (simp_all add: sample_indexed_def base_transaction.defs)
  have i: "txs_inv list_skl ?xs" by (simp add: txs_inv_def l)
  have t: "\<forall>t. (t, [1]) \<in> set (skl_list list_skl ?xs) \<longrightarrow> t = vtimestamp sample_indexed" by (simp add: l v)
  have s: "set ?xs - {(4, [1])} = {(1, [7]), (2, [5])}" by auto
  from txs_index_refines [OF list_skl_ok i v(2) t] show ?thesis unfolding v l s by blast
qed

text \<open>
  Asking for the newest zero elements gives the whole index, because \<^verbatim>\<open>key_list[-0:]\<close> is the whole
  list, and asking for elements newer than a reference that is not in the index leaves out the first
  of them.
\<close>

lemma newest_zero:
  "get_newest_sorted_key_list lib l 0 = (map snd (rev (skl_list lib l)), skl_list lib l \<noteq> [])"
  by (simp add: get_newest_sorted_key_list_def py_slice_from_def py_bound_def)

lemma newer_than_absent: "get_newer_sorted_key_list list_skl [(1, [7]), (3, [5])] 2 [0] 5 = ([], False)"
  by (simp add: get_newer_sorted_key_list_def list_skl_def py_slice_def py_bound_def)

end
