(* ===== verification/Tokens_Index.thy ===== *)
theory Tokens_Index
  imports Token_Sums Tx_Index
begin

text \<open>
  The index of tokens (\<^verbatim>\<open>TokensIndex\<close> of \<^verbatim>\<open>hathor/indexes.py\<close>): name, symbol, amount in
  circulation, unspent authorities and transactions of every token. Reading a token that is not in
  the dictionary creates an empty entry.
\<close>

record 'l token_status =
  ts_name :: "pystr option"
  ts_symbol :: "pystr option"
  ts_total :: int
  ts_mint :: "(bytes \<times> int) set"
  ts_melt :: "(bytes \<times> int) set"
  ts_transactions :: 'l

type_synonym 'l tokens_dict = "(bytes \<times> 'l token_status) list"

definition new_status :: "'l sorted_key_list \<Rightarrow> 'l token_status" where
  "new_status lib = \<lparr>ts_name = None, ts_symbol = None, ts_total = 0, ts_mint = {}, ts_melt = {}, ts_transactions = skl_empty lib\<rparr>"

definition status_of :: "'l sorted_key_list \<Rightarrow> 'l tokens_dict \<Rightarrow> bytes \<Rightarrow> 'l token_status" where
  "status_of lib d uid = (case map_of d uid of None \<Rightarrow> new_status lib | Some s \<Rightarrow> s)"

definition update_status ::
  "'l sorted_key_list \<Rightarrow> 'l tokens_dict \<Rightarrow> bytes \<Rightarrow> ('l token_status \<Rightarrow> 'l token_status) \<Rightarrow> 'l tokens_dict" where
  "update_status lib d uid f = dict_set d uid (f (status_of lib d uid))"

text \<open>The hash of a vertex, and the output at an index with its token.\<close>

definition output_at :: "vertex \<Rightarrow> int \<Rightarrow> (bytes \<times> bytes \<times> txoutput) result" where
  "output_at v index =
     bindE (the_hash v) (\<lambda>h.
     bindE (py_nth (outputs (vertex_base v)) index) (\<lambda>out.
     bindE (vertex_get_token_uid v (get_token_index out)) (\<lambda>uid. Inr (h, uid, out))))"

definition add_to_index :: "'l sorted_key_list \<Rightarrow> vertex \<Rightarrow> 'l tokens_dict \<Rightarrow> int \<Rightarrow> 'l tokens_dict result" where
  "add_to_index lib v d index =
     bindE (output_at v index) (\<lambda>(h, uid, out).
     Inr (if is_token_authority out then
            let d1 = (if can_mint_token out then update_status lib d uid (\<lambda>s. s\<lparr>ts_mint := insert (h, index) (ts_mint s)\<rparr>) else d)
            in (if can_melt_token out then update_status lib d1 uid (\<lambda>s. s\<lparr>ts_melt := insert (h, index) (ts_melt s)\<rparr>) else d1)
          else update_status lib d uid (\<lambda>s. s\<lparr>ts_total := ts_total s + to_value out\<rparr>)))"

definition remove_from_index :: "'l sorted_key_list \<Rightarrow> vertex \<Rightarrow> 'l tokens_dict \<Rightarrow> int \<Rightarrow> 'l tokens_dict result" where
  "remove_from_index lib v d index =
     bindE (output_at v index) (\<lambda>(h, uid, out).
     Inr (if is_token_authority out then
            let d1 = (if can_mint_token out then update_status lib d uid (\<lambda>s. s\<lparr>ts_mint := ts_mint s - {(h, index)}\<rparr>) else d)
            in (if can_melt_token out then update_status lib d1 uid (\<lambda>s. s\<lparr>ts_melt := ts_melt s - {(h, index)}\<rparr>) else d1)
          else update_status lib d uid (\<lambda>s. s\<lparr>ts_total := ts_total s - to_value out\<rparr>)))"

text \<open>An operation on the outputs that the inputs of a vertex spend, and on its own outputs.\<close>

definition for_spent ::
  "storage \<Rightarrow> vertex \<Rightarrow> (vertex \<Rightarrow> 'd \<Rightarrow> int \<Rightarrow> 'd result) \<Rightarrow> 'd \<Rightarrow> 'd result" where
  "for_spent st v f d =
     foldE (\<lambda>d i. bindE (get_transaction st (ti_tx_id i)) (\<lambda>spent_tx. f spent_tx d (ti_index i))) d (inputs (vertex_base v))"

definition for_outputs :: "vertex \<Rightarrow> (vertex \<Rightarrow> 'd \<Rightarrow> int \<Rightarrow> 'd result) \<Rightarrow> 'd \<Rightarrow> 'd result" where
  "for_outputs v f d = foldE (f v) d (map int [0..<length (outputs (vertex_base v))])"

definition TOKEN_CREATION_VERSION :: int where "TOKEN_CREATION_VERSION = 2"

definition set_token_names :: "'l sorted_key_list \<Rightarrow> vertex \<Rightarrow> 'l tokens_dict \<Rightarrow> 'l tokens_dict result" where
  "set_token_names lib v d =
     (if version (vertex_base v) = TOKEN_CREATION_VERSION then
        bindE (the_hash v) (\<lambda>h.
        case v of
          VTokenCreation t \<Rightarrow>
            Inr (update_status lib d h (\<lambda>s. s\<lparr>ts_name := Some (token_name t), ts_symbol := Some (token_symbol t)\<rparr>))
        | _ \<Rightarrow> Inl (PyE AttributeError))
      else Inr d)"

text \<open>Adding to the lists of transactions stops at the first token that has the transaction already.\<close>

fun add_to_token_txs :: "'l sorted_key_list \<Rightarrow> index_element \<Rightarrow> 'l tokens_dict \<Rightarrow> bytes list \<Rightarrow> 'l tokens_dict" where
  "add_to_token_txs lib element d [] = d"
| "add_to_token_txs lib element d (uid # uids) =
     (let d1 = update_status lib d uid (\<lambda>s. s) in
      if skl_contains lib (ts_transactions (status_of lib d uid)) element then d1
      else add_to_token_txs lib element
             (update_status lib d1 uid (\<lambda>s. s\<lparr>ts_transactions := skl_add lib (ts_transactions s) element\<rparr>)) uids)"

definition del_from_token_txs :: "'l sorted_key_list \<Rightarrow> index_element \<Rightarrow> 'l tokens_dict \<Rightarrow> bytes \<Rightarrow> 'l tokens_dict" where
  "del_from_token_txs lib element d uid =
     update_status lib d uid (\<lambda>s.
       let l = ts_transactions s; idx = skl_bisect_key_left lib l element in
       if idx < length (skl_list lib l) \<and> snd (skl_list lib l ! idx) = snd element
       then s\<lparr>ts_transactions := skl_pop lib l idx\<rparr> else s)"

definition tokens_add_tx :: "'l sorted_key_list \<Rightarrow> storage \<Rightarrow> vertex \<Rightarrow> 'l tokens_dict \<Rightarrow> 'l tokens_dict result" where
  "tokens_add_tx lib st v d =
     bindE (for_spent st v (remove_from_index lib) d) (\<lambda>d1.
     bindE (for_outputs v (add_to_index lib) d1) (\<lambda>d2.
     bindE (set_token_names lib v d2) (\<lambda>d3.
     if is_block v \<or> vertex_tokens v = [] then Inr d3
     else bindE (the_hash v) (\<lambda>h. Inr (add_to_token_txs lib (vtimestamp v, h) d3 (vertex_tokens v))))))"

definition tokens_del_tx :: "'l sorted_key_list \<Rightarrow> storage \<Rightarrow> vertex \<Rightarrow> 'l tokens_dict \<Rightarrow> 'l tokens_dict result" where
  "tokens_del_tx lib st v d =
     bindE (for_spent st v (add_to_index lib) d) (\<lambda>d1.
     bindE (for_outputs v (remove_from_index lib) d1) (\<lambda>d2.
     bindE (if version (vertex_base v) = TOKEN_CREATION_VERSION then
              bindE (the_hash v) (\<lambda>h.
              bindE (guardE (map_of d2 h \<noteq> None) (PyE KeyError)) (\<lambda>_. Inr (filter (\<lambda>(k, _). k \<noteq> h) d2)))
            else Inr d2) (\<lambda>d3.
     if is_block v \<or> vertex_tokens v = [] then Inr d3
     else bindE (the_hash v) (\<lambda>h. Inr (foldl (del_from_token_txs lib (vtimestamp v, h)) d3 (vertex_tokens v))))))"

definition get_token_info :: "'l tokens_dict \<Rightarrow> bytes \<Rightarrow> 'l token_status result" where
  "get_token_info d uid = of_option (PyE KeyError) (map_of d uid)"

definition get_transactions_count :: "'l sorted_key_list \<Rightarrow> 'l tokens_dict \<Rightarrow> bytes \<Rightarrow> nat" where
  "get_transactions_count lib d uid =
     (case map_of d uid of None \<Rightarrow> 0 | Some s \<Rightarrow> length (skl_list lib (ts_transactions s)))"

definition get_newest_transactions :: "'l sorted_key_list \<Rightarrow> 'l tokens_dict \<Rightarrow> bytes \<Rightarrow> int \<Rightarrow> bytes list \<times> bool" where
  "get_newest_transactions lib d uid count =
     (case map_of d uid of None \<Rightarrow> ([], False) | Some s \<Rightarrow> get_newest_sorted_key_list lib (ts_transactions s) count)"

definition get_older_transactions ::
  "'l sorted_key_list \<Rightarrow> 'l tokens_dict \<Rightarrow> bytes \<Rightarrow> int \<Rightarrow> bytes \<Rightarrow> int \<Rightarrow> bytes list \<times> bool" where
  "get_older_transactions lib d uid ts h count =
     (case map_of d uid of None \<Rightarrow> ([], False) | Some s \<Rightarrow> get_older_sorted_key_list lib (ts_transactions s) ts h count)"

definition get_newer_transactions ::
  "'l sorted_key_list \<Rightarrow> 'l tokens_dict \<Rightarrow> bytes \<Rightarrow> int \<Rightarrow> bytes \<Rightarrow> int \<Rightarrow> bytes list \<times> bool" where
  "get_newer_transactions lib d uid ts h count =
     (case map_of d uid of None \<Rightarrow> ([], False) | Some s \<Rightarrow> get_newer_sorted_key_list lib (ts_transactions s) ts h count)"

subsection \<open>Amounts in circulation\<close>

definition token_total :: "'l sorted_key_list \<Rightarrow> 'l tokens_dict \<Rightarrow> bytes \<Rightarrow> int" where
  "token_total lib d u = ts_total (status_of lib d u)"

lemma status_of_update [simp]:
  "status_of lib (update_status lib d uid f) u = (if u = uid then f (status_of lib d uid) else status_of lib d u)"
  by (simp add: update_status_def status_of_def)

lemma add_to_index_total:
  assumes "add_to_index lib v d i = Inr d'"
  shows "\<exists>uid out. py_nth (outputs (vertex_base v)) i = Inr out \<and> vertex_get_token_uid v (get_token_index out) = Inr uid \<and>
    (\<forall>u. token_total lib d' u = token_total lib d u + token_sum [(uid, out)] u)"
  using assms
  by (auto simp: add_to_index_def output_at_def result_iff token_sum_def Let_def token_total_def)

lemma remove_from_index_total:
  assumes "remove_from_index lib v d i = Inr d'"
  shows "\<exists>uid out. py_nth (outputs (vertex_base v)) i = Inr out \<and> vertex_get_token_uid v (get_token_index out) = Inr uid \<and>
    (\<forall>u. token_total lib d' u = token_total lib d u - token_sum [(uid, out)] u)"
  using assms
  by (auto simp: remove_from_index_def output_at_def result_iff token_sum_def Let_def token_total_def)

lemma token_sum_append [simp]: "token_sum (xs @ ys) u = token_sum xs u + token_sum ys u"
  by (simp add: token_sum_def)

lemma token_sum_Cons: "token_sum (x # xs) u = token_sum [x] u + token_sum xs u"
  by (simp add: token_sum_def)

lemma spent_total:
  assumes "for_spent st v (remove_from_index lib) d = Inr d'"
  shows "\<exists>ins. mapE (spent_output st) (inputs (vertex_base v)) = Inr ins \<and>
    (\<forall>u. token_total lib d' u = token_total lib d u - token_sum ins u)"
proof -
  have "\<exists>ins. mapE (spent_output st) is = Inr ins \<and> (\<forall>u. token_total lib d' u = token_total lib d u - token_sum ins u)"
    if "foldE (\<lambda>d i. bindE (get_transaction st (ti_tx_id i)) (\<lambda>spent_tx. remove_from_index lib spent_tx d (ti_index i))) d is = Inr d'"
    for "is" d
    using that
  proof (induction "is" arbitrary: d)
    case Nil
    then show ?case by (simp add: token_sum_def)
  next
    case (Cons i "is")
    then obtain w d1 where w: "get_transaction st (ti_tx_id i) = Inr w" "remove_from_index lib w d (ti_index i) = Inr d1"
      "foldE (\<lambda>d i. bindE (get_transaction st (ti_tx_id i)) (\<lambda>spent_tx. remove_from_index lib spent_tx d (ti_index i))) d1 is = Inr d'"
      by (auto simp: result_iff)
    from remove_from_index_total [OF w(2)] obtain uid out where o: "spent_output st i = Inr (uid, out)"
      "\<forall>u. token_total lib d1 u = token_total lib d u - token_sum [(uid, out)] u"
      using w(1) by (auto simp: spent_output_def)
    from Cons.IH [OF w(3)] obtain ins where "mapE (spent_output st) is = Inr ins"
      "\<forall>u. token_total lib d' u = token_total lib d1 u - token_sum ins u" by blast
    then show ?case using o token_sum_Cons [of "(uid, out)" ins] by simp
  qed
  then show ?thesis using assms by (simp add: for_spent_def)
qed

lemma mapE_snoc: "mapE f (xs @ [x]) = bindE (mapE f xs) (\<lambda>ys. bindE (f x) (\<lambda>y. Inr (ys @ [y])))"
  by (induction xs) (simp_all add: bindE_assoc bindE_def split: sum.splits)

lemma outputs_total:
  assumes "for_outputs v (add_to_index lib) d = Inr d'"
  shows "\<exists>outs. mapE (own_output v) (outputs (vertex_base v)) = Inr outs \<and>
    (\<forall>u. token_total lib d' u = token_total lib d u + token_sum outs u)"
proof -
  have "\<exists>outs. mapE (own_output v) (take n (outputs (vertex_base v))) = Inr outs \<and>
      (\<forall>u. token_total lib d' u = token_total lib d u + token_sum outs u)"
    if "foldE (add_to_index lib v) d (map int [0..<n]) = Inr d'" and "n \<le> length (outputs (vertex_base v))" for n d'
    using that
  proof (induction n arbitrary: d')
    case 0
    then show ?case by (simp add: token_sum_def)
  next
    case (Suc n)
    then obtain d1 where d1: "foldE (add_to_index lib v) d (map int [0..<n]) = Inr d1" "add_to_index lib v d1 (int n) = Inr d'"
      by (auto simp: foldE_append result_iff)
    from Suc.IH [OF d1(1)] Suc.prems(2) obtain outs where outs: "mapE (own_output v) (take n (outputs (vertex_base v))) = Inr outs"
      "\<forall>u. token_total lib d1 u = token_total lib d u + token_sum outs u" by auto
    from add_to_index_total [OF d1(2)] obtain uid out where o: "py_nth (outputs (vertex_base v)) (int n) = Inr out"
      "vertex_get_token_uid v (get_token_index out) = Inr uid"
      "\<forall>u. token_total lib d' u = token_total lib d1 u + token_sum [(uid, out)] u" by blast
    have "take (Suc n) (outputs (vertex_base v)) = take n (outputs (vertex_base v)) @ [out]"
      using o(1) Suc.prems(2) by (simp add: py_nth_def take_Suc_conv_app_nth)
    moreover have "own_output v out = Inr (uid, out)" using o(2) by (simp add: own_output_def)
    ultimately show ?case using outs o(3) by (simp add: mapE_snoc)
  qed
  from this [of "length (outputs (vertex_base v))" d'] show ?thesis using assms by (simp add: for_outputs_def)
qed

lemma token_txs_total: "token_total lib (add_to_token_txs lib e d uids) u = token_total lib d u"
  by (induction lib e d uids rule: add_to_token_txs.induct) (simp_all add: Let_def token_total_def)

lemma set_token_names_total: "set_token_names lib v d = Inr d' \<Longrightarrow> token_total lib d' u = token_total lib d u"
  by (cases v) (auto simp: set_token_names_def result_iff token_total_def split: if_splits)


lemma sample_index_add:
  "\<exists>d'. tokens_add_tx list_skl sample_storage (VTransaction sample_spending) [] = Inr d'"
  by (simp add: tokens_add_tx_def for_spent_def for_outputs_def remove_from_index_def add_to_index_def output_at_def
      set_token_names_def TOKEN_CREATION_VERSION_def sample_storage_def sample_spending_def sample_funding_def get_transaction_def
      the_hash_def of_option_def py_nth_def get_token_index_def tx_get_token_uid_def base_transaction.defs upt_rec)


text \<open>
  A voided token creation does not leave the index. Deleting it removes the entry of the token,
  but the loop over the tokens of the transaction, which lists the token itself, creates an empty
  entry again, so that the token is still found, without a name, where an unknown token raises.
\<close>

theorem voided_token_reappears:
  assumes "tokens_del_tx lib st (VTokenCreation t) d = Inr d'" and "version t = TOKEN_CREATION_VERSION"
    and "tx_hash t = Some h" and "tokens t = [h]"
  shows "\<exists>s. get_token_info d' h = Inr s \<and> ts_name s = None \<and> ts_symbol s = None \<and> ts_total s = 0"
proof -
  obtain d2 where "d' = foldl (del_from_token_txs lib (timestamp t, h)) (filter (\<lambda>(k, _). k \<noteq> h) d2) [h]"
    using assms by (auto simp: tokens_del_tx_def result_iff base_transaction.defs the_hash_def)
  moreover have "status_of lib (filter (\<lambda>(k, _). k \<noteq> h) d2) h = new_status lib"
    by (induction d2) (auto simp: status_of_def)
  ultimately show ?thesis
    by (simp add: get_token_info_def of_option_def del_from_token_txs_def update_status_def new_status_def Let_def)
qed

lemma sample_index_del:
  "\<exists>d'. tokens_del_tx list_skl sample_storage (VTokenCreation sample_creation)
      [([3], (new_status list_skl)\<lparr>ts_name := Some [65], ts_total := 250\<rparr>)] = Inr d'"
  by (simp add: tokens_del_tx_def for_spent_def for_outputs_def remove_from_index_def add_to_index_def output_at_def
      TOKEN_CREATION_VERSION_def sample_storage_def sample_creation_def sample_funding_def get_transaction_def
      the_hash_def of_option_def py_nth_def get_token_index_def tx_get_token_uid_def base_transaction.defs upt_rec
      is_token_authority_def update_status_def TOKEN_AUTHORITY_MASK_def TOKEN_INDEX_MASK_def HATHOR_TOKEN_UID_def)

theorem voided_token_reappears_witness:
  "\<exists>d' s. tokens_del_tx list_skl sample_storage (VTokenCreation sample_creation)
      [([3], (new_status list_skl)\<lparr>ts_name := Some [65], ts_total := 250\<rparr>)] = Inr d' \<and>
    get_token_info d' [3] = Inr s \<and> ts_name s = None"
proof -
  obtain d' where d': "tokens_del_tx list_skl sample_storage (VTokenCreation sample_creation)
      [([3], (new_status list_skl)\<lparr>ts_name := Some [65], ts_total := 250\<rparr>)] = Inr d'"
    using sample_index_del by blast
  with voided_token_reappears [OF this, of "[3]"] show ?thesis
    by (auto simp: sample_creation_def TOKEN_CREATION_VERSION_def)
qed

end
