(* ===== verification/Wallet_Index.thy ===== *)
theory Wallet_Index
  imports Script_Build Storage Verification "HOL-Library.List_Lexorder"
begin

text \<open>
  The index of transactions by address (\<^verbatim>\<open>WalletIndex\<close> of \<^verbatim>\<open>hathor/indexes.py\<close>), without a
  publisher of events. The default dictionary of sets is a function: its keys are never listed, so
  an address that was not added reads as the empty set.
\<close>

type_synonym wallet_dict = "pystr \<Rightarrow> bytes set"

definition new_wallet_index :: wallet_dict where
  "new_wallet_index = (\<lambda>_. {})"

fun script_address :: "addr_script \<Rightarrow> pystr" where
  "script_address (P2PKH a _) = a"
| "script_address (MultiSig a _) = a"

definition add_address_from_output :: "crypto \<Rightarrow> net_settings \<Rightarrow> pystr set \<Rightarrow> txoutput \<Rightarrow> pystr set result" where
  "add_address_from_output cr net addresses out =
     bindE (parse_address_script cr net (to_script out)) (\<lambda>script_type_out.
     Inr (case script_type_out of None \<Rightarrow> addresses | Some s \<Rightarrow> insert (script_address s) addresses))"

definition get_addresses :: "node_env \<Rightarrow> storage \<Rightarrow> vertex \<Rightarrow> pystr set result" where
  "get_addresses env st v =
     bindE (foldE (\<lambda>addresses i.
              bindE (get_transaction st (ti_tx_id i)) (\<lambda>tx2.
              bindE (py_nth (outputs (vertex_base tx2)) (ti_index i)) (\<lambda>out.
              add_address_from_output (env_crypto env) (env_net env) addresses out)))
            {} (inputs (vertex_base v))) (\<lambda>addresses.
     foldE (add_address_from_output (env_crypto env) (env_net env)) addresses (outputs (vertex_base v)))"

definition wallet_add_tx :: "node_env \<Rightarrow> storage \<Rightarrow> wallet_dict \<Rightarrow> vertex \<Rightarrow> wallet_dict result" where
  "wallet_add_tx env st index v =
     bindE (the_hash v) (\<lambda>h.
     bindE (get_addresses env st v) (\<lambda>addresses.
     Inr (\<lambda>a. if a \<in> addresses then insert h (index a) else index a)))"

definition wallet_remove_tx :: "node_env \<Rightarrow> storage \<Rightarrow> wallet_dict \<Rightarrow> vertex \<Rightarrow> wallet_dict result" where
  "wallet_remove_tx env st index v =
     bindE (the_hash v) (\<lambda>h.
     bindE (get_addresses env st v) (\<lambda>addresses.
     Inr (\<lambda>a. if a \<in> addresses then index a - {h} else index a)))"

definition get_from_address :: "wallet_dict \<Rightarrow> pystr \<Rightarrow> bytes set" where
  "get_from_address index address = index address"

definition get_sorted_from_address :: "wallet_dict \<Rightarrow> pystr \<Rightarrow> bytes list" where
  "get_sorted_from_address index address = sorted_list_of_set (index address)"

subsection \<open>What the index answers\<close>

text \<open>The address an output pays to, and the outputs a vertex spends or has.\<close>

definition pays_to :: "node_env \<Rightarrow> txoutput \<Rightarrow> pystr \<Rightarrow> bool" where
  "pays_to env out a \<longleftrightarrow> (\<exists>s. parse_address_script (env_crypto env) (env_net env) (to_script out) = Inr (Some s) \<and> script_address s = a)"

definition spends :: "storage \<Rightarrow> vertex \<Rightarrow> txoutput \<Rightarrow> bool" where
  "spends st v out \<longleftrightarrow> (\<exists>i \<in> set (inputs (vertex_base v)). \<exists>u.
     st_txs st (ti_tx_id i) = Some u \<and> py_nth (outputs (vertex_base u)) (ti_index i) = Inr out)"

definition touches :: "node_env \<Rightarrow> storage \<Rightarrow> vertex \<Rightarrow> pystr \<Rightarrow> bool" where
  "touches env st v a \<longleftrightarrow> (\<exists>out. (spends st v out \<or> out \<in> set (outputs (vertex_base v))) \<and> pays_to env out a)"

lemma add_address_eq:
  assumes "add_address_from_output (env_crypto env) (env_net env) A out = Inr B"
  shows "B = A \<union> {a. pays_to env out a}"
proof -
  obtain r where "parse_address_script (env_crypto env) (env_net env) (to_script out) = Inr r"
    and "B = (case r of None \<Rightarrow> A | Some s \<Rightarrow> insert (script_address s) A)"
    using assms unfolding add_address_from_output_def bindE_eq_Inr by auto
  then show ?thesis by (cases r) (auto simp: pays_to_def)
qed

lemma own_addresses:
  "foldE (add_address_from_output (env_crypto env) (env_net env)) A outs = Inr B \<Longrightarrow>
    B = A \<union> {a. \<exists>out \<in> set outs. pays_to env out a}"
proof (induction outs arbitrary: A)
  case (Cons out outs)
  then obtain A1 where "add_address_from_output (env_crypto env) (env_net env) A out = Inr A1"
    and "foldE (add_address_from_output (env_crypto env) (env_net env)) A1 outs = Inr B" by (auto simp: result_iff)
  with Cons.IH [of A1] add_address_eq [of env A out A1] show ?case by auto
qed simp

lemma spent_addresses:
  "foldE (\<lambda>addresses i.
      bindE (get_transaction st (ti_tx_id i)) (\<lambda>tx2.
      bindE (py_nth (outputs (vertex_base tx2)) (ti_index i)) (\<lambda>out.
      add_address_from_output (env_crypto env) (env_net env) addresses out))) A ins = Inr B \<Longrightarrow>
    B = A \<union> {a. \<exists>out. (\<exists>i \<in> set ins. \<exists>u. st_txs st (ti_tx_id i) = Some u \<and>
      py_nth (outputs (vertex_base u)) (ti_index i) = Inr out) \<and> pays_to env out a}"
proof (induction ins arbitrary: A)
  case (Cons i ins)
  then obtain u out A1 where u: "st_txs st (ti_tx_id i) = Some u" "py_nth (outputs (vertex_base u)) (ti_index i) = Inr out"
    and A1: "add_address_from_output (env_crypto env) (env_net env) A out = Inr A1"
    and rest: "foldE (\<lambda>addresses i.
      bindE (get_transaction st (ti_tx_id i)) (\<lambda>tx2.
      bindE (py_nth (outputs (vertex_base tx2)) (ti_index i)) (\<lambda>out.
      add_address_from_output (env_crypto env) (env_net env) addresses out))) A1 ins = Inr B"
    by (auto simp: result_iff get_transaction_def)
  show ?case using Cons.IH [OF rest] add_address_eq [OF A1] u by auto
qed simp

lemma get_addresses_eq:
  assumes "get_addresses env st v = Inr A"
  shows "A = {a. touches env st v a}"
proof -
  obtain S where s: "foldE (\<lambda>addresses i.
      bindE (get_transaction st (ti_tx_id i)) (\<lambda>tx2.
      bindE (py_nth (outputs (vertex_base tx2)) (ti_index i)) (\<lambda>out.
      add_address_from_output (env_crypto env) (env_net env) addresses out))) {} (inputs (vertex_base v)) = Inr S"
    and own: "foldE (add_address_from_output (env_crypto env) (env_net env)) S (outputs (vertex_base v)) = Inr A"
    using assms unfolding get_addresses_def bindE_eq_Inr by blast
  show ?thesis unfolding own_addresses [OF own] spent_addresses [OF s] by (auto simp: touches_def spends_def)
qed

text \<open>A history of the index: vertices added and removed, and the vertices that are in it at the end.\<close>

datatype wallet_op = AddTx vertex | RemoveTx vertex

fun wallet_step :: "node_env \<Rightarrow> storage \<Rightarrow> wallet_dict \<Rightarrow> wallet_op \<Rightarrow> wallet_dict result" where
  "wallet_step env st index (AddTx v) = wallet_add_tx env st index v"
| "wallet_step env st index (RemoveTx v) = wallet_remove_tx env st index v"

fun remaining :: "vertex set \<Rightarrow> wallet_op list \<Rightarrow> vertex set" where
  "remaining V [] = V"
| "remaining V (AddTx v # ops) = remaining (insert v V) ops"
| "remaining V (RemoveTx v # ops) = remaining (V - {v}) ops"

fun op_vertex :: "wallet_op \<Rightarrow> vertex" where
  "op_vertex (AddTx v) = v"
| "op_vertex (RemoveTx v) = v"

definition wallet_inv :: "node_env \<Rightarrow> storage \<Rightarrow> vertex set \<Rightarrow> wallet_dict \<Rightarrow> bool" where
  "wallet_inv env st V index \<longleftrightarrow> (\<forall>a. index a = {h. \<exists>v \<in> V. tx_hash (vertex_base v) = Some h \<and> touches env st v a})"

lemma wallet_step_inv:
  assumes "wallet_step env st index x = Inr index'" and "wallet_inv env st V index"
    and "inj_on (tx_hash \<circ> vertex_base) (insert (op_vertex x) V)"
  shows "wallet_inv env st (remaining V [x]) index'"
proof (cases x)
  case (AddTx v)
  then obtain h A where "tx_hash (vertex_base v) = Some h" and "get_addresses env st v = Inr A"
    and "index' = (\<lambda>a. if a \<in> A then insert h (index a) else index a)"
    using assms(1) by (auto simp: wallet_add_tx_def the_hash_def result_iff)
  then show ?thesis using assms(2) AddTx get_addresses_eq [of env st v A] by (auto simp: wallet_inv_def)
next
  case (RemoveTx v)
  then obtain h A where h: "tx_hash (vertex_base v) = Some h" and A: "get_addresses env st v = Inr A"
    and i: "index' = (\<lambda>a. if a \<in> A then index a - {h} else index a)"
    using assms(1) by (auto simp: wallet_remove_tx_def the_hash_def result_iff)
  have same: "u = v" if "u \<in> V" "tx_hash (vertex_base u) = Some h" for u
    using assms(3) that h RemoveTx by (auto simp: inj_on_def)
  have "index' a = {k. \<exists>u \<in> V - {v}. tx_hash (vertex_base u) = Some k \<and> touches env st u a}" for a
  proof -
    have a: "index a = {k. \<exists>u \<in> V. tx_hash (vertex_base u) = Some k \<and> touches env st u a}"
      using assms(2) by (simp add: wallet_inv_def)
    have t: "a \<in> A \<longleftrightarrow> touches env st v a" using get_addresses_eq [OF A] by simp
    have hv: "tx_hash (vertex_base v) = Some k \<longleftrightarrow> k = h" for k using h by auto
    show ?thesis
    proof (cases "touches env st v a")
      case True
      have "index' a = index a - {h}" using True t i by simp
      then show ?thesis unfolding a using same hv by blast
    next
      case False
      have "index' a = index a" using False t i by simp
      then show ?thesis unfolding a using False by blast
    qed
  qed
  then show ?thesis using RemoveTx by (simp add: wallet_inv_def)
qed

lemma remaining_subset: "remaining V ops \<subseteq> V \<union> op_vertex ` set ops"
  by (induction V ops rule: remaining.induct) auto

lemma wallet_history_inv:
  assumes "foldE (wallet_step env st) index ops = Inr index'" and "wallet_inv env st V index"
    and "inj_on (tx_hash \<circ> vertex_base) (V \<union> op_vertex ` set ops)"
  shows "wallet_inv env st (remaining V ops) index'"
  using assms
proof (induction ops arbitrary: V index)
  case (Cons x ops)
  then obtain index1 where s: "wallet_step env st index x = Inr index1" "foldE (wallet_step env st) index1 ops = Inr index'"
    by (auto simp: result_iff)
  have "inj_on (tx_hash \<circ> vertex_base) (insert (op_vertex x) V)"
    by (rule inj_on_subset [OF Cons.prems(3)]) auto
  then have "wallet_inv env st (remaining V [x]) index1" by (rule wallet_step_inv [OF s(1) Cons.prems(2)])
  moreover have "remaining V [x] \<union> op_vertex ` set ops \<subseteq> V \<union> op_vertex ` set (x # ops)"
    using remaining_subset [of V "[x]"] by auto
  then have "inj_on (tx_hash \<circ> vertex_base) (remaining V [x] \<union> op_vertex ` set ops)"
    using Cons.prems(3) inj_on_subset by blast
  moreover have "remaining V (x # ops) = remaining (remaining V [x]) ops" by (cases x) auto
  ultimately show ?case using Cons.IH [OF s(2)] by (simp only:)
qed simp

text \<open>
  C40: after any history of additions and removals that went through, asking the index for an
  address gives exactly the hashes of the vertices still in it that have an output of the address or
  spend one, and in increasing order when they are asked for sorted. Different vertices are taken to
  have different hashes.
\<close>

theorem wallet_index_exact:
  assumes "foldE (wallet_step env st) new_wallet_index ops = Inr index"
    and "inj_on (tx_hash \<circ> vertex_base) (op_vertex ` set ops)"
  shows "set (get_sorted_from_address index a) =
      {h. \<exists>v \<in> remaining {} ops. tx_hash (vertex_base v) = Some h \<and> touches env st v a} \<and>
    get_from_address index a = set (get_sorted_from_address index a) \<and>
    sorted (get_sorted_from_address index a) \<and> distinct (get_sorted_from_address index a)"
proof -
  have "wallet_inv env st (remaining {} ops) index"
    by (rule wallet_history_inv [OF assms(1)]) (use assms(2) in \<open>simp_all add: wallet_inv_def new_wallet_index_def\<close>)
  then have i: "index a = {h. \<exists>v \<in> remaining {} ops. tx_hash (vertex_base v) = Some h \<and> touches env st v a}"
    by (simp add: wallet_inv_def)
  have "finite (remaining {} ops)" by (rule finite_subset [OF remaining_subset]) simp
  then have "finite (the ` (tx_hash \<circ> vertex_base) ` remaining {} ops)" by simp
  moreover have "index a \<subseteq> the ` (tx_hash \<circ> vertex_base) ` remaining {} ops" unfolding i by force
  ultimately have "finite (index a)" by (rule rev_finite_subset)
  then show ?thesis unfolding get_sorted_from_address_def get_from_address_def by (simp add: i [symmetric])
qed

text \<open>Two transactions that pay to one address, of which the first is removed.\<close>

definition paid_script :: bytes where
  "paid_script = 0x76 # 0xA9 # 0x14 # replicate 20 7 @ [0x88, 0xAC]"

definition paid_address :: pystr where
  "paid_address = get_address_b58_from_public_key_hash sample_crypto mainnet_settings (replicate 20 7)"

definition paying_tx :: "byte \<Rightarrow> vertex" where
  "paying_tx b = VTransaction \<lparr>nonce = 0, timestamp = 100, version = 1, weight = 0, inputs = [],
     outputs = [\<lparr>to_value = 500, to_script = paid_script, to_token_data = 0\<rparr>], parents = [], tx_hash = Some [b], tokens = []\<rparr>"

lemma parse_paid_script: "parse_address_script sample_crypto mainnet_settings paid_script = Inr (Some (P2PKH paid_address None))"
proof -
  have r: "re_search P2PKH_re_match paid_script = Some [None, Some (0x14 # replicate 20 7)]"
    unfolding paid_script_def by (rule re_search_P2PKH_plain) simp
  show ?thesis
    by (simp add: parse_address_script_def P2PKH_parse_script_def r paid_address_def parse_timelock_def get_pushdata_def group_def)
qed

lemma paying_tx_addresses: "get_addresses sample_env st (paying_tx b) = Inr {paid_address}"
  by (simp add: get_addresses_def paying_tx_def base_transaction.defs sample_env_def add_address_from_output_def parse_paid_script)

theorem wallet_index_exact_witness:
  "\<exists>index. foldE (wallet_step sample_env sample_storage) new_wallet_index
      [AddTx (paying_tx 1), AddTx (paying_tx 2), RemoveTx (paying_tx 1)] = Inr index \<and>
    set (get_sorted_from_address index paid_address) = {[2]}"
proof -
  let ?ops = "[AddTx (paying_tx 1), AddTx (paying_tx 2), RemoveTx (paying_tx 1)]"
  have h: "tx_hash (vertex_base (paying_tx b)) = Some [b]" for b by (simp add: paying_tx_def base_transaction.defs)
  have n: "paying_tx 2 \<noteq> paying_tx 1" using h [of 1] h [of 2] by auto
  obtain index where i: "foldE (wallet_step sample_env sample_storage) new_wallet_index ?ops = Inr index"
    by (simp add: wallet_add_tx_def wallet_remove_tx_def the_hash_def h paying_tx_addresses)
  have t: "touches sample_env sample_storage (paying_tx b) paid_address" for b
    using get_addresses_eq [OF paying_tx_addresses, of sample_storage b] by auto
  have "inj_on (tx_hash \<circ> vertex_base) (op_vertex ` set ?ops)" by (auto simp: inj_on_def h)
  from wallet_index_exact [OF i this, of paid_address] show ?thesis using i n h t by auto
qed

end
