(* ===== verification/Tx_Cache.thy ===== *)
theory Tx_Cache
  imports Tips_Index Tokens_Index Wallet_Index Topological_Sort
begin

text \<open>
  The indices of a storage and how they are kept (\<^verbatim>\<open>IndexesManager\<close> of \<^verbatim>\<open>hathor/indexes.py\<close> and
  \<^verbatim>\<open>BaseTransactionStorage\<close> of \<^verbatim>\<open>hathor/transaction/storage/transaction_storage.py\<close>): one pair of
  indices for the executed blocks, one for the executed transactions and one for everything, the
  optional indices of wallets and tokens, two counters, the range of timestamps and the cached tips.
  The two container libraries are parameters: an interval tree and a sorted list.
\<close>

subsection \<open>The pair of indices\<close>

record ('t, 'l) indexes_manager =
  im_tips :: "'t tips_index"
  im_txs :: 'l

record ('t, 'l) index_libs =
  lib_tree :: "'t interval_tree"
  lib_list :: "'l sorted_key_list"

definition new_indexes_manager :: "('t, 'l) index_libs \<Rightarrow> ('t, 'l) indexes_manager" where
  "new_indexes_manager libs = \<lparr>im_tips = new_tips_index (lib_tree libs), im_txs = skl_empty (lib_list libs)\<rparr>"

definition im_add_tx ::
  "('t, 'l) index_libs \<Rightarrow> storage \<Rightarrow> ('t, 'l) indexes_manager \<Rightarrow> vertex \<Rightarrow> (bool \<times> ('t, 'l) indexes_manager) result" where
  "im_add_tx libs st im v =
     bindE (tips_add_tx (lib_tree libs) st (im_tips im) v) (\<lambda>(r1, ti).
     bindE (txs_add_tx (lib_list libs) (im_txs im) v) (\<lambda>(r2, l).
     bindE (guardE (r1 = r2) (PyE AssertionError)) (\<lambda>_.
     Inr (r1, \<lparr>im_tips = ti, im_txs = l\<rparr>))))"

definition im_del_tx ::
  "('t, 'l) index_libs \<Rightarrow> storage \<Rightarrow> bool \<Rightarrow> ('t, 'l) indexes_manager \<Rightarrow> vertex \<Rightarrow> ('t, 'l) indexes_manager result" where
  "im_del_tx libs st relax_assert im v =
     bindE (tips_del_tx (lib_tree libs) st relax_assert (im_tips im) v) (\<lambda>ti.
     bindE (txs_del_tx (lib_list libs) (im_txs im) v) (\<lambda>l.
     Inr \<lparr>im_tips = ti, im_txs = l\<rparr>))"

definition im_get_newest :: "('t, 'l) index_libs \<Rightarrow> ('t, 'l) indexes_manager \<Rightarrow> int \<Rightarrow> bytes list \<times> bool" where
  "im_get_newest libs im n = get_newest_sorted_key_list (lib_list libs) (im_txs im) n"

definition im_get_older :: "('t, 'l) index_libs \<Rightarrow> ('t, 'l) indexes_manager \<Rightarrow> int \<Rightarrow> bytes \<Rightarrow> int \<Rightarrow> bytes list \<times> bool" where
  "im_get_older libs im ts h n = get_older_sorted_key_list (lib_list libs) (im_txs im) ts h n"

definition im_get_newer :: "('t, 'l) index_libs \<Rightarrow> ('t, 'l) indexes_manager \<Rightarrow> int \<Rightarrow> bytes \<Rightarrow> int \<Rightarrow> bytes list \<times> bool" where
  "im_get_newer libs im ts h n = get_newer_sorted_key_list (lib_list libs) (im_txs im) ts h n"

subsection \<open>The indices of a storage\<close>

record tips_cache =
  tc_timestamp :: int
  tc_tips :: "interval list"
  tc_merkle_tree :: bytes
  tc_hashes :: "bytes list"

record ('t, 'l) cache =
  with_index :: bool
  latest_timestamp :: int
  first_timestamp :: int
  all_tips_cache :: "tips_cache option"
  block_index :: "('t, 'l) indexes_manager"
  tx_index :: "('t, 'l) indexes_manager"
  all_index :: "('t, 'l) indexes_manager"
  wallet_index :: "wallet_dict option"
  tokens_index :: "'l tokens_dict option"
  cache_block_count :: int
  cache_tx_count :: int

text \<open>The range of timestamps starts with that of the genesis vertices.\<close>

definition reset_cache :: "('t, 'l) index_libs \<Rightarrow> vertex list \<Rightarrow> ('t, 'l) cache \<Rightarrow> ('t, 'l) cache result" where
  "reset_cache libs genesis c =
     bindE (guardE (with_index c) (PyE AssertionError)) (\<lambda>_.
     Inr (c\<lparr>cache_block_count := 0, cache_tx_count := 0, block_index := new_indexes_manager libs,
            tx_index := new_indexes_manager libs, all_index := new_indexes_manager libs,
            wallet_index := None, tokens_index := None,
            latest_timestamp := (if genesis = [] then 0 else Max (vtimestamp ` set genesis)),
            first_timestamp := (if genesis = [] then 0 else Min (vtimestamp ` set genesis))\<rparr>))"

definition remove_cache :: "('t, 'l) index_libs \<Rightarrow> ('t, 'l) cache \<Rightarrow> ('t, 'l) cache" where
  "remove_cache libs c = c\<lparr>with_index := False, block_index := new_indexes_manager libs,
     tx_index := new_indexes_manager libs, all_index := new_indexes_manager libs\<rparr>"

text \<open>An operation on an index that may not be there.\<close>

definition on_option :: "('a \<Rightarrow> 'a result) \<Rightarrow> 'a option \<Rightarrow> 'a option result" where
  "on_option f m = (case m of None \<Rightarrow> Inr None | Some x \<Rightarrow> bindE (f x) (\<lambda>y. Inr (Some y)))"

definition add_to_cache ::
  "node_env \<Rightarrow> ('t, 'l) index_libs \<Rightarrow> storage \<Rightarrow> ('t, 'l) cache \<Rightarrow> vertex \<Rightarrow> ('t, 'l) cache result" where
  "add_to_cache env libs st c v =
     bindE (guardE (with_index c) (PyE NotImplementedError)) (\<lambda>_.
     let first = (if first_timestamp c = 0 then vtimestamp v else min (first_timestamp c) (vtimestamp v));
         c1 = c\<lparr>latest_timestamp := max (latest_timestamp c) (vtimestamp v),
                first_timestamp := min first (vtimestamp v), all_tips_cache := None\<rparr> in
     bindE (im_add_tx libs st (all_index c1) v) (\<lambda>(_, all).
     bindE (on_option (\<lambda>w. wallet_add_tx env st w v) (wallet_index c1)) (\<lambda>w.
     bindE (on_option (tokens_add_tx (lib_list libs) st v) (tokens_index c1)) (\<lambda>t.
     let c2 = c1\<lparr>all_index := all, wallet_index := w, tokens_index := t\<rparr> in
     if is_block v then
       bindE (im_add_tx libs st (block_index c2) v) (\<lambda>(added, im).
       Inr (c2\<lparr>block_index := im, cache_block_count := cache_block_count c2 + (if added then 1 else 0)\<rparr>))
     else
       bindE (im_add_tx libs st (tx_index c2) v) (\<lambda>(added, im).
       Inr (c2\<lparr>tx_index := im, cache_tx_count := cache_tx_count c2 + (if added then 1 else 0)\<rparr>))))))"

definition del_from_cache ::
  "('t, 'l) index_libs \<Rightarrow> storage \<Rightarrow> bool \<Rightarrow> ('t, 'l) cache \<Rightarrow> vertex \<Rightarrow> ('t, 'l) cache result" where
  "del_from_cache libs st relax_assert c v =
     bindE (guardE (with_index c) (PyE NotImplementedError)) (\<lambda>_.
     bindE (on_option (tokens_del_tx (lib_list libs) st v) (tokens_index c)) (\<lambda>t.
     let c1 = c\<lparr>tokens_index := t\<rparr> in
     if is_block v then
       bindE (im_del_tx libs st relax_assert (block_index c1) v) (\<lambda>im.
       Inr (c1\<lparr>cache_block_count := cache_block_count c1 - 1, block_index := im\<rparr>))
     else
       bindE (im_del_tx libs st relax_assert (tx_index c1) v) (\<lambda>im.
       Inr (c1\<lparr>cache_tx_count := cache_tx_count c1 - 1, tx_index := im\<rparr>))))"

text \<open>
  What every storage does when a vertex is saved or removed, apart from its own tables; events are
  only published when there is someone to publish to.
\<close>

definition index_saved ::
  "node_env \<Rightarrow> ('t, 'l) index_libs \<Rightarrow> storage \<Rightarrow> bool \<Rightarrow> ('t, 'l) cache \<Rightarrow> vertex \<Rightarrow> ('t, 'l) cache result" where
  "index_saved env libs st only_metadata c v =
     (if with_index c \<and> \<not> only_metadata then add_to_cache env libs st c v else Inr c)"

definition index_removed ::
  "node_env \<Rightarrow> ('t, 'l) index_libs \<Rightarrow> storage \<Rightarrow> ('t, 'l) cache \<Rightarrow> vertex \<Rightarrow> ('t, 'l) cache result" where
  "index_removed env libs st c v =
     (if with_index c then
        bindE (del_from_cache libs st True c v) (\<lambda>c1.
        bindE (im_del_tx libs st True (all_index c1) v) (\<lambda>all.
        bindE (on_option (\<lambda>w. wallet_remove_tx env st w v) (wallet_index c1)) (\<lambda>w.
        Inr (c1\<lparr>all_index := all, wallet_index := w\<rparr>))))
      else Inr c)"

text \<open>Loading: all vertices in topological order.\<close>

definition manually_initialize ::
  "node_env \<Rightarrow> ('t, 'l) index_libs \<Rightarrow> storage \<Rightarrow> vertex list \<Rightarrow> vertex list \<Rightarrow> ('t, 'l) cache \<Rightarrow> ('t, 'l) cache result option" where
  "manually_initialize env libs st genesis all_txs c =
     bindR (Some (reset_cache libs genesis c)) (\<lambda>c1.
     bindR (topological_sort st all_txs) (\<lambda>vs.
     Some (foldE (add_to_cache env libs st) c1 vs)))"

subsection \<open>Reading the indices\<close>

definition get_block_tips :: "('t, 'l) index_libs \<Rightarrow> ('t, 'l) cache \<Rightarrow> int option \<Rightarrow> interval list result" where
  "get_block_tips libs c ts =
     bindE (guardE (with_index c) (PyE NotImplementedError)) (\<lambda>_.
     Inr (tips_at (lib_tree libs) (im_tips (block_index c)) (case ts of None \<Rightarrow> latest_timestamp c | Some t \<Rightarrow> t)))"

definition get_tx_tips :: "('t, 'l) index_libs \<Rightarrow> storage \<Rightarrow> ('t, 'l) cache \<Rightarrow> int option \<Rightarrow> interval list result" where
  "get_tx_tips libs st c ts =
     bindE (guardE (with_index c) (PyE NotImplementedError)) (\<lambda>_.
     let tips = tips_at (lib_tree libs) (im_tips (tx_index c)) (case ts of None \<Rightarrow> latest_timestamp c | Some t \<Rightarrow> t) in
     bindE (forE (\<lambda>i.
              bindE (of_option (PyE AssertionError) (get_metadata st (iv_data i))) (\<lambda>m.
              guardE (voided_by m = {}) (PyE AssertionError))) tips) (\<lambda>_.
     Inr tips))"

definition calculate_merkle_tree :: "crypto \<Rightarrow> interval list \<Rightarrow> bytes \<times> bytes list" where
  "calculate_merkle_tree cr intervals = (let hashes = sort (map iv_data intervals) in (sha256 cr (concat hashes), hashes))"

text \<open>The cached tips answer for every time from that of the cache on.\<close>

definition cached_tips :: "('t, 'l) cache \<Rightarrow> int \<Rightarrow> tips_cache option" where
  "cached_tips c t = (case all_tips_cache c of Some tc \<Rightarrow> if t \<ge> tc_timestamp tc then Some tc else None | None \<Rightarrow> None)"

definition get_all_tips ::
  "crypto \<Rightarrow> ('t, 'l) index_libs \<Rightarrow> ('t, 'l) cache \<Rightarrow> int option \<Rightarrow> (interval list \<times> ('t, 'l) cache) result" where
  "get_all_tips cr libs c ts =
     bindE (guardE (with_index c) (PyE NotImplementedError)) (\<lambda>_.
     let t = (case ts of None \<Rightarrow> latest_timestamp c | Some t \<Rightarrow> t) in
     case cached_tips c t of
       Some tc \<Rightarrow> bindE (guardE (tc_timestamp tc = latest_timestamp c) (PyE AssertionError)) (\<lambda>_. Inr (tc_tips tc, c))
     | None \<Rightarrow>
         let tips = tips_at (lib_tree libs) (im_tips (all_index c)) t in
         Inr (if t \<ge> latest_timestamp c then
                let (merkle_tree, hashes) = calculate_merkle_tree cr tips in
                (tips, c\<lparr>all_tips_cache := Some \<lparr>tc_timestamp = latest_timestamp c, tc_tips = tips,
                                                tc_merkle_tree = merkle_tree, tc_hashes = hashes\<rparr>\<rparr>)
              else (tips, c)))"

definition get_merkle_tree ::
  "crypto \<Rightarrow> ('t, 'l) index_libs \<Rightarrow> ('t, 'l) cache \<Rightarrow> int \<Rightarrow> ((bytes \<times> bytes list) \<times> ('t, 'l) cache) result" where
  "get_merkle_tree cr libs c t =
     (case cached_tips c t of
        Some tc \<Rightarrow> Inr ((tc_merkle_tree tc, tc_hashes tc), c)
      | None \<Rightarrow>
          bindE (get_all_tips cr libs c (Some t)) (\<lambda>(intervals, c').
          if t \<ge> latest_timestamp c' then
            bindE (of_option (PyE AssertionError) (all_tips_cache c')) (\<lambda>tc. Inr ((tc_merkle_tree tc, tc_hashes tc), c'))
          else Inr (calculate_merkle_tree cr intervals, c')))"

text \<open>Pages of blocks and of transactions.\<close>

definition load_page :: "storage \<Rightarrow> bytes list \<times> bool \<Rightarrow> (vertex list \<times> bool) result" where
  "load_page st = (\<lambda>(hashes, has_more). bindE (mapE (get_transaction st) hashes) (\<lambda>vs. Inr (vs, has_more)))"

definition get_newest_blocks :: "('t, 'l) index_libs \<Rightarrow> storage \<Rightarrow> ('t, 'l) cache \<Rightarrow> int \<Rightarrow> (vertex list \<times> bool) result" where
  "get_newest_blocks libs st c n =
     bindE (guardE (with_index c) (PyE NotImplementedError)) (\<lambda>_. load_page st (im_get_newest libs (block_index c) n))"

definition get_newest_txs :: "('t, 'l) index_libs \<Rightarrow> storage \<Rightarrow> ('t, 'l) cache \<Rightarrow> int \<Rightarrow> (vertex list \<times> bool) result" where
  "get_newest_txs libs st c n =
     bindE (guardE (with_index c) (PyE NotImplementedError)) (\<lambda>_. load_page st (im_get_newest libs (tx_index c) n))"

definition get_older_blocks_after ::
  "('t, 'l) index_libs \<Rightarrow> storage \<Rightarrow> ('t, 'l) cache \<Rightarrow> int \<Rightarrow> bytes \<Rightarrow> int \<Rightarrow> (vertex list \<times> bool) result" where
  "get_older_blocks_after libs st c ts h n =
     bindE (guardE (with_index c) (PyE NotImplementedError)) (\<lambda>_. load_page st (im_get_older libs (block_index c) ts h n))"

definition get_newer_blocks_after ::
  "('t, 'l) index_libs \<Rightarrow> storage \<Rightarrow> ('t, 'l) cache \<Rightarrow> int \<Rightarrow> bytes \<Rightarrow> int \<Rightarrow> (vertex list \<times> bool) result" where
  "get_newer_blocks_after libs st c ts h n =
     bindE (guardE (with_index c) (PyE NotImplementedError)) (\<lambda>_. load_page st (im_get_newer libs (block_index c) ts h n))"

definition get_older_txs_after ::
  "('t, 'l) index_libs \<Rightarrow> storage \<Rightarrow> ('t, 'l) cache \<Rightarrow> int \<Rightarrow> bytes \<Rightarrow> int \<Rightarrow> (vertex list \<times> bool) result" where
  "get_older_txs_after libs st c ts h n =
     bindE (guardE (with_index c) (PyE NotImplementedError)) (\<lambda>_. load_page st (im_get_older libs (tx_index c) ts h n))"

definition get_newer_txs_after ::
  "('t, 'l) index_libs \<Rightarrow> storage \<Rightarrow> ('t, 'l) cache \<Rightarrow> int \<Rightarrow> bytes \<Rightarrow> int \<Rightarrow> (vertex list \<times> bool) result" where
  "get_newer_txs_after libs st c ts h n =
     bindE (guardE (with_index c) (PyE NotImplementedError)) (\<lambda>_. load_page st (im_get_newer libs (tx_index c) ts h n))"

definition get_block_count :: "('t, 'l) cache \<Rightarrow> int result" where
  "get_block_count c = bindE (guardE (with_index c) (PyE NotImplementedError)) (\<lambda>_. Inr (cache_block_count c))"

definition get_tx_count :: "('t, 'l) cache \<Rightarrow> int result" where
  "get_tx_count c = bindE (guardE (with_index c) (PyE NotImplementedError)) (\<lambda>_. Inr (cache_tx_count c))"

subsection \<open>What the indices hold\<close>

definition im_inv :: "('t, 'l) index_libs \<Rightarrow> storage \<Rightarrow> bytes set \<Rightarrow> ('t, 'l) indexes_manager \<Rightarrow> bool" where
  "im_inv libs st K im \<longleftrightarrow> tips_inv (lib_tree libs) st K (im_tips im) \<and> txs_inv (lib_list libs) (im_txs im) \<and>
     set (skl_list (lib_list libs) (im_txs im)) = (\<lambda>h. (time_of st h, h)) ` K"

definition libs_ok :: "('t, 'l) index_libs \<Rightarrow> bool" where
  "libs_ok libs \<longleftrightarrow> it_ok (lib_tree libs) \<and> skl_ok (lib_list libs)"

lemma im_inv_new: "libs_ok libs \<Longrightarrow> im_inv libs st {} (new_indexes_manager libs)"
  by (auto simp: libs_ok_def im_inv_def new_indexes_manager_def tips_inv_def tips_content_def new_tips_index_def
      it_ok_def skl_ok_def spec_map_def txs_inv_def fun_eq_iff ran_def)

lemma im_elements:
  assumes "im_inv libs st K im" and "st_txs st h = Some v"
  shows "\<forall>t. (t, h) \<in> set (skl_list (lib_list libs) (im_txs im)) \<longrightarrow> t = vtimestamp v"
    and "(vtimestamp v, h) \<in> set (skl_list (lib_list libs) (im_txs im)) \<longleftrightarrow> h \<in> K"
  using assms by (auto simp: im_inv_def time_of_def image_iff)

lemma im_add_new:
  assumes "libs_ok libs" and "dag_ok st" and "im_inv libs st K im" and "st_txs st h = Some v" and "h \<notin> K"
    and "K \<subseteq> dom (st_txs st)"
  shows "\<exists>im'. im_add_tx libs st im v = Inr (True, im') \<and> im_inv libs st (insert h K) im'"
proof -
  have lib: "it_ok (lib_tree libs)" "skl_ok (lib_list libs)" using assms(1) by (simp_all add: libs_ok_def)
  have i: "tips_inv (lib_tree libs) st K (im_tips im)" "txs_inv (lib_list libs) (im_txs im)"
    "set (skl_list (lib_list libs) (im_txs im)) = (\<lambda>h. (time_of st h, h)) ` K"
    using assms(3) by (simp_all add: im_inv_def)
  have hash: "tx_hash (vertex_base v) = Some h" using assms(2,4) by (simp add: dag_ok_def)
  obtain ti where ti: "tips_add_tx (lib_tree libs) st (im_tips im) v = Inr (True, ti)" "tips_inv (lib_tree libs) st (insert h K) ti"
    using tips_add_exact [OF lib(1) assms(2) i(1) assms(4,5,6)] by blast
  obtain l where l: "txs_add_tx (lib_list libs) (im_txs im) v = Inr (True, l)" "txs_inv (lib_list libs) l"
    "set (skl_list (lib_list libs) l) = insert (vtimestamp v, h) (set (skl_list (lib_list libs) (im_txs im)))"
    using txs_add_exact [OF lib(2) i(2) hash im_elements(1) [OF assms(3,4)]] im_elements(2) [OF assms(3,4)] assms(5) by auto
  have "im_inv libs st (insert h K) \<lparr>im_tips = ti, im_txs = l\<rparr>"
    using ti(2) l(2,3) i(3) assms(4) by (simp add: im_inv_def time_of_def)
  then show ?thesis using ti(1) l(1) by (simp add: im_add_tx_def)
qed

lemma im_add_old:
  assumes "libs_ok libs" and "dag_ok st" and "im_inv libs st K im" and "st_txs st h = Some v" and "h \<in> K"
  shows "im_add_tx libs st im v = Inr (False, im)"
proof -
  have hash: "tx_hash (vertex_base v) = Some h" using assms(2,4) by (simp add: dag_ok_def)
  have "indexed (im_tips im) h"
    using assms(3,5) by (simp add: indexed_def im_inv_def tips_inv_def tips_content_def spec_map_def)
  then have "tips_add_tx (lib_tree libs) st (im_tips im) v = Inr (False, im_tips im)"
    using hash by (simp add: tips_add_tx_def the_hash_def)
  moreover have "skl_contains (lib_list libs) (im_txs im) (vtimestamp v, h)"
    using assms(1,5) im_elements(2) [OF assms(3,4)] by (simp add: libs_ok_def skl_ok_def)
  then have "txs_add_tx (lib_list libs) (im_txs im) v = Inr (False, im_txs im)"
    using hash by (simp add: txs_add_tx_def the_hash_def Let_def)
  ultimately show ?thesis by (simp add: im_add_tx_def)
qed

lemma im_add:
  assumes "libs_ok libs" and "dag_ok st" and "im_inv libs st K im" and "st_txs st h = Some v" and "K \<subseteq> dom (st_txs st)"
  shows "\<exists>im'. im_add_tx libs st im v = Inr (h \<notin> K, im') \<and> im_inv libs st (insert h K) im'"
  using im_add_new [OF assms(1-4) _ assms(5)] im_add_old [OF assms(1-4)] assms(3)
  by (cases "h \<in> K") (auto simp: insert_absorb)

lemma im_del:
  assumes "libs_ok libs" and "dag_ok st" and "im_inv libs st K im" and "st_txs st h = Some v"
    and "h \<in> K \<longrightarrow> index_scope st (is_block v) (K - {h}) v \<and> (relax \<or> first_child st K h = None)"
  shows "\<exists>im'. im_del_tx libs st relax im v = Inr im' \<and> im_inv libs st (K - {h}) im'"
proof -
  have lib: "it_ok (lib_tree libs)" "skl_ok (lib_list libs)" using assms(1) by (simp_all add: libs_ok_def)
  have i: "tips_inv (lib_tree libs) st K (im_tips im)" "txs_inv (lib_list libs) (im_txs im)"
    "set (skl_list (lib_list libs) (im_txs im)) = (\<lambda>h. (time_of st h, h)) ` K"
    using assms(3) by (simp_all add: im_inv_def)
  have hash: "tx_hash (vertex_base v) = Some h" using assms(2,4) by (simp add: dag_ok_def)
  obtain l where l: "txs_del_tx (lib_list libs) (im_txs im) v = Inr l" "txs_inv (lib_list libs) l"
    "set (skl_list (lib_list libs) l) = set (skl_list (lib_list libs) (im_txs im)) - {(vtimestamp v, h)}"
    using txs_del_exact [OF lib(2) i(2) hash im_elements(1) [OF assms(3,4)]] by blast
  have "set (skl_list (lib_list libs) l) = (\<lambda>h. (time_of st h, h)) ` (K - {h})"
    using l(3) i(3) assms(4) by (auto simp: time_of_def)
  moreover have "\<exists>ti. tips_del_tx (lib_tree libs) st relax (im_tips im) v = Inr ti \<and> tips_inv (lib_tree libs) st (K - {h}) ti"
  proof (cases "h \<in> K")
    case True
    then show ?thesis using tips_del_exact [OF lib(1) assms(2) i(1) assms(4)] assms(5) by blast
  next
    case False
    then have "map_of (tx_last_interval (im_tips im)) h = None"
      using i(1) by (simp add: tips_inv_def tips_content_def spec_map_def)
    then show ?thesis using False i(1) hash by (simp add: tips_del_tx_def the_hash_def)
  qed
  ultimately show ?thesis using l(1,2) by (auto simp: im_del_tx_def im_inv_def)
qed

subsection \<open>The caches follow the vertices\<close>

text \<open>The caches hold the blocks \<open>B\<close>, the transactions \<open>T\<close> and, in the index of everything, \<open>A\<close>.\<close>

definition cache_inv ::
  "('t, 'l) index_libs \<Rightarrow> storage \<Rightarrow> bytes set \<Rightarrow> bytes set \<Rightarrow> bytes set \<Rightarrow> ('t, 'l) cache \<Rightarrow> bool" where
  "cache_inv libs st B T A c \<longleftrightarrow> with_index c \<and> im_inv libs st B (block_index c) \<and> im_inv libs st T (tx_index c) \<and>
     im_inv libs st A (all_index c) \<and> cache_block_count c = int (card B) \<and> cache_tx_count c = int (card T)"

definition stored :: "storage \<Rightarrow> bytes set \<Rightarrow> bool" where
  "stored st K \<longleftrightarrow> finite K \<and> K \<subseteq> dom (st_txs st)"

lemma card_insert_count: "finite K \<Longrightarrow> int (card (insert h K)) = int (card K) + (if h \<notin> K then 1 else 0)"
  by (simp add: card_insert_if)

lemma add_to_cache_inv:
  assumes "libs_ok libs" and "dag_ok st" and "cache_inv libs st B T A c" and "st_txs st h = Some v"
    and "stored st B" and "stored st T" and "stored st A"
    and "on_option (\<lambda>w. wallet_add_tx env st w v) (wallet_index c) = Inr w"
    and "on_option (tokens_add_tx (lib_list libs) st v) (tokens_index c) = Inr t"
  shows "\<exists>c'. add_to_cache env libs st c v = Inr c' \<and>
    cache_inv libs st (if is_block v then insert h B else B) (if is_block v then T else insert h T) (insert h A) c' \<and>
    wallet_index c' = w \<and> tokens_index c' = t \<and> latest_timestamp c' = max (latest_timestamp c) (vtimestamp v) \<and>
    first_timestamp c' = (if first_timestamp c = 0 then vtimestamp v else min (first_timestamp c) (vtimestamp v)) \<and>
    all_tips_cache c' = None"
proof -
  have i: "with_index c" "im_inv libs st B (block_index c)" "im_inv libs st T (tx_index c)" "im_inv libs st A (all_index c)"
    "cache_block_count c = int (card B)" "cache_tx_count c = int (card T)"
    using assms(3) by (simp_all add: cache_inv_def)
  have f: "finite B" "finite T" and sub: "B \<subseteq> dom (st_txs st)" "T \<subseteq> dom (st_txs st)" "A \<subseteq> dom (st_txs st)"
    using assms(5-7) by (simp_all add: stored_def)
  note add = im_add [OF assms(1,2) _ assms(4)]
  obtain all' where all: "im_add_tx libs st (all_index c) v = Inr (h \<notin> A, all')" "im_inv libs st (insert h A) all'"
    using add [OF i(4) sub(3)] by blast
  obtain b' where b: "im_add_tx libs st (block_index c) v = Inr (h \<notin> B, b')" "im_inv libs st (insert h B) b'"
    using add [OF i(2) sub(1)] by blast
  obtain t' where t: "im_add_tx libs st (tx_index c) v = Inr (h \<notin> T, t')" "im_inv libs st (insert h T) t'"
    using add [OF i(3) sub(2)] by blast
  show ?thesis
    using i all b t assms(8,9) card_insert_count [OF f(1), of h] card_insert_count [OF f(2), of h]
    by (cases "is_block v") (simp_all add: add_to_cache_def Let_def cache_inv_def min_def)
qed

lemma del_from_cache_inv:
  assumes "libs_ok libs" and "dag_ok st" and "cache_inv libs st B T A c" and "st_txs st h = Some v"
    and "stored st B" and "stored st T"
    and "K = (if is_block v then B else T)" and "h \<in> K" and "index_scope st (is_block v) (K - {h}) v"
    and "relax \<or> first_child st K h = None"
    and "on_option (tokens_del_tx (lib_list libs) st v) (tokens_index c) = Inr t"
  shows "\<exists>c'. del_from_cache libs st relax c v = Inr c' \<and> tokens_index c' = t \<and>
    cache_inv libs st (if is_block v then B - {h} else B) (if is_block v then T else T - {h}) A c'"
proof -
  have i: "with_index c" "im_inv libs st K (if is_block v then block_index c else tx_index c)"
    using assms(3,7) by (simp_all add: cache_inv_def)
  obtain im' where im: "im_del_tx libs st relax (if is_block v then block_index c else tx_index c) v = Inr im'"
    "im_inv libs st (K - {h}) im'"
    using im_del [OF assms(1,2) i(2) assms(4)] assms(9,10) by blast
  have "finite K" using assms(5-7) by (simp add: stored_def)
  from card.remove [OF this assms(8)] have "int (card (K - {h})) = int (card K) - 1" by simp
  then show ?thesis
    using assms(3,7,11) i(1) im by (cases "is_block v") (simp_all add: del_from_cache_def Let_def cache_inv_def)
qed

text \<open>
  Deleting a vertex that is not in the index leaves the index alone and still takes one from the
  counter: the counter and the index come apart.
\<close>

lemma del_from_cache_drift:
  assumes "libs_ok libs" and "dag_ok st" and "cache_inv libs st B T A c" and "st_txs st h = Some v"
    and "\<not> is_block v" and "h \<notin> T" and "tokens_index c = None"
  shows "\<exists>c'. del_from_cache libs st relax c v = Inr c' \<and> im_inv libs st T (tx_index c') \<and>
    get_tx_count c' = Inr (int (card T) - 1)"
proof -
  have i: "with_index c" "im_inv libs st T (tx_index c)" "cache_tx_count c = int (card T)" using assms(3) by (simp_all add: cache_inv_def)
  obtain im' where "im_del_tx libs st relax (tx_index c) v = Inr im'" "im_inv libs st (T - {h}) im'"
    using im_del [OF assms(1,2) i(2) assms(4)] assms(6) by blast
  then show ?thesis using i assms(5,6,7)
    by (simp add: del_from_cache_def on_option_def Let_def get_tx_count_def)
qed

subsection \<open>Loading a storage\<close>

definition blocks_of :: "storage \<Rightarrow> bytes set" where
  "blocks_of st = {h. \<exists>v. st_txs st h = Some v \<and> is_block v}"

definition txs_of :: "storage \<Rightarrow> bytes set" where
  "txs_of st = {h. \<exists>v. st_txs st h = Some v \<and> \<not> is_block v}"

definition times :: "vertex list \<Rightarrow> int set" where
  "times vs = vtimestamp ` set vs"

definition in_range :: "vertex list \<Rightarrow> int \<Rightarrow> int \<Rightarrow> bool" where
  "in_range vs first latest \<longleftrightarrow> vs \<noteq> [] \<and> first = Min (times vs) \<and> latest = Max (times vs) \<and> 0 < first"

lemma in_range_snoc:
  assumes "in_range gs first latest" and "0 < vtimestamp v"
  shows "in_range (gs @ [v]) (if first = 0 then vtimestamp v else min first (vtimestamp v)) (max latest (vtimestamp v))"
  using assms by (auto simp: in_range_def times_def min.commute max.commute)

lemma add_all_inv:
  assumes "libs_ok libs" and "dag_ok st" and "finite (dom (st_txs st))" and "set vs \<subseteq> ran (st_txs st)" and "\<forall>v \<in> set vs. 0 < vtimestamp v"
    and "set gs \<subseteq> ran (st_txs st)" and "in_range gs (first_timestamp c) (latest_timestamp c)"
    and "wallet_index c = None" and "tokens_index c = None" and "stored st B" and "stored st T" and "cache_inv libs st B T (B \<union> T) c"
  shows "\<exists>c'. foldE (add_to_cache env libs st) c vs = Inr c' \<and>
    cache_inv libs st (B \<union> vhash ` set (filter is_block vs)) (T \<union> vhash ` set (filter (\<lambda>v. \<not> is_block v) vs))
      (B \<union> T \<union> vhash ` set vs) c' \<and>
    in_range (gs @ vs) (first_timestamp c') (latest_timestamp c')"
  using assms(4-12)
proof (induction vs arbitrary: gs c B T)
  case (Cons v vs)
  obtain h where v: "st_txs st h = Some v" using Cons.prems(1) by (auto simp: ran_def)
  have hash: "tx_hash (vertex_base v) = Some h" using v assms(2) by (simp add: dag_ok_def)
  let ?B = "if is_block v then insert h B else B" and ?T = "if is_block v then T else insert h T"
  have sA: "stored st (B \<union> T)" using Cons.prems(7,8) by (simp add: stored_def)
  obtain c1 where c1: "add_to_cache env libs st c v = Inr c1" "cache_inv libs st ?B ?T (insert h (B \<union> T)) c1"
    "wallet_index c1 = None" "tokens_index c1 = None" "latest_timestamp c1 = max (latest_timestamp c) (vtimestamp v)"
    "first_timestamp c1 = (if first_timestamp c = 0 then vtimestamp v else min (first_timestamp c) (vtimestamp v))"
    using add_to_cache_inv [OF assms(1,2) Cons.prems(9) v Cons.prems(7,8) sA, of env None None] Cons.prems(5,6)
    by (auto simp: on_option_def)
  have "in_range (gs @ [v]) (first_timestamp c1) (latest_timestamp c1)"
    unfolding c1(5,6) by (rule in_range_snoc [OF Cons.prems(4)]) (use Cons.prems(2) in simp)
  moreover have "stored st ?B" "stored st ?T" "insert h (B \<union> T) = ?B \<union> ?T"
    using Cons.prems(7,8) v by (auto simp: stored_def)
  ultimately obtain c' where c': "foldE (add_to_cache env libs st) c1 vs = Inr c'"
    "cache_inv libs st (?B \<union> vhash ` set (filter is_block vs)) (?T \<union> vhash ` set (filter (\<lambda>v. \<not> is_block v) vs))
      (?B \<union> ?T \<union> vhash ` set vs) c'" "in_range ((gs @ [v]) @ vs) (first_timestamp c') (latest_timestamp c')"
    using Cons.IH [of "gs @ [v]" c1 ?B ?T] c1(2-4) Cons.prems(1-3) by auto
  have "?B \<union> vhash ` set (filter is_block vs) = B \<union> vhash ` set (filter is_block (v # vs))"
    "?T \<union> vhash ` set (filter (\<lambda>v. \<not> is_block v) vs) = T \<union> vhash ` set (filter (\<lambda>v. \<not> is_block v) (v # vs))"
    "?B \<union> ?T \<union> vhash ` set vs = B \<union> T \<union> vhash ` set (v # vs)"
    using hash by auto
  then show ?case using c1(1) c' by simp
qed simp


subsection \<open>The tips and their hash\<close>

definition tips_cache_ok :: "crypto \<Rightarrow> storage \<Rightarrow> bytes set \<Rightarrow> ('t, 'l) cache \<Rightarrow> bool" where
  "tips_cache_ok cr st A c \<longleftrightarrow> (\<forall>tc. all_tips_cache c = Some tc \<longrightarrow> tc_timestamp tc = latest_timestamp c \<and>
     iv_data ` set (tc_tips tc) = tips_of st A (latest_timestamp c) \<and> distinct (map iv_data (tc_tips tc)) \<and>
     (tc_merkle_tree tc, tc_hashes tc) = calculate_merkle_tree cr (tc_tips tc))"

definition tips_hash :: "crypto \<Rightarrow> bytes set \<Rightarrow> bytes \<times> bytes list" where
  "tips_hash cr hs = (sha256 cr (concat (sorted_list_of_set hs)), sorted_list_of_set hs)"

lemma calculate_merkle_tree_eq:
  "distinct (map iv_data tips) \<Longrightarrow> calculate_merkle_tree cr tips = tips_hash cr (iv_data ` set tips)"
  using sorted_list_of_set_sort_remdups [of "map iv_data tips"]
  by (simp add: calculate_merkle_tree_def tips_hash_def Let_def distinct_remdups_id)

lemma tips_of_late:
  assumes "\<forall>h \<in> A. time_of st h \<le> l" and "l \<le> t"
  shows "tips_of st A t = tips_of st A l"
proof -
  have "tips_of st A u = {h \<in> A. set (children (st_meta st h)) \<inter> A = {}}" if u: "l \<le> u" for u
  proof -
    have "time_of st h \<le> u" if "h \<in> A" for h using assms(1) u that by force
    then show ?thesis by (auto simp: tips_of_def) (meson IntI leD)
  qed
  then show ?thesis using assms(2) by simp
qed

lemma get_all_tips_exact:
  assumes "libs_ok libs" and "cache_inv libs st B T A c" and "tips_cache_ok cr st A c"
    and "\<forall>h \<in> A. time_of st h \<le> latest_timestamp c"
  shows "\<exists>tips c'. get_all_tips cr libs c (Some t) = Inr (tips, c') \<and> iv_data ` set tips = tips_of st A t \<and>
    distinct (map iv_data tips) \<and> tips_cache_ok cr st A c' \<and> c' = c\<lparr>all_tips_cache := all_tips_cache c'\<rparr> \<and>
    (latest_timestamp c \<le> t \<longrightarrow> all_tips_cache c' \<noteq> None)"
proof -
  have lib: "it_ok (lib_tree libs)" and wi: "with_index c" and ti: "tips_inv (lib_tree libs) st A (im_tips (all_index c))"
    using assms(1,2) by (simp_all add: libs_ok_def cache_inv_def im_inv_def)
  note at = tips_at_exact [OF lib ti]
  note late = tips_of_late [OF assms(4)]
  show ?thesis
  proof (cases "cached_tips c t")
    case (Some tc)
    then have "all_tips_cache c = Some tc" and "tc_timestamp tc \<le> t" by (auto simp: cached_tips_def split: option.splits if_splits)
    then show ?thesis using assms(3) late [of t] wi Some by (auto simp: get_all_tips_def tips_cache_ok_def)
  next
    case None
    define tips where "tips = tips_at (lib_tree libs) (im_tips (all_index c)) t"
    have tips: "iv_data ` set tips = tips_of st A t" "distinct (map iv_data tips)" unfolding tips_def by (rule at)+
    show ?thesis
    proof (cases "latest_timestamp c \<le> t")
      case True
      then show ?thesis using None wi tips late [OF True]
        by (auto simp: get_all_tips_def tips_def [symmetric] tips_cache_ok_def Let_def split: prod.splits)
    next
      case False
      then show ?thesis using None wi tips assms(3) by (auto simp: get_all_tips_def tips_def [symmetric] Let_def)
    qed
  qed
qed


text \<open>
  C39: removing a vertex from a storage does not clear the cached tips, although it changes the index
  they come from. Whatever was cached is answered again afterwards, the removed vertex included.
\<close>

theorem removed_tip_stays:
  assumes "index_removed env libs st c v = Inr c'" and "with_index c" and "all_tips_cache c = Some tc"
    and "tc_timestamp tc = latest_timestamp c"
  shows "get_all_tips cr libs c' None = Inr (tc_tips tc, c') \<and>
    get_merkle_tree cr libs c' (latest_timestamp c') = Inr ((tc_merkle_tree tc, tc_hashes tc), c')"
proof -
  obtain c1 where c1: "del_from_cache libs st True c v = Inr c1" "all_tips_cache c' = all_tips_cache c1"
    "latest_timestamp c' = latest_timestamp c1" "with_index c' = with_index c1"
    using assms(1,2) by (auto simp: index_removed_def result_iff)
  have "all_tips_cache c1 = all_tips_cache c \<and> latest_timestamp c1 = latest_timestamp c \<and> with_index c1 = with_index c"
    using c1(1) by (auto simp: del_from_cache_def result_iff Let_def split: if_splits)
  then show ?thesis using assms(2-4) c1 by (simp add: get_all_tips_def get_merkle_tree_def cached_tips_def Let_def)
qed

subsection \<open>Examples\<close>

text \<open>Lists as libraries, and a storage of two transactions of which the first is indexed and cached as a tip.\<close>

definition list_libs :: "(interval list, index_element list) index_libs" where
  "list_libs = \<lparr>lib_tree = list_tree, lib_list = list_skl\<rparr>"

definition sample_im :: "(interval list, index_element list) indexes_manager" where
  "sample_im = \<lparr>im_tips = sample_tips, im_txs = [(10, [1])]\<rparr>"

definition sample_tips_cache :: tips_cache where
  "sample_tips_cache = (let tips = [\<lparr>iv_begin = 10, iv_end = None, iv_data = [1]\<rparr>]; (m, hs) = calculate_merkle_tree sample_crypto tips in
     \<lparr>tc_timestamp = 10, tc_tips = tips, tc_merkle_tree = m, tc_hashes = hs\<rparr>)"

definition sample_cache :: "(interval list, index_element list) cache" where
  "sample_cache = \<lparr>with_index = True, latest_timestamp = 10, first_timestamp = 10, all_tips_cache = Some sample_tips_cache,
     block_index = new_indexes_manager list_libs, tx_index = sample_im, all_index = sample_im,
     wallet_index = None, tokens_index = None, cache_block_count = 0, cache_tx_count = 1\<rparr>"

lemma list_libs_ok: "libs_ok list_libs"
  by (simp add: libs_ok_def list_libs_def list_tree_ok list_skl_ok)

lemma tips_storage_times: "time_of tips_storage [1] = 10" "time_of tips_storage [2] = 20"
  by (simp_all add: time_of_def tips_storage_def tips_vertex_def base_transaction.defs)

lemma tips_storage_children: "children (st_meta tips_storage [1]) = [[2]]"
  by (simp add: tips_storage_def new_meta_def)

lemma sample_im_inv: "im_inv list_libs tips_storage {[1]} sample_im"
  by (simp add: im_inv_def sample_im_def list_libs_def sample_tips_inv txs_inv_def tips_storage_times) (simp add: list_skl_def)

lemma sample_cache_inv: "cache_inv list_libs tips_storage {} {[1]} {[1]} sample_cache"
  by (simp add: cache_inv_def sample_cache_def im_inv_new [OF list_libs_ok] sample_im_inv)

lemma sample_tips_cache_ok: "tips_cache_ok sample_crypto tips_storage {[1]} sample_cache"
  by (auto simp: tips_cache_ok_def sample_cache_def sample_tips_cache_def Let_def tips_of_def tips_storage_times
      tips_storage_children split: prod.splits)

lemma tips_storage_graph_ok: "graph_ok backward tips_storage"
  by (auto simp: graph_ok_def tips_storage_def tips_vertex_def backward_def nbs_def neighbors_def the_hash_def of_option_def
      item_key_def new_meta_def base_transaction.defs split: if_splits)



theorem removed_tip_stays_witness:
  "\<exists>c'. index_removed sample_env list_libs tips_storage sample_cache (tips_vertex 1 10 []) = Inr c' \<and>
    skl_list list_skl (im_txs (all_index c')) = [] \<and>
    (\<exists>tips. get_all_tips sample_crypto list_libs c' None = Inr (tips, c') \<and> [1] \<in> iv_data ` set tips)"
proof -
  obtain c' where c': "index_removed sample_env list_libs tips_storage sample_cache (tips_vertex 1 10 []) = Inr c'"
    "skl_list list_skl (im_txs (all_index c')) = []"
    by (simp add: index_removed_def sample_cache_def del_from_cache_def on_option_def Let_def im_del_tx_def sample_im_def
        tips_del_tx_def the_hash_def list_libs_def list_tree_def list_skl_def txs_del_tx_def tips_vertex_def
        base_transaction.defs sample_tips_def)
  have "with_index sample_cache" "all_tips_cache sample_cache = Some sample_tips_cache"
    "tc_timestamp sample_tips_cache = latest_timestamp sample_cache" "[1] \<in> iv_data ` set (tc_tips sample_tips_cache)"
    by (simp_all add: sample_cache_def sample_tips_cache_def Let_def split: prod.splits)
  with removed_tip_stays [OF c'(1)] c' show ?thesis by blast
qed

end
