(* ===== verification/Consensus.thy ===== *)
theory Consensus
  imports Tx_Cache Difficulty
begin

text \<open>
  The consensus over transactions and the voiding of blocks (\<^verbatim>\<open>hathor/consensus.py\<close>, and
  \<^verbatim>\<open>update_accumulated_weight\<close> of \<^verbatim>\<open>base_transaction.py\<close>). The methods of the two algorithms call each
  other: voiding a transaction voids the blocks that confirm it, which voids the spendings of their
  rewards, and every change makes conflicts be looked at again. They are written with the recursive
  calls as a parameter, which is then tied with a bound on their depth; out of depth, as a walk that
  does not end, is \<^const>\<open>None\<close>. Saving metadata has no effect of its own, since the storage hands out
  the one object of every vertex. Python leaves the order in which a set is gone through open: it is a
  parameter.
\<close>

record ('t, 'l) node =
  nd_st :: storage
  nd_cache :: "('t, 'l) cache"

record ('t, 'l) consensus_env =
  ce_env :: node_env
  ce_libs :: "('t, 'l) index_libs"
  ce_order :: "bytes set \<Rightarrow> bytes list"

definition ce_ok :: "('t, 'l) consensus_env \<Rightarrow> bool" where
  "ce_ok ce \<longleftrightarrow> libs_ok (ce_libs ce) \<and> (\<forall>S. finite S \<longrightarrow> set (ce_order ce S) = S \<and> distinct (ce_order ce S))"

definition upd_st :: "bytes \<Rightarrow> (tx_meta \<Rightarrow> tx_meta) \<Rightarrow> storage \<Rightarrow> storage" where
  "upd_st h f st = st\<lparr>st_meta := (st_meta st)(h := f (st_meta st h))\<rparr>"

definition upd_meta :: "bytes \<Rightarrow> (tx_meta \<Rightarrow> tx_meta) \<Rightarrow> ('t, 'l) node \<Rightarrow> ('t, 'l) node" where
  "upd_meta h f nd = nd\<lparr>nd_st := upd_st h f (nd_st nd)\<rparr>"

abbreviation meta_of :: "('t, 'l) node \<Rightarrow> bytes \<Rightarrow> tx_meta" where
  "meta_of nd h \<equiv> st_meta (nd_st nd) h"

definition WEIGHT_TOL :: float64 where
  "WEIGHT_TOL = 0x3DDB7CDFD9D7BDBB"

definition INFINITY :: float64 where
  "INFINITY = 0x7FF0000000000000"

definition forward :: walk_cfg where
  "forward = \<lparr>is_dag_funds = True, is_dag_verifications = True, is_left_to_right = True\<rparr>"

definition confirmed :: walk_cfg where
  "confirmed = \<lparr>is_dag_funds = False, is_dag_verifications = True, is_left_to_right = False\<rparr>"

subsection \<open>Accumulated weight\<close>

definition weight_body :: "libm \<Rightarrow> float64 \<Rightarrow> storage \<times> float64 \<Rightarrow> vertex \<Rightarrow> (storage \<times> float64) step result option" where
  "weight_body lm stop_value = (\<lambda>(st, acc) u.
     Some (bindE (sum_weights lm acc (weight (vertex_base u))) (\<lambda>acc'.
     Inr (if fl_less stop_value acc' then Break (st, acc') else Next (st, acc')))))"

definition update_accumulated_weight :: "libm \<Rightarrow> float64 \<Rightarrow> storage \<Rightarrow> vertex \<Rightarrow> storage result option" where
  "update_accumulated_weight lm stop_value st v =
     bindR (Some (the_hash v)) (\<lambda>h.
     if fl_less stop_value (accumulated_weight (st_meta st h)) then Some (Inr st)
     else
       bindR (bfs_run forward fst (weight_body lm stop_value) True (st, weight (vertex_base v)) v) (\<lambda>(st', acc).
       Some (Inr (upd_st h (\<lambda>m. m\<lparr>accumulated_weight := acc\<rparr>) st'))))"

subsection \<open>New transactions: inputs and conflicts\<close>

definition set_spent_by :: "int \<Rightarrow> bytes list \<Rightarrow> tx_meta \<Rightarrow> tx_meta" where
  "set_spent_by i hs m = m\<lparr>spent_outputs := dict_set (spent_outputs m) i hs\<rparr>"

definition mark_input_as_used :: "vertex \<Rightarrow> storage \<Rightarrow> txinput \<Rightarrow> storage result" where
  "mark_input_as_used v st i =
     bindE (the_hash v) (\<lambda>h.
     bindE (get_transaction st (ti_tx_id i)) (\<lambda>spent_tx.
     bindE (the_hash spent_tx) (\<lambda>sh.
     let spent = spent_by (st_meta st sh) (ti_index i) in
     bindE (guardE (h \<notin> set spent) (PyE AssertionError)) (\<lambda>_.
     let st1 = (if spent = [] then st
                else upd_st h (\<lambda>m. m\<lparr>voided_by := insert h (voided_by m), conflict_with := conflict_with m @ spent\<rparr>) st) in
     bindE (foldE (\<lambda>st k.
              bindE (get_transaction st k) (\<lambda>conflict_tx.
              bindE (the_hash conflict_tx) (\<lambda>ch.
              Inr (upd_st ch (\<lambda>m. m\<lparr>conflict_with := conflict_with m @ [h]\<rparr>) st)))) st1 spent) (\<lambda>st2.
     Inr (upd_st sh (set_spent_by (ti_index i) (spent @ [h])) st2))))))"

definition mark_inputs_as_used :: "storage \<Rightarrow> vertex \<Rightarrow> storage result" where
  "mark_inputs_as_used st v = foldE (mark_input_as_used v) st (inputs (vertex_base v))"

text \<open>Inputs and outputs are compared after sorting; of an output, the script and the value.\<close>

definition input_sort_key :: "txinput \<Rightarrow> bytes \<times> int \<times> bytes" where
  "input_sort_key i = (ti_tx_id i, ti_index i, ti_data i)"

definition output_sort_key :: "txoutput \<Rightarrow> bytes \<times> int" where
  "output_sort_key out = (to_script out, to_value out)"

definition is_twin :: "vertex \<Rightarrow> vertex \<Rightarrow> bool" where
  "is_twin v candidate \<longleftrightarrow>
     (let tx = vertex_base v; c = vertex_base candidate in
      length (inputs c) = length (inputs tx) \<and> length (outputs c) = length (outputs tx) \<and> tx_hash c \<noteq> tx_hash tx \<and>
      list_all2 (\<lambda>i j. ti_tx_id i = ti_tx_id j \<and> ti_data i = ti_data j \<and> ti_index i = ti_index j)
        (sort_key input_sort_key (inputs c)) (sort_key input_sort_key (inputs tx)) \<and>
      list_all2 (\<lambda>i j. to_value i = to_value j \<and> to_script i = to_script j)
        (sort_key output_sort_key (outputs c)) (sort_key output_sort_key (outputs tx)))"

definition check_twins :: "storage \<Rightarrow> vertex \<Rightarrow> vertex list \<Rightarrow> storage result" where
  "check_twins st v transactions =
     bindE (the_hash v) (\<lambda>h.
     foldE (\<lambda>st candidate.
       bindE (the_hash candidate) (\<lambda>ch.
       Inr (if is_twin v candidate
            then upd_st ch (\<lambda>m. m\<lparr>twins := twins m @ [h]\<rparr>) (upd_st h (\<lambda>m. m\<lparr>twins := twins m @ [ch]\<rparr>) st)
            else st))) st transactions)"

definition set_conflict_twins :: "storage \<Rightarrow> vertex \<Rightarrow> storage result" where
  "set_conflict_twins st v =
     bindE (the_hash v) (\<lambda>h.
     if conflict_with (st_meta st h) = [] then Inr st
     else bindE (mapE (get_transaction st) (conflict_with (st_meta st h))) (check_twins st v))"

subsection \<open>Voiding\<close>

text \<open>The calls between the two algorithms.\<close>

datatype call = CheckConflicts vertex | AddVoidedBy vertex bytes | RemoveVoidedBy vertex bytes

type_synonym ('t, 'l) calls = "call \<Rightarrow> ('t, 'l) node \<Rightarrow> ('t, 'l) node result option"

text \<open>Both ways of a block to the transactions that spend its reward.\<close>

definition for_spenders :: "(vertex \<Rightarrow> call) \<Rightarrow> ('t, 'l) calls \<Rightarrow> ('t, 'l) node \<Rightarrow> bytes \<Rightarrow> ('t, 'l) node result option" where
  "for_spenders f rec nd h =
     foldR (\<lambda>nd k.
       bindR (Some (get_transaction (nd_st nd) k)) (\<lambda>tx.
       bindR (Some (guardE (\<not> is_block tx) (PyE AssertionError))) (\<lambda>_.
       rec (f tx) nd))) nd (concat (map snd (spent_outputs (meta_of nd h))))"

definition blk_add_voided_by ::
  "('t, 'l) calls \<Rightarrow> ('t, 'l) node \<Rightarrow> vertex \<Rightarrow> bytes option \<Rightarrow> (bool \<times> ('t, 'l) node) result option" where
  "blk_add_voided_by rec nd block voided =
     bindR (Some (the_hash block)) (\<lambda>h.
     let voided_hash = (case voided of None \<Rightarrow> h | Some x \<Rightarrow> x) in
     if voided_hash \<in> voided_by (meta_of nd h) then Some (Inr (False, nd))
     else
       bindR (for_spenders (\<lambda>tx. AddVoidedBy tx voided_hash) rec
         (upd_meta h (\<lambda>m. m\<lparr>voided_by := insert voided_hash (voided_by m)\<rparr>) nd) h) (\<lambda>nd'.
       Some (Inr (True, nd'))))"

definition blk_remove_voided_by ::
  "('t, 'l) calls \<Rightarrow> ('t, 'l) node \<Rightarrow> vertex \<Rightarrow> bytes option \<Rightarrow> (bool \<times> ('t, 'l) node) result option" where
  "blk_remove_voided_by rec nd block voided =
     bindR (Some (the_hash block)) (\<lambda>h.
     let voided_hash = (case voided of None \<Rightarrow> h | Some x \<Rightarrow> x) in
     if voided_hash \<notin> voided_by (meta_of nd h) then Some (Inr (False, nd))
     else
       bindR (for_spenders (\<lambda>tx. RemoveVoidedBy tx voided_hash) rec
         (upd_meta h (\<lambda>m. m\<lparr>voided_by := voided_by m - {voided_hash}\<rparr>) nd) h) (\<lambda>nd'.
       Some (Inr (True, nd'))))"

definition unmark_body :: "bytes \<Rightarrow> ('t, 'l) node \<Rightarrow> vertex \<Rightarrow> ('t, 'l) node step result option" where
  "unmark_body block_hash nd tx =
     (if is_block tx then Some (Inr (Skip nd))
      else
        bindR (Some (the_hash tx)) (\<lambda>h.
        Some (Inr (if first_block (meta_of nd h) \<noteq> Some block_hash then Skip nd
                   else Next (upd_meta h (\<lambda>m. m\<lparr>first_block := None\<rparr>) nd)))))"

definition remove_first_block_markers :: "('t, 'l) node \<Rightarrow> vertex \<Rightarrow> ('t, 'l) node result option" where
  "remove_first_block_markers nd block =
     bindR (Some (the_hash block)) (\<lambda>h. bfs_run confirmed nd_st (unmark_body h) True nd block)"

definition blk_mark_as_voided ::
  "('t, 'l) calls \<Rightarrow> bool \<Rightarrow> ('t, 'l) node \<Rightarrow> vertex \<Rightarrow> ('t, 'l) node result option" where
  "blk_mark_as_voided rec skip_remove_first_block_markers nd block =
     bindR (if skip_remove_first_block_markers then Some (Inr nd) else remove_first_block_markers nd block) (\<lambda>nd1.
     bindR (blk_add_voided_by rec nd1 block None) (\<lambda>(_, nd2). Some (Inr nd2)))"

definition add_voided_body ::
  "('t, 'l) consensus_env \<Rightarrow> ('t, 'l) calls \<Rightarrow> bytes \<Rightarrow> bytes \<Rightarrow> ('t, 'l) node \<times> vertex list \<Rightarrow> vertex \<Rightarrow>
   (('t, 'l) node \<times> vertex list) step result option" where
  "add_voided_body ce rec h voided_hash = (\<lambda>(nd, check_list) tx2.
     bindR (Some (the_hash tx2)) (\<lambda>h2.
     bindR (if is_block tx2 then blk_mark_as_voided rec False nd tx2 else Some (Inr nd)) (\<lambda>nd1.
     let m = meta_of nd1 h2 in
     bindR (Some (guardE (voided_hash \<notin> voided_by m) (PyE AssertionError))) (\<lambda>_.
     bindR (Some (if h2 \<noteq> h \<and> conflict_with m \<noteq> [] \<and> voided_by m = {}
                  then mapE (get_transaction (nd_st nd1)) (conflict_with m) else Inr [])) (\<lambda>conflicts.
     let nd2 = upd_meta h2 (\<lambda>m. m\<lparr>voided_by := insert voided_hash (voided_by m) \<union>
                                 (if conflict_with m \<noteq> [] then {h2} else {})\<rparr>) nd1 in
     bindR (if conflict_with m \<noteq> []
            then bindR (update_accumulated_weight (env_libm (ce_env ce)) INFINITY (nd_st nd2) tx2) (\<lambda>st.
                 Some (Inr (nd2\<lparr>nd_st := st\<rparr>)))
            else Some (Inr nd2)) (\<lambda>nd3.
     bindR (Some (del_from_cache (ce_libs ce) (nd_st nd3) True (nd_cache nd3) tx2)) (\<lambda>c.
     Some (Inr (Next (nd3\<lparr>nd_cache := c\<rparr>, check_list @ conflicts))))))))))"

definition check_all :: "('t, 'l) calls \<Rightarrow> ('t, 'l) node \<Rightarrow> vertex list \<Rightarrow> ('t, 'l) node result option" where
  "check_all rec nd check_list = foldR (\<lambda>nd tx2. rec (CheckConflicts tx2) nd) nd check_list"

definition tx_add_voided_by ::
  "('t, 'l) consensus_env \<Rightarrow> ('t, 'l) calls \<Rightarrow> ('t, 'l) node \<Rightarrow> vertex \<Rightarrow> bytes \<Rightarrow> (bool \<times> ('t, 'l) node) result option" where
  "tx_add_voided_by ce rec nd v voided_hash =
     bindR (Some (the_hash v)) (\<lambda>h.
     if voided_hash \<in> voided_by (meta_of nd h) then Some (Inr (False, nd))
     else
       bindR (bfs_run forward (nd_st \<circ> fst) (add_voided_body ce rec h voided_hash) False (nd, []) v) (\<lambda>(nd1, check_list).
       bindR (check_all rec nd1 check_list) (\<lambda>nd2. Some (Inr (True, nd2)))))"

definition remove_voided_body ::
  "('t, 'l) consensus_env \<Rightarrow> bytes \<Rightarrow> ('t, 'l) node \<times> vertex list \<Rightarrow> vertex \<Rightarrow>
   (('t, 'l) node \<times> vertex list) step result option" where
  "remove_voided_body ce voided_hash = (\<lambda>(nd, check_list) tx2.
     bindR (Some (the_hash tx2)) (\<lambda>h2.
     if voided_hash \<notin> voided_by (meta_of nd h2) then Some (Inr (Skip (nd, check_list)))
     else
       let nd1 = upd_meta h2 (\<lambda>m. m\<lparr>voided_by := voided_by m - {voided_hash}\<rparr>) nd;
           check_list1 = (if voided_by (meta_of nd1 h2) = {h2} then check_list @ [tx2] else check_list) in
       if voided_by (meta_of nd1 h2) = {} then
         bindR (Some (add_to_cache (ce_env ce) (ce_libs ce) (nd_st nd1) (nd_cache nd1) tx2)) (\<lambda>c.
         Some (Inr (Next (nd1\<lparr>nd_cache := c\<rparr>, check_list1))))
       else Some (Inr (Next (nd1, check_list1)))))"

definition tx_remove_voided_by ::
  "('t, 'l) consensus_env \<Rightarrow> ('t, 'l) calls \<Rightarrow> ('t, 'l) node \<Rightarrow> vertex \<Rightarrow> bytes \<Rightarrow> (bool \<times> ('t, 'l) node) result option" where
  "tx_remove_voided_by ce rec nd v voided_hash =
     bindR (Some (the_hash v)) (\<lambda>h.
     if voided_hash \<notin> voided_by (meta_of nd h) then Some (Inr (False, nd))
     else
       bindR (bfs_run forward (nd_st \<circ> fst) (remove_voided_body ce voided_hash) False (nd, []) v) (\<lambda>(nd1, check_list).
       bindR (check_all rec nd1 (filter (\<lambda>tx2. \<not> is_block tx2) check_list)) (\<lambda>nd2. Some (Inr (True, nd2)))))"

definition tx_mark_as_voided ::
  "('t, 'l) calls \<Rightarrow> ('t, 'l) node \<Rightarrow> vertex \<Rightarrow> ('t, 'l) node result option" where
  "tx_mark_as_voided rec nd v =
     bindR (Some (the_hash v)) (\<lambda>h.
     let m = meta_of nd h in
     bindR (Some (guardE (conflict_with m \<noteq> []) (PyE AssertionError))) (\<lambda>_.
     if voided_by m \<noteq> {} then bindR (Some (guardE (h \<in> voided_by m) (PyE AssertionError))) (\<lambda>_. Some (Inr nd))
     else rec (AddVoidedBy v h) nd))"

definition mark_as_winner :: "('t, 'l) calls \<Rightarrow> ('t, 'l) node \<Rightarrow> vertex \<Rightarrow> ('t, 'l) node result option" where
  "mark_as_winner rec nd v =
     bindR (Some (the_hash v)) (\<lambda>h.
     bindR (Some (guardE (conflict_with (meta_of nd h) \<noteq> []) (PyE AssertionError))) (\<lambda>_.
     rec (RemoveVoidedBy v h) nd))"

subsection \<open>Resolving a conflict\<close>

definition conflict_candidates :: "storage \<Rightarrow> bytes \<Rightarrow> vertex list result" where
  "conflict_candidates st h =
     bindE (mapE (get_transaction st) (conflict_with (st_meta st h))) (\<lambda>txs.
     bindE (mapE (\<lambda>tx. bindE (the_hash tx) (\<lambda>ch. Inr (ch, tx))) txs) (\<lambda>cs.
     Inr (map snd (filter (\<lambda>(ch, _). voided_by (st_meta st ch) = {} \<or> voided_by (st_meta st ch) = {h}) cs))))"

text \<open>No voided candidate is heavier.\<close>

definition beats_voided :: "storage \<Rightarrow> bytes \<Rightarrow> vertex list \<Rightarrow> bool" where
  "beats_voided st h candidates \<longleftrightarrow> (\<forall>c \<in> set candidates.
     voided_by (st_meta st (vhash c)) \<noteq> {} \<longrightarrow>
     \<not> fl_less (accumulated_weight (st_meta st h)) (accumulated_weight (st_meta st (vhash c))))"

text \<open>The executed candidates, with their weights brought up to date, and those that tie.\<close>

fun compare_executed ::
  "libm \<Rightarrow> bytes \<Rightarrow> ('t, 'l) node \<Rightarrow> vertex list \<Rightarrow> vertex list \<Rightarrow> (bool \<times> vertex list \<times> ('t, 'l) node) result option" where
  "compare_executed lm h nd tie_list [] = Some (Inr (True, tie_list, nd))"
| "compare_executed lm h nd tie_list (c # candidates) =
     bindR (Some (the_hash c)) (\<lambda>ch.
     if voided_by (meta_of nd ch) \<noteq> {} then compare_executed lm h nd tie_list candidates
     else
       bindR (update_accumulated_weight lm (accumulated_weight (meta_of nd h)) (nd_st nd) c) (\<lambda>st.
       let nd1 = nd\<lparr>nd_st := st\<rparr>;
           d = fl_sub (accumulated_weight (meta_of nd1 ch)) (accumulated_weight (meta_of nd1 h)) in
       if fl_less (fl_abs d) WEIGHT_TOL then compare_executed lm h nd1 (tie_list @ [c]) candidates
       else if fl_less 0 d then Some (Inr (False, tie_list, nd1))
       else compare_executed lm h nd1 tie_list candidates))"

definition check_conflicts ::
  "('t, 'l) consensus_env \<Rightarrow> ('t, 'l) calls \<Rightarrow> ('t, 'l) node \<Rightarrow> vertex \<Rightarrow> ('t, 'l) node result option" where
  "check_conflicts ce rec nd v =
     bindR (Some (the_hash v)) (\<lambda>h.
     if voided_by (meta_of nd h) \<noteq> {h} then Some (Inr nd)
     else
       bindR (Some (conflict_candidates (nd_st nd) h)) (\<lambda>candidates.
       if \<not> beats_voided (nd_st nd) h candidates then Some (Inr nd)
       else
         bindR (compare_executed (env_libm (ce_env ce)) h nd [] candidates) (\<lambda>(is_highest, tie_list, nd1).
         if \<not> is_highest then Some (Inr nd1)
         else
           bindR (foldR (tx_mark_as_voided rec) nd1 candidates) (\<lambda>nd2.
           if tie_list = [] then mark_as_winner rec nd2 v else Some (Inr nd2)))))"

subsection \<open>Tying the calls\<close>

definition run_call :: "('t, 'l) consensus_env \<Rightarrow> ('t, 'l) calls \<Rightarrow> ('t, 'l) calls" where
  "run_call ce rec c nd =
     (case c of
        CheckConflicts v \<Rightarrow> check_conflicts ce rec nd v
      | AddVoidedBy v h \<Rightarrow> bindR (tx_add_voided_by ce rec nd v h) (\<lambda>(_, nd'). Some (Inr nd'))
      | RemoveVoidedBy v h \<Rightarrow> bindR (tx_remove_voided_by ce rec nd v h) (\<lambda>(_, nd'). Some (Inr nd')))"

primrec run_calls :: "('t, 'l) consensus_env \<Rightarrow> nat \<Rightarrow> ('t, 'l) calls" where
  "run_calls ce 0 = (\<lambda>_ _. None)"
| "run_calls ce (Suc n) = run_call ce (run_calls ce n)"

subsection \<open>A new transaction\<close>

definition add_weight :: "libm \<Rightarrow> float64 \<Rightarrow> storage \<Rightarrow> bytes \<Rightarrow> storage result" where
  "add_weight lm w st k =
     bindE (get_transaction st k) (\<lambda>tx2.
     bindE (the_hash tx2) (\<lambda>h2.
     bindE (sum_weights lm (accumulated_weight (st_meta st h2)) w) (\<lambda>w'.
     Inr (upd_st h2 (\<lambda>m. m\<lparr>accumulated_weight := w'\<rparr>) st))))"

definition voided_parents :: "storage \<Rightarrow> bytes list \<Rightarrow> bytes set result" where
  "voided_parents st hs =
     foldE (\<lambda>s k. bindE (get_transaction st k) (\<lambda>u. bindE (the_hash u) (\<lambda>uh. Inr (s \<union> voided_by (st_meta st uh))))) {} hs"

definition check_voiding ::
  "('t, 'l) calls \<Rightarrow> ('t, 'l) node \<Rightarrow> bytes list \<Rightarrow> ('t, 'l) node result option" where
  "check_voiding rec nd hs =
     foldR (\<lambda>nd k.
       bindR (Some (get_transaction (nd_st nd) k)) (\<lambda>tx.
       if is_block tx then Some (Inr nd) else rec (CheckConflicts tx) nd)) nd hs"

definition tx_update_voided_info ::
  "('t, 'l) consensus_env \<Rightarrow> ('t, 'l) calls \<Rightarrow> ('t, 'l) node \<Rightarrow> vertex \<Rightarrow> ('t, 'l) node result option" where
  "tx_update_voided_info ce rec nd v =
     bindR (Some (the_hash v)) (\<lambda>h.
     let tx = vertex_base v; st = nd_st nd in
     bindR (Some (voided_parents st (parents tx))) (\<lambda>from_parents.
     bindR (Some (voided_parents st (map ti_tx_id (inputs tx)))) (\<lambda>from_inputs.
     let voided = from_parents \<union> from_inputs in
     bindR (Some (guardE (h \<notin> voided) (PyE AssertionError))) (\<lambda>_.
     bindR (Some (foldE (add_weight (env_libm (ce_env ce)) (weight tx)) st (ce_order ce voided))) (\<lambda>st1.
     let m = st_meta st1 h in
     bindR (Some (guardE (voided_by m = {} \<or> voided_by m = {h}) (PyE AssertionError))) (\<lambda>_.
     bindR (Some (guardE (fl_eq (accumulated_weight m) (weight tx)) (PyE AssertionError))) (\<lambda>_.
     let voided1 = (if conflict_with m \<noteq> [] then insert h voided else voided);
         nd1 = nd\<lparr>nd_st := st1\<rparr> in
     bindR (if voided1 = {} then Some (Inr nd1)
            else
              let nd2 = upd_meta h (\<lambda>m. m\<lparr>voided_by := voided1\<rparr>) nd1 in
              bindR (Some (del_from_cache (ce_libs ce) (nd_st nd2) False (nd_cache nd2) v)) (\<lambda>c.
              Some (Inr (nd2\<lparr>nd_cache := c\<rparr>)))) (\<lambda>nd3.
     bindR (check_voiding rec nd3 (filter (\<lambda>k. k \<noteq> h) (ce_order ce voided1))) (\<lambda>nd4.
     if voided_by (meta_of nd4 h) = {h} then rec (CheckConflicts v) nd4 else Some (Inr nd4))))))))))"

definition tx_update_consensus ::
  "('t, 'l) consensus_env \<Rightarrow> ('t, 'l) calls \<Rightarrow> ('t, 'l) node \<Rightarrow> vertex \<Rightarrow> ('t, 'l) node result option" where
  "tx_update_consensus ce rec nd v =
     bindR (Some (mark_inputs_as_used (nd_st nd) v)) (\<lambda>st.
     bindR (tx_update_voided_info ce rec (nd\<lparr>nd_st := st\<rparr>) v) (\<lambda>nd1.
     bindR (Some (set_conflict_twins (nd_st nd1) v)) (\<lambda>st2.
     Some (Inr (nd1\<lparr>nd_st := st2\<rparr>)))))"

end
