(* ===== verification/Block_Consensus.thy ===== *)
theory Block_Consensus
  imports Consensus
begin

text \<open>
  The consensus over blocks (\<^verbatim>\<open>BlockConsensusAlgorithm\<close> of \<^verbatim>\<open>hathor/consensus.py\<close>) and the entry point
  \<^verbatim>\<open>ConsensusAlgorithm.update\<close>: the score of a chain, the fork point, and which chain is the best one.
  Loops that follow the chain are partial functions, to be proved to end; making a chain the best one
  may fall back to another chain and takes a bound on how often.
\<close>

lemma bindR_mono [partial_function_mono]:
  fixes k :: "'c \<Rightarrow> ('a \<Rightarrow> 'b option) \<Rightarrow> 'd result option"
  assumes "mono_option m" and "\<And>x. mono_option (\<lambda>f. k x f)"
  shows "mono_option (\<lambda>f. bindR (m f) (\<lambda>x. k x f))"
proof -
  have e: "bindR x k' = Option.bind x (\<lambda>r. case r of Inl e \<Rightarrow> Some (Inl e) | Inr y \<Rightarrow> k' y)" for x and k' :: "'c \<Rightarrow> 'd result option"
    by (auto simp: bindR_def split: option.splits sum.splits)
  have "mono_option (\<lambda>f. case r of Inl e \<Rightarrow> Some (Inl e) | Inr y \<Rightarrow> k y f)" for r
    using assms(2) by (cases r) (auto simp: monotone_def flat_ord_def)
  then show ?thesis unfolding e by (intro bind_mono assms(1))
qed

lemma foldR_mono [partial_function_mono]:
  assumes "\<And>s x. mono_option (\<lambda>f. body s x f)"
  shows "mono_option (\<lambda>f. foldR (\<lambda>s x. body s x f) s xs)"
proof (induction xs arbitrary: s)
  case Nil
  show ?case by (simp add: monotoneI flat_ord_def)
next
  case (Cons x xs)
  show ?case unfolding foldR.simps by (intro bindR_mono assms Cons)
qed

subsection \<open>The fork point\<close>

partial_function (option) first_parent_loop :: "storage \<Rightarrow> bytes \<Rightarrow> vertex result option" where
  "first_parent_loop st parent_hash =
     bindR (Some (get_transaction st parent_hash)) (\<lambda>parent.
     bindR (Some (guardE (is_block parent) (PyE AssertionError))) (\<lambda>_.
     bindR (Some (the_hash parent)) (\<lambda>ph.
     if voided_by (st_meta st ph) = {} then Some (Inr parent)
     else
       bindR (Some (guardE (parents (vertex_base parent) \<noteq> []) (PyE AssertionError))) (\<lambda>_.
       bindR (Some (get_block_parent_hash parent)) (\<lambda>parent_hash'. first_parent_loop st parent_hash')))))"

definition find_first_parent_in_best_chain :: "storage \<Rightarrow> vertex \<Rightarrow> vertex result option" where
  "find_first_parent_in_best_chain st block =
     bindR (Some (guardE (parents (vertex_base block) \<noteq> []) (PyE AssertionError))) (\<lambda>_.
     bindR (Some (get_block_parent_hash block)) (first_parent_loop st))"

subsection \<open>The score\<close>

definition score_body ::
  "libm \<Rightarrow> bytes \<Rightarrow> bool \<Rightarrow> int \<Rightarrow> storage \<times> bytes set \<times> float64 \<Rightarrow> vertex \<Rightarrow> (storage \<times> bytes set \<times> float64) step result option" where
  "score_body lm block_hash mark_as_best_chain newest_timestamp = (\<lambda>(st, used, score) tx.
     Some (bindE (the_hash tx) (\<lambda>h.
     bindE (guardE (\<not> is_block tx) (PyE AssertionError)) (\<lambda>_.
     if h \<in> used then Inr (Skip (st, used, score))
     else
       let used1 = insert h used in
       bindE (case first_block (st_meta st h) of
                None \<Rightarrow> Inr False
              | Some k \<Rightarrow> bindE (get_transaction st k) (\<lambda>b. Inr (vtimestamp b \<le> newest_timestamp))) (\<lambda>counted.
       if counted then Inr (Skip (st, used1, score))
       else
         bindE (if mark_as_best_chain then
                  bindE (guardE (first_block (st_meta st h) = None) (PyE AssertionError)) (\<lambda>_.
                  Inr (upd_st h (\<lambda>m. m\<lparr>first_block := Some block_hash\<rparr>) st))
                else Inr st) (\<lambda>st1.
         bindE (sum_weights lm score (weight (vertex_base tx))) (\<lambda>score1.
         Inr (Next (st1, used1, score1)))))))))"

partial_function (option) score_block_dfs ::
  "libm \<Rightarrow> bool \<Rightarrow> int \<Rightarrow> storage \<times> bytes set \<Rightarrow> vertex \<Rightarrow> (float64 \<times> storage \<times> bytes set) result option" where
  "score_block_dfs lm mark_as_best_chain newest_timestamp su block =
     bindR (Some (the_hash block)) (\<lambda>h.
     bindR (Some (guardE (is_block block) (PyE AssertionError))) (\<lambda>_.
     bindR (foldR (\<lambda>s parent_hash.
              bindR (Some (get_transaction (fst s) parent_hash)) (\<lambda>parent.
              if is_block parent then
                bindR (Some (the_hash parent)) (\<lambda>ph.
                bindR (if vtimestamp parent \<le> newest_timestamp
                       then Some (Inr (score (st_meta (fst s) ph), fst s, fst (snd s)))
                       else score_block_dfs lm mark_as_best_chain newest_timestamp (fst s, fst (snd s)) parent) (\<lambda>x.
                bindR (Some (sum_weights lm (snd (snd s)) (fst x))) (\<lambda>score1.
                Some (Inr (fst (snd x), snd (snd x), score1)))))
              else
                bfs_run confirmed fst (score_body lm h mark_as_best_chain newest_timestamp) False s parent))
            (fst su, snd su, weight (vertex_base block)) (parents (vertex_base block))) (\<lambda>s.
     let st = fst s; used = fst (snd s); total = snd (snd s); m = st_meta st h in
     if fl_eq (score m) 0 then Some (Inr (total, upd_st h (\<lambda>m. m\<lparr>score := total\<rparr>) st, used))
     else
       bindR (Some (guardE (fl_less (fl_abs (fl_sub (score m) total)) SCORE_TOL) (PyE AssertionError))) (\<lambda>_.
       Some (Inr (total, st, used))))))"

definition calculate_score :: "node_env \<Rightarrow> bool \<Rightarrow> storage \<Rightarrow> vertex \<Rightarrow> (float64 \<times> storage) result option" where
  "calculate_score env mark_as_best_chain st block =
     (if is_genesis env block then
        bindR (Some (the_hash block)) (\<lambda>h.
        Some (Inr (weight (vertex_base block),
                   if mark_as_best_chain then upd_st h (\<lambda>m. m\<lparr>score := weight (vertex_base block)\<rparr>) st else st)))
      else
        bindR (find_first_parent_in_best_chain st block) (\<lambda>parent.
        bindR (score_block_dfs (env_libm env) mark_as_best_chain (vtimestamp parent) (st, {}) block) (\<lambda>(s, st1, _).
        Some (Inr (s, st1)))))"

subsection \<open>Voiding and unvoiding chains\<close>

definition union_voided_by_from_parents :: "storage \<Rightarrow> vertex \<Rightarrow> bytes set result" where
  "union_voided_by_from_parents st block =
     foldE (\<lambda>s k.
       bindE (get_transaction st k) (\<lambda>parent.
       bindE (the_hash parent) (\<lambda>ph.
       Inr (s \<union> (if is_block parent then voided_by (st_meta st ph) - {ph} else voided_by (st_meta st ph)))))) {}
     (parents (vertex_base block))"

definition update_voided_by_from_parents ::
  "('t, 'l) consensus_env \<Rightarrow> ('t, 'l) node \<Rightarrow> vertex \<Rightarrow> (bool \<times> ('t, 'l) node) result" where
  "update_voided_by_from_parents ce nd block =
     bindE (union_voided_by_from_parents (nd_st nd) block) (\<lambda>voided.
     if voided = {} then Inr (False, nd)
     else
       bindE (the_hash block) (\<lambda>h.
       let nd1 = upd_meta h (\<lambda>m. m\<lparr>voided_by := voided_by m \<union> voided\<rparr>) nd in
       bindE (del_from_cache (ce_libs ce) (nd_st nd1) True (nd_cache nd1) block) (\<lambda>c.
       Inr (True, nd1\<lparr>nd_cache := c\<rparr>))))"

partial_function (option) void_chain_loop ::
  "('t, 'l) calls \<Rightarrow> int \<Rightarrow> ('t, 'l) node \<Rightarrow> vertex \<Rightarrow> ('t, 'l) node result option" where
  "void_chain_loop rec fork_timestamp nd head =
     (if vtimestamp head \<le> fork_timestamp then Some (Inr nd)
      else
        bindR (Some (the_hash head)) (\<lambda>h.
        bindR (if h \<in> voided_by (meta_of nd h) then Some (Inr nd) else blk_mark_as_voided rec False nd head) (\<lambda>nd1.
        bindR (Some (get_block_parent (nd_st nd1) head)) (\<lambda>parent.
        void_chain_loop rec fork_timestamp nd1 parent))))"

definition add_voided_by_to_multiple_chains ::
  "('t, 'l) calls \<Rightarrow> ('t, 'l) node \<Rightarrow> vertex \<Rightarrow> vertex list \<Rightarrow> ('t, 'l) node result option" where
  "add_voided_by_to_multiple_chains rec nd block heads =
     bindR (find_first_parent_in_best_chain (nd_st nd) block) (\<lambda>first_block.
     foldR (void_chain_loop rec (vtimestamp first_block)) nd heads)"

partial_function (option) remove_voided_by_from_chain ::
  "('t, 'l) calls \<Rightarrow> ('t, 'l) node \<Rightarrow> vertex \<Rightarrow> ('t, 'l) node result option" where
  "remove_voided_by_from_chain rec nd block =
     bindR (Some (guardE (is_block block) (PyE AssertionError))) (\<lambda>_.
     bindR (blk_remove_voided_by rec nd block None) (\<lambda>r.
     if \<not> fst r then Some (Inr (snd r))
     else
       bindR (Some (get_block_parent (nd_st (snd r)) block)) (\<lambda>parent.
       remove_voided_by_from_chain rec (snd r) parent)))"

definition update_score_and_mark_as_the_best_chain ::
  "('t, 'l) consensus_env \<Rightarrow> ('t, 'l) node \<Rightarrow> vertex \<Rightarrow> ('t, 'l) node result option" where
  "update_score_and_mark_as_the_best_chain ce nd block =
     bindR (calculate_score (ce_env ce) True (nd_st nd) block) (\<lambda>(_, st). Some (Inr (nd\<lparr>nd_st := st\<rparr>)))"

text \<open>The heads of the best chains, from the cache of the storage or from the tips of the blocks.\<close>

definition best_block_tips :: "('t, 'l) consensus_env \<Rightarrow> ('t, 'l) node \<Rightarrow> bytes list result" where
  "best_block_tips ce nd =
     (case st_best_tips (nd_st nd) of
        Some tips \<Rightarrow> Inr tips
      | None \<Rightarrow>
          bindE (get_block_tips (ce_libs ce) (nd_cache nd) None) (\<lambda>tips.
          get_best_block_tips ((ce_env ce)\<lparr>env_block_tips := (\<lambda>_. map iv_data tips)\<rparr>) (nd_st nd) None))"

definition best_heads :: "('t, 'l) consensus_env \<Rightarrow> ('t, 'l) node \<Rightarrow> vertex list result" where
  "best_heads ce nd = bindE (best_block_tips ce nd) (mapE (get_transaction (nd_st nd)))"

text \<open>The heads with the best score; the list is unbound until the first head with a score.\<close>

definition best_head_step ::
  "storage \<Rightarrow> float64 \<times> vertex list option \<Rightarrow> vertex \<Rightarrow> (float64 \<times> vertex list option) result" where
  "best_head_step st = (\<lambda>(best_score, best) head.
     bindE (the_hash head) (\<lambda>h.
     let s = score (st_meta st h) in
     if fl_le s (fl_sub best_score WEIGHT_TOL) then Inr (best_score, best)
     else if fl_le (fl_add best_score WEIGHT_TOL) s then Inr (s, Some [head])
     else
       bindE (guardE (fl_less (fl_abs (fl_sub best_score s)) SCORE_TOL) (PyE AssertionError)) (\<lambda>_.
       bindE (of_option (PyE UnboundLocalError) best) (\<lambda>heads. Inr (best_score, Some (heads @ [head]))))))"

primrec update_score_and_mark_as_the_best_chain_if_possible ::
  "nat \<Rightarrow> ('t, 'l) consensus_env \<Rightarrow> ('t, 'l) calls \<Rightarrow> ('t, 'l) node \<Rightarrow> vertex \<Rightarrow> ('t, 'l) node result option" where
  "update_score_and_mark_as_the_best_chain_if_possible 0 ce rec nd block = None"
| "update_score_and_mark_as_the_best_chain_if_possible (Suc n) ce rec nd block =
     bindR (update_score_and_mark_as_the_best_chain ce nd block) (\<lambda>nd1.
     bindR (remove_voided_by_from_chain rec nd1 block) (\<lambda>nd2.
     bindR (Some (update_voided_by_from_parents ce nd2 block)) (\<lambda>(voided, nd3).
     if \<not> voided then Some (Inr nd3)
     else
       bindR (Some (best_heads ce nd3)) (\<lambda>heads.
       bindR (Some (foldE (best_head_step (nd_st nd3)) (0, None) heads)) (\<lambda>(best_score, best).
       bindR (Some (guardE (fl_less 0 best_score) (PyE AssertionError))) (\<lambda>_.
       bindR (Some (of_option (PyE UnboundLocalError) best)) (\<lambda>bs.
       bindR (add_voided_by_to_multiple_chains rec nd3 (hd bs) [block]) (\<lambda>nd4.
       if length bs = 1 then update_score_and_mark_as_the_best_chain_if_possible n ce rec nd4 (hd bs)
       else Some (Inr nd4)))))))))"

subsection \<open>A new block\<close>

definition heads_score :: "storage \<Rightarrow> vertex list \<Rightarrow> float64 result" where
  "heads_score st heads =
     bindE (foldE (\<lambda>best head.
              bindE (the_hash head) (\<lambda>h.
              let s = score (st_meta st h) in
              case best of
                None \<Rightarrow> Inr (Some s)
              | Some b \<Rightarrow> bindE (guardE (fl_less (fl_abs (fl_sub b s)) SCORE_TOL) (PyE AssertionError)) (\<lambda>_. Inr (Some b))))
            None heads) (of_option (PyE AssertionError))"

definition set_best_tips :: "bytes list \<Rightarrow> ('t, 'l) node \<Rightarrow> ('t, 'l) node" where
  "set_best_tips hs nd = nd\<lparr>nd_st := (nd_st nd)\<lparr>st_best_tips := Some hs\<rparr>\<rparr>"

definition take_best_chain ::
  "nat \<Rightarrow> ('t, 'l) consensus_env \<Rightarrow> ('t, 'l) calls \<Rightarrow> ('t, 'l) node \<Rightarrow> vertex \<Rightarrow> bytes \<Rightarrow> ('t, 'l) node result option" where
  "take_best_chain n ce rec nd block h =
     bindR (update_score_and_mark_as_the_best_chain_if_possible n ce rec nd block) (\<lambda>nd1.
     Some (Inr (if voided_by (meta_of nd1 h) = {} then set_best_tips [h] nd1 else nd1)))"

definition resolve_chains ::
  "nat \<Rightarrow> ('t, 'l) consensus_env \<Rightarrow> ('t, 'l) calls \<Rightarrow> ('t, 'l) node \<Rightarrow> vertex \<Rightarrow> bytes \<Rightarrow> ('t, 'l) node result option" where
  "resolve_chains n ce rec nd block h =
     bindR (blk_mark_as_voided rec True nd block) (\<lambda>nd1.
     bindR (Some (best_heads ce nd1)) (\<lambda>heads.
     bindR (Some (heads_score (nd_st nd1) heads)) (\<lambda>best_score.
     bindR (calculate_score (ce_env ce) False (nd_st nd1) block) (\<lambda>(s, st).
     let nd2 = nd1\<lparr>nd_st := st\<rparr> in
     if fl_le s (fl_sub best_score WEIGHT_TOL) then
       bindR (Some (update_voided_by_from_parents ce nd2 block)) (\<lambda>(_, nd3). Some (Inr nd3))
     else
       let valid_heads = filter (\<lambda>b. voided_by (meta_of nd2 (vhash b)) = {}) heads in
       bindR (Some (guardE (length valid_heads \<le> 1) (PyE AssertionError))) (\<lambda>_.
       bindR (add_voided_by_to_multiple_chains rec nd2 block heads) (\<lambda>nd3.
       if fl_le (fl_add best_score WEIGHT_TOL) s then take_best_chain n ce rec nd3 block h
       else Some (Inr (set_best_tips (map vhash heads) nd3))))))))"

definition blk_update_voided_info ::
  "nat \<Rightarrow> ('t, 'l) consensus_env \<Rightarrow> ('t, 'l) calls \<Rightarrow> ('t, 'l) node \<Rightarrow> vertex \<Rightarrow> ('t, 'l) node result option" where
  "blk_update_voided_info n ce rec nd block =
     bindR (Some (guardE (fl_less 0 (weight (vertex_base block))) (PyE AssertionError))) (\<lambda>_.
     if parents (vertex_base block) = [] then
       bindR (Some (guardE (is_genesis (ce_env ce) block) (PyE AssertionError))) (\<lambda>_.
       update_score_and_mark_as_the_best_chain ce nd block)
     else
       bindR (Some (the_hash block)) (\<lambda>h.
       bindR (Some (union_voided_by_from_parents (nd_st nd) block)) (\<lambda>voided.
       bindR (Some (guardE (h \<notin> voided) (PyE AssertionError))) (\<lambda>_.
       bindR (Some (foldE (add_weight (env_libm (ce_env ce)) (weight (vertex_base block))) (nd_st nd) (ce_order ce voided))) (\<lambda>st.
       bindR (check_voiding rec (nd\<lparr>nd_st := st\<rparr>) (ce_order ce voided)) (\<lambda>nd1.
       bindR (Some (get_block_parent (nd_st nd1) block)) (\<lambda>parent.
       bindR (Some (the_hash parent)) (\<lambda>ph.
       let parent_meta = meta_of nd1 ph in
       bindR (Some (guardE (h \<in> set (children parent_meta)) (PyE AssertionError))) (\<lambda>_.
       if length (children parent_meta) = 1 \<and> voided_by parent_meta = {} then take_best_chain n ce rec nd1 block h
       else resolve_chains n ce rec nd1 block h)))))))))"

definition consensus_update ::
  "nat \<Rightarrow> ('t, 'l) consensus_env \<Rightarrow> ('t, 'l) node \<Rightarrow> vertex \<Rightarrow> ('t, 'l) node result option" where
  "consensus_update n ce nd v =
     (if is_block v then blk_update_voided_info n ce (run_calls ce n) nd v
      else tx_update_consensus ce (run_calls ce n) nd v)"

end
