(* ===== verification/Conflict_Rules.thy ===== *)
theory Conflict_Rules
  imports Block_Consensus "HOL-Library.Multiset"
begin

text \<open>
  What the consensus does with conflicts: which transactions are twins, how the conflicts are
  recorded when a new transaction comes, and who wins.
\<close>

subsection \<open>Twins\<close>

lemma sorted_keys_eq:
  "map f (sort_key f xs) = map f (sort_key f ys) \<longleftrightarrow> mset (map f xs) = mset (map f ys)"
proof
  assume "map f (sort_key f xs) = map f (sort_key f ys)"
  then have "mset (map f (sort_key f xs)) = mset (map f (sort_key f ys))" by simp
  then show "mset (map f xs) = mset (map f ys)" by simp
next
  assume "mset (map f xs) = mset (map f ys)"
  then have "mset (map f (sort_key f xs)) = mset (map f (sort_key f ys))" by simp
  moreover have "sorted (map f (sort_key f xs))" "sorted (map f (sort_key f ys))" by simp_all
  ultimately show "map f (sort_key f xs) = map f (sort_key f ys)" by (metis properties_for_sort)
qed

lemma list_all2_keys: "list_all2 (\<lambda>x y. f x = f y) xs ys \<longleftrightarrow> map f xs = map f ys"
  by (simp add: list.rel_map(1)[symmetric] list.rel_eq[symmetric] list.rel_map)

lemma same_bag_length: "mset (map f xs) = mset (map f ys) \<Longrightarrow> length xs = length ys"
  by (metis length_map mset_eq_length)

text \<open>
  C36: two transactions are taken for twins exactly if they are different and have the same inputs
  and the same outputs up to their order, where of an output only the script and the value count:
  the comparison of the sorted lists is the comparison of the bags.
\<close>

theorem is_twin_iff:
  "is_twin v c \<longleftrightarrow> tx_hash (vertex_base c) \<noteq> tx_hash (vertex_base v) \<and>
     mset (map input_sort_key (inputs (vertex_base c))) = mset (map input_sort_key (inputs (vertex_base v))) \<and>
     mset (map output_sort_key (outputs (vertex_base c))) = mset (map output_sort_key (outputs (vertex_base v)))"
proof -
  have i: "(\<lambda>i j. ti_tx_id i = ti_tx_id j \<and> ti_data i = ti_data j \<and> ti_index i = ti_index j) =
      (\<lambda>i j. input_sort_key i = input_sort_key j)" by (auto simp: input_sort_key_def fun_eq_iff)
  have o': "(\<lambda>i j. to_value i = to_value j \<and> to_script i = to_script j) =
      (\<lambda>i j. output_sort_key i = output_sort_key j)" by (auto simp: output_sort_key_def fun_eq_iff)
  show ?thesis
    unfolding is_twin_def i o' list_all2_keys sorted_keys_eq Let_def
    using same_bag_length [of input_sort_key "inputs (vertex_base c)"] same_bag_length [of output_sort_key "outputs (vertex_base c)"]
    by blast
qed

subsection \<open>Recording conflicts\<close>

text \<open>
  The conflicts in the metadata are exactly the pairs of different transactions that spend a common
  output, and whatever is recorded as spending an output is stored under its hash.
\<close>

definition conflicts_ok :: "storage \<Rightarrow> bool" where
  "conflicts_ok st \<longleftrightarrow> (\<forall>a b. b \<in> set (conflict_with (st_meta st a)) \<longleftrightarrow>
     a \<noteq> b \<and> (\<exists>u i. a \<in> set (spent_by (st_meta st u) i) \<and> b \<in> set (spent_by (st_meta st u) i)))"

definition spenders_ok :: "storage \<Rightarrow> bool" where
  "spenders_ok st \<longleftrightarrow> (\<forall>k v. st_txs st k = Some v \<longrightarrow> tx_hash (vertex_base v) = Some k) \<and>
     (\<forall>u i. set (spent_by (st_meta st u) i) \<subseteq> dom (st_txs st))"

text \<open>Two storages with the same vertices that differ in the lists of conflicts, whose contents are given.\<close>

definition conflicts_become :: "(bytes \<Rightarrow> bytes set) \<Rightarrow> storage \<Rightarrow> storage \<Rightarrow> bool" where
  "conflicts_become F st st' \<longleftrightarrow> st_txs st' = st_txs st \<and>
     (\<forall>a. \<exists>cs. st_meta st' a = (st_meta st a)\<lparr>conflict_with := cs\<rparr> \<and> set cs = F a)"

lemma st_meta_upd_st [simp]: "st_meta (upd_st h f st) k = (if k = h then f (st_meta st h) else st_meta st k)"
  and st_txs_upd_st [simp]: "st_txs (upd_st h f st) = st_txs st"
  and st_best_tips_upd_st [simp]: "st_best_tips (upd_st h f st) = st_best_tips st"
  by (simp_all add: upd_st_def)

lemma note_conflicts:
  assumes "\<forall>k \<in> set ks. \<exists>v. st_txs st k = Some v \<and> tx_hash (vertex_base v) = Some k"
  shows "\<exists>st'. foldE (\<lambda>st k.
      bindE (get_transaction st k) (\<lambda>conflict_tx.
      bindE (the_hash conflict_tx) (\<lambda>ch.
      Inr (upd_st ch (\<lambda>m. m\<lparr>conflict_with := conflict_with m @ [h]\<rparr>) st)))) st ks = Inr st' \<and>
    conflicts_become (\<lambda>a. set (conflict_with (st_meta st a)) \<union> (if a \<in> set ks then {h} else {})) st st'"
  using assms
proof (induction ks arbitrary: st)
  case Nil
  have "\<exists>cs. m = m\<lparr>conflict_with := cs\<rparr> \<and> set cs = set (conflict_with m)" for m :: tx_meta
    by (rule exI [of _ "conflict_with m"]) simp
  then show ?case by (simp add: conflicts_become_def)
next
  case (Cons k ks)
  define st1 where "st1 = upd_st k (\<lambda>m. m\<lparr>conflict_with := conflict_with m @ [h]\<rparr>) st"
  obtain v where v: "st_txs st k = Some v" "tx_hash (vertex_base v) = Some k" using Cons.prems by auto
  have "\<forall>k \<in> set ks. \<exists>v. st_txs st1 k = Some v \<and> tx_hash (vertex_base v) = Some k" using Cons.prems by (simp add: st1_def)
  from Cons.IH [OF this] obtain st' where
    st': "foldE (\<lambda>st k.
      bindE (get_transaction st k) (\<lambda>conflict_tx.
      bindE (the_hash conflict_tx) (\<lambda>ch.
      Inr (upd_st ch (\<lambda>m. m\<lparr>conflict_with := conflict_with m @ [h]\<rparr>) st)))) st1 ks = Inr st'"
    and c: "conflicts_become (\<lambda>a. set (conflict_with (st_meta st1 a)) \<union> (if a \<in> set ks then {h} else {})) st1 st'" by blast
  have "conflicts_become (\<lambda>a. set (conflict_with (st_meta st a)) \<union> (if a \<in> set (k # ks) then {h} else {})) st st'"
    unfolding conflicts_become_def
  proof (intro conjI allI)
    show "st_txs st' = st_txs st" using c by (simp add: conflicts_become_def st1_def)
    fix a
    obtain cs where "st_meta st' a = (st_meta st1 a)\<lparr>conflict_with := cs\<rparr>"
      "set cs = set (conflict_with (st_meta st1 a)) \<union> (if a \<in> set ks then {h} else {})"
      using c by (auto simp: conflicts_become_def)
    then show "\<exists>cs. st_meta st' a = (st_meta st a)\<lparr>conflict_with := cs\<rparr> \<and>
        set cs = set (conflict_with (st_meta st a)) \<union> (if a \<in> set (k # ks) then {h} else {})"
      by (intro exI [of _ cs]) (auto simp: st1_def)
  qed
  then show ?case using v st' by (simp add: get_transaction_def the_hash_def st1_def)
qed

text \<open>What marking an input of the transaction with a hash changes in the spent outputs and in what is voided.\<close>

definition input_used :: "bytes \<Rightarrow> txinput \<Rightarrow> storage \<Rightarrow> storage \<Rightarrow> bool" where
  "input_used h i st st' \<longleftrightarrow> st_txs st' = st_txs st \<and>
     (\<forall>u j. spent_by (st_meta st' u) j =
        spent_by (st_meta st u) j @ (if u = ti_tx_id i \<and> j = ti_index i then [h] else [])) \<and>
     (\<forall>a. voided_by (st_meta st' a) = voided_by (st_meta st a) \<union>
        (if a = h \<and> spent_by (st_meta st (ti_tx_id i)) (ti_index i) \<noteq> [] then {h} else {}))"

lemma spent_by_set [simp]: "spent_by (set_spent_by i hs m) j = (if j = i then hs else spent_by m j)"
  by (simp add: spent_by_def set_spent_by_def)

lemma spent_by_unchanged [simp]:
  "spent_by (m\<lparr>conflict_with := cs\<rparr>) j = spent_by m j"
  "spent_by (m\<lparr>voided_by := vs\<rparr>) j = spent_by m j"
  by (simp_all add: spent_by_def)

lemma conflicts_ok_extend:
  assumes "conflicts_ok st" and "h \<notin> set (spent_by (st_meta st U) J)"
    and "\<And>u j. set (spent_by (st_meta st' u) j) = set (spent_by (st_meta st u) j) \<union> (if u = U \<and> j = J then {h} else {})"
    and "\<And>a. set (conflict_with (st_meta st' a)) = set (conflict_with (st_meta st a)) \<union>
      (if a = h then set (spent_by (st_meta st U) J) else {}) \<union> (if a \<in> set (spent_by (st_meta st U) J) then {h} else {})"
  shows "conflicts_ok st'"
  unfolding conflicts_ok_def
proof (intro allI)
  fix a b
  have old: "b \<in> set (conflict_with (st_meta st a)) \<longleftrightarrow>
      a \<noteq> b \<and> (\<exists>u i. a \<in> set (spent_by (st_meta st u) i) \<and> b \<in> set (spent_by (st_meta st u) i))"
    using assms(1) by (simp add: conflicts_ok_def)
  have both: "(\<exists>u j. a \<in> set (spent_by (st_meta st' u) j) \<and> b \<in> set (spent_by (st_meta st' u) j)) \<longleftrightarrow>
      (\<exists>u j. a \<in> set (spent_by (st_meta st u) j) \<and> b \<in> set (spent_by (st_meta st u) j)) \<or>
      (a \<in> insert h (set (spent_by (st_meta st U) J)) \<and> b \<in> insert h (set (spent_by (st_meta st U) J)))"
    unfolding assms(3) by auto
  show "b \<in> set (conflict_with (st_meta st' a)) \<longleftrightarrow>
      a \<noteq> b \<and> (\<exists>u i. a \<in> set (spent_by (st_meta st' u) i) \<and> b \<in> set (spent_by (st_meta st' u) i))"
    unfolding assms(4) both using old assms(2) by auto
qed

lemma mark_input_exact:
  assumes "spenders_ok st" and "conflicts_ok st" and "st_txs st h = Some v" and "st_txs st (ti_tx_id i) \<noteq> None"
    and "h \<notin> set (spent_by (st_meta st (ti_tx_id i)) (ti_index i))"
  shows "\<exists>st'. mark_input_as_used v st i = Inr st' \<and> spenders_ok st' \<and> conflicts_ok st' \<and> input_used h i st st'"
proof -
  let ?U = "ti_tx_id i" and ?J = "ti_index i"
  define spent where "spent = spent_by (st_meta st ?U) ?J"
  define st1 where "st1 = (if spent = [] then st
    else upd_st h (\<lambda>m. m\<lparr>voided_by := insert h (voided_by m), conflict_with := conflict_with m @ spent\<rparr>) st)"
  have hash: "tx_hash (vertex_base v) = Some h" using assms(1,3) by (simp add: spenders_ok_def)
  obtain u where u: "st_txs st ?U = Some u" "tx_hash (vertex_base u) = Some ?U" using assms(1,4) by (auto simp: spenders_ok_def)
  have "\<forall>k \<in> set spent. \<exists>v. st_txs st k = Some v \<and> tx_hash (vertex_base v) = Some k"
    using assms(1) unfolding spent_def spenders_ok_def by blast
  then have "\<forall>k \<in> set spent. \<exists>v. st_txs st1 k = Some v \<and> tx_hash (vertex_base v) = Some k" by (simp add: st1_def)
  from note_conflicts [OF this, of h] obtain st2 where
    st2: "foldE (\<lambda>st k.
      bindE (get_transaction st k) (\<lambda>conflict_tx.
      bindE (the_hash conflict_tx) (\<lambda>ch.
      Inr (upd_st ch (\<lambda>m. m\<lparr>conflict_with := conflict_with m @ [h]\<rparr>) st)))) st1 spent = Inr st2"
    and c: "conflicts_become (\<lambda>a. set (conflict_with (st_meta st1 a)) \<union> (if a \<in> set spent then {h} else {})) st1 st2" by blast
  define st' where "st' = upd_st ?U (set_spent_by ?J (spent @ [h])) st2"
  have "the_hash v = Inr h" "get_transaction st ?U = Inr u" "the_hash u = Inr ?U" "guardE (h \<notin> set spent) (PyE AssertionError) = Inr ()"
    using hash u assms(5) by (simp_all add: the_hash_def get_transaction_def spent_def)
  then have r: "mark_input_as_used v st i = Inr st'"
    unfolding mark_input_as_used_def by (simp only: bindE_Inr Let_def spent_def [symmetric] st1_def [symmetric] st2 st'_def)
  have m2: "spent_by (st_meta st2 a) j = spent_by (st_meta st a) j" "voided_by (st_meta st2 a) = voided_by (st_meta st1 a)"
    "set (conflict_with (st_meta st2 a)) = set (conflict_with (st_meta st1 a)) \<union> (if a \<in> set spent then {h} else {})" for a j
  proof -
    obtain cs where cs: "st_meta st2 a = (st_meta st1 a)\<lparr>conflict_with := cs\<rparr>"
      "set cs = set (conflict_with (st_meta st1 a)) \<union> (if a \<in> set spent then {h} else {})"
      using c by (auto simp: conflicts_become_def)
    then show "spent_by (st_meta st2 a) j = spent_by (st_meta st a) j" "voided_by (st_meta st2 a) = voided_by (st_meta st1 a)"
      "set (conflict_with (st_meta st2 a)) = set (conflict_with (st_meta st1 a)) \<union> (if a \<in> set spent then {h} else {})"
      by (simp_all add: st1_def)
  qed
  have s': "spent_by (st_meta st' a) j = spent_by (st_meta st a) j @ (if a = ?U \<and> j = ?J then [h] else [])" for a j
    using m2(1) by (simp add: st'_def spent_def)
  have v': "voided_by (st_meta st' a) = voided_by (st_meta st1 a)" "conflict_with (st_meta st' a) = conflict_with (st_meta st2 a)" for a
    using m2(2) by (simp_all add: st'_def set_spent_by_def)
  have t': "st_txs st' = st_txs st" using c by (simp add: st'_def conflicts_become_def st1_def)
  have "input_used h i st st'"
    unfolding input_used_def t' s' v' spent_def [symmetric] by (auto simp: st1_def)
  moreover have "spenders_ok st'"
    using assms(1,3) unfolding spenders_ok_def t' s' by auto
  moreover have "conflicts_ok st'"
    by (rule conflicts_ok_extend [OF assms(2,5)]) (auto simp: s' v' m2(3) spent_def [symmetric] st1_def)
  ultimately show ?thesis using r by blast
qed

definition outpoint_of :: "txinput \<Rightarrow> bytes \<times> int" where
  "outpoint_of i = (ti_tx_id i, ti_index i)"

definition inputs_used :: "bytes \<Rightarrow> txinput list \<Rightarrow> storage \<Rightarrow> storage \<Rightarrow> bool" where
  "inputs_used h is st st' \<longleftrightarrow> st_txs st' = st_txs st \<and>
     (\<forall>u j. spent_by (st_meta st' u) j = spent_by (st_meta st u) j @ (if (u, j) \<in> outpoint_of ` set is then [h] else [])) \<and>
     (\<forall>a. voided_by (st_meta st' a) = voided_by (st_meta st a) \<union>
        (if a = h \<and> (\<exists>i \<in> set is. spent_by (st_meta st (ti_tx_id i)) (ti_index i) \<noteq> []) then {h} else {}))"

lemma inputs_used_Cons:
  assumes "input_used h i st st1" and "inputs_used h is st1 st'" and "outpoint_of i \<notin> outpoint_of ` set is"
  shows "inputs_used h (i # is) st st'"
proof -
  have "spent_by (st_meta st1 (ti_tx_id k)) (ti_index k) = spent_by (st_meta st (ti_tx_id k)) (ti_index k)" if "k \<in> set is" for k
  proof -
    have "outpoint_of k \<noteq> outpoint_of i" using assms(3) that by (metis imageI)
    then show ?thesis using assms(1) by (auto simp: input_used_def outpoint_of_def)
  qed
  then show ?thesis using assms unfolding inputs_used_def input_used_def by (auto simp: outpoint_of_def)
qed

lemma mark_inputs_exact:
  assumes "spenders_ok st" and "conflicts_ok st" and "st_txs st h = Some v"
    and "\<forall>i \<in> set is. st_txs st (ti_tx_id i) \<noteq> None \<and> h \<notin> set (spent_by (st_meta st (ti_tx_id i)) (ti_index i))"
    and "distinct (map outpoint_of is)"
  shows "\<exists>st'. foldE (mark_input_as_used v) st is = Inr st' \<and> spenders_ok st' \<and> conflicts_ok st' \<and> inputs_used h is st st'"
  using assms
proof (induction "is" arbitrary: st)
  case (Cons i "is")
  obtain st1 where st1: "mark_input_as_used v st i = Inr st1" "spenders_ok st1" "conflicts_ok st1" "input_used h i st st1"
    using mark_input_exact [OF Cons.prems(1,2,3), of i] Cons.prems(4) by auto
  have fresh: "outpoint_of i \<notin> outpoint_of ` set is" using Cons.prems(5) by simp
  have "st_txs st1 (ti_tx_id k) \<noteq> None \<and> h \<notin> set (spent_by (st_meta st1 (ti_tx_id k)) (ti_index k))" if "k \<in> set is" for k
  proof -
    have "outpoint_of k \<noteq> outpoint_of i" using fresh that by (metis imageI)
    then show ?thesis using st1(4) Cons.prems(4) that by (auto simp: input_used_def outpoint_of_def)
  qed
  then obtain st' where "foldE (mark_input_as_used v) st1 is = Inr st'" "spenders_ok st'" "conflicts_ok st'" "inputs_used h is st1 st'"
    using Cons.IH [OF st1(2,3)] st1(4) Cons.prems(3,5) by (auto simp: input_used_def)
  then show ?case using st1(1) inputs_used_Cons [OF st1(4) _ fresh] by auto
qed (simp add: inputs_used_def)

text \<open>
  C30: a new transaction is recorded as spending exactly its inputs, and the conflicts stay right: two
  different transactions have each other in their lists exactly if they are recorded as spending a
  common output. The new transaction starts out voided by itself exactly if one of its inputs had
  been spent before, and nothing else is voided. Its inputs are stored, different, and not yet
  recorded as spent by it.
\<close>

theorem mark_inputs_as_used_exact:
  assumes "spenders_ok st" and "conflicts_ok st" and "st_txs st h = Some v"
    and "\<forall>i \<in> set (inputs (vertex_base v)). st_txs st (ti_tx_id i) \<noteq> None \<and>
      h \<notin> set (spent_by (st_meta st (ti_tx_id i)) (ti_index i))"
    and "distinct (map outpoint_of (inputs (vertex_base v)))"
  shows "\<exists>st'. mark_inputs_as_used st v = Inr st' \<and> conflicts_ok st' \<and> spenders_ok st' \<and>
    (\<forall>u j. set (spent_by (st_meta st' u) j) = set (spent_by (st_meta st u) j) \<union>
      {k. k = h \<and> (u, j) \<in> outpoint_of ` set (inputs (vertex_base v))}) \<and>
    (\<forall>a. voided_by (st_meta st' a) = voided_by (st_meta st a) \<union>
      {k. k = h \<and> a = h \<and> (\<exists>i \<in> set (inputs (vertex_base v)). spent_by (st_meta st (ti_tx_id i)) (ti_index i) \<noteq> [])})"
  using mark_inputs_exact [OF assms] unfolding mark_inputs_as_used_def inputs_used_def by fastforce

subsection \<open>An example\<close>

definition spender :: "byte \<Rightarrow> int \<Rightarrow> (bytes \<times> int) list \<Rightarrow> vertex" where
  "spender b t outpoints = VTransaction \<lparr>nonce = 0, timestamp = t, version = 1, weight = 0,
     inputs = map (\<lambda>(h, i). \<lparr>ti_tx_id = h, ti_index = i, ti_data = []\<rparr>) outpoints, outputs = [],
     parents = [], tx_hash = Some [b], tokens = []\<rparr>"

definition spend_storage :: storage where
  "spend_storage = \<lparr>st_txs = [[1] \<mapsto> spender 1 10 [], [2] \<mapsto> spender 2 20 [([1], 0)], [3] \<mapsto> spender 3 30 [([1], 0)]],
     st_meta = (\<lambda>h. (new_meta (Some h) 0 0)\<lparr>spent_outputs := (if h = [1] then [(0, [[2]])] else [])\<rparr>), st_best_tips = None\<rparr>"

theorem mark_inputs_as_used_exact_witness:
  "\<exists>st'. mark_inputs_as_used spend_storage (spender 3 30 [([1], 0)]) = Inr st' \<and> conflicts_ok st' \<and>
    set (spent_by (st_meta st' [1]) 0) = {[2], [3]} \<and> voided_by (st_meta st' [3]) = {[3]} \<and> voided_by (st_meta st' [2]) = {}"
proof -
  have v: "inputs (vertex_base (spender 3 30 [([1], 0)])) = [\<lparr>ti_tx_id = [1], ti_index = 0, ti_data = []\<rparr>]"
    by (simp add: spender_def base_transaction.defs)
  have s: "spent_by (st_meta spend_storage u) j = (if u = [1] \<and> j = 0 then [[2]] else [])" for u j
    by (simp add: spend_storage_def spent_by_def)
  have "spenders_ok spend_storage" unfolding spenders_ok_def s
    by (auto simp: spend_storage_def spender_def base_transaction.defs split: if_splits)
  moreover have "conflicts_ok spend_storage" unfolding conflicts_ok_def s by (auto simp: spend_storage_def new_meta_def)
  ultimately show ?thesis
    using mark_inputs_as_used_exact [of spend_storage "[3]" "spender 3 30 [([1], 0)]"] unfolding v s
    by (fastforce simp: spend_storage_def new_meta_def outpoint_of_def)
qed

end
