(* ===== verification/Voiding_Rules.thy ===== *)
theory Voiding_Rules
  imports Conflict_Rules
begin

text \<open>
  What voiding a transaction does to everything that depends on it, to the indices and to the
  counters, and the accumulated weight of a transaction.
\<close>

subsection \<open>Walks that visit everything\<close>

context walk_queue
begin

lemma walk_all_rule:
  assumes g: "graph_ok cfg st" and r: "st_txs st r = Some root" and key: "ordered \<Longrightarrow> key = item_key cfg"
    and frame: "\<And>s vs. J s vs \<Longrightarrow> same_graph st (sto s)"
    and step: "\<And>s vs v. J s vs \<Longrightarrow> st_txs st (vhash v) = Some v \<Longrightarrow> vhash v \<notin> set vs \<Longrightarrow> set vs \<subseteq> reached cfg st skip r \<Longrightarrow>
      vhash v \<in> reached cfg st skip r \<Longrightarrow> ordered \<longrightarrow> (\<forall>h \<in> set vs. key (the (st_txs st h)) \<le> key v) \<Longrightarrow>
      \<exists>s'. body s v = Some (Inr (Next s')) \<and> J s' (vs @ [vhash v]) \<or> body s v = Some (Inr (Break s')) \<and> Q s'"
    and final: "\<And>s vs. J s vs \<Longrightarrow> distinct vs \<Longrightarrow> set vs = reached cfg st skip r \<Longrightarrow> Q s"
    and init: "J s []"
  shows "\<exists>s'. walk_run push pop cfg sto body skip s root = Some (Inr s') \<and> Q s'"
proof -
  define I where "I s vs E \<longleftrightarrow> J s vs \<and> set vs \<subseteq> reached cfg st skip r \<and> (if skip then E = insert r (set vs) else E = set vs)"
    for s vs E
  show ?thesis
  proof (rule walk_run_rule [where I = I and st = st, OF g r key])
    fix s vs E v
    assume i: "I s vs E" and v: "st_txs st (vhash v) = Some v" "vhash v \<notin> set vs"
      and o: "\<not> skip \<and> vhash v = r \<or> (\<exists>e \<in> E. vhash v \<in> set (nbs cfg st e))"
      and k: "ordered \<longrightarrow> (\<forall>h \<in> set vs. key (the (st_txs st h)) \<le> key v)"
    have re: "vhash v \<in> reached cfg st skip r" using reached_step [OF _ _ o, of "set vs"] i by (auto simp: I_def)
    have j: "J s vs" "set vs \<subseteq> reached cfg st skip r" using i by (simp_all add: I_def)
    from step [OF j(1) v j(2) re k] obtain s' where
      "body s v = Some (Inr (Next s')) \<and> J s' (vs @ [vhash v]) \<or> body s v = Some (Inr (Break s')) \<and> Q s'" by blast
    then show "\<exists>x. body s v = Some (Inr x) \<and> (case x of Next s' \<Rightarrow> I s' (vs @ [vhash v]) (insert (vhash v) E)
        | Skip s' \<Rightarrow> I s' (vs @ [vhash v]) E | Break s' \<Rightarrow> Q s')"
      using i re by (auto simp: I_def)
  next
    fix s vs E
    assume i: "I s vs E" and f: "distinct vs" "\<forall>e \<in> E. set (nbs cfg st e) \<subseteq> set vs \<union> {r}"
      "if skip then r \<notin> set vs else r \<in> set vs"
    then have "reached cfg st skip r \<subseteq> set vs" by (intro closed_reached [OF g f(2)]) (auto simp: I_def)
    then show "Q s" using i f(1) final [of s vs] by (auto simp: I_def)
  next
    show "I s [] (if skip then {r} else {})" using init by (simp add: I_def)
  qed (use frame in \<open>auto simp: I_def\<close>)
qed

end

subsection \<open>Accumulated weight\<close>

definition weights_total :: "libm \<Rightarrow> bool" where
  "weights_total lm \<longleftrightarrow> (\<forall>a b. \<exists>w. sum_weights lm a b = Inr w)"

definition sum_all :: "libm \<Rightarrow> float64 \<Rightarrow> vertex list \<Rightarrow> float64 result" where
  "sum_all lm w vs = foldE (\<lambda>acc u. sum_weights lm acc (weight (vertex_base u))) w vs"

lemma sum_all_snoc: "sum_all lm w (vs @ [u]) = bindE (sum_all lm w vs) (\<lambda>acc. sum_weights lm acc (weight (vertex_base u)))"
  by (simp add: sum_all_def foldE_append)

lemma fl_mag_le:
  assumes "\<not> fl_nan x"
  shows "fl_mag x \<le> 2 ^ 52 * 2 ^ 2046" and "0 \<le> fl_mag x"
proof -
  have e: "0 \<le> fl_exp x" "fl_exp x \<le> 2047" unfolding fl_exp_def by (simp_all add: pos_mod_bound [of "2 ^ 11 :: int", simplified])
  have f: "0 \<le> fl_frac x" "fl_frac x < 2 ^ 52" unfolding fl_frac_def by simp_all
  show "0 \<le> fl_mag x" using f(1) by (simp add: fl_mag_def)
  show "fl_mag x \<le> 2 ^ 52 * 2 ^ 2046"
  proof (cases "fl_exp x = 2047")
    case True
    then have "fl_frac x = 0" using assms by (simp add: fl_nan_def)
    then show ?thesis unfolding fl_mag_def True by simp
  next
    case False
    have "fl_mag x \<le> 2 ^ 53 * 2 ^ nat (fl_exp x - 1)"
    proof (cases "fl_exp x = 0")
      case True
      have "(1::int) \<le> 2 ^ nat (fl_exp x - 1)" by (rule one_le_power) simp
      then show ?thesis using f True unfolding fl_mag_def by (simp only: if_True) (simp add: True)
    next
      case z: False
      have "2 ^ 52 + fl_frac x \<le> 2 ^ 53" using f(2) by simp
      then show ?thesis using z unfolding fl_mag_def by (simp only: if_False) (rule mult_right_mono, simp_all)
    qed
    also have "(2::int) ^ 53 * 2 ^ nat (fl_exp x - 1) \<le> 2 ^ 53 * 2 ^ 2045"
      using e False by (intro mult_left_mono power_increasing) simp_all
    also have "(2::int) ^ 53 * 2 ^ 2045 = 2 ^ 52 * 2 ^ 2046" by (simp only: power_add [symmetric]) simp
    finally show ?thesis .
  qed
qed

lemma not_above_INFINITY: "\<not> fl_less INFINITY x"
proof
  assume l: "fl_less INFINITY x"
  have i: "fl_exp INFINITY = 2047" "fl_frac INFINITY = 0" "\<not> fl_neg INFINITY"
    by (simp_all add: INFINITY_def fl_exp_def fl_frac_def fl_neg_def)
  have "nat (2047 - 1) = 2046" by simp
  then have "fl_scaled INFINITY = 2 ^ 52 * 2 ^ 2046" using i by (simp only: fl_scaled_def fl_mag_def) simp
  moreover have "fl_scaled x \<le> fl_mag x" using fl_mag_le(2) [of x] l by (auto simp: fl_scaled_def fl_less_def)
  ultimately show False using l fl_mag_le(1) [of x] unfolding fl_less_def by linarith
qed

text \<open>What the walk has summed: distinct vertices in the order of timestamps, up to some point.\<close>

definition summed :: "libm \<Rightarrow> storage \<Rightarrow> float64 \<Rightarrow> storage \<times> float64 \<Rightarrow> bytes list \<Rightarrow> bool" where
  "summed lm st w s hs \<longleftrightarrow> fst s = st \<and> set hs \<subseteq> dom (st_txs st) \<and> sorted (map (time_of st) hs) \<and>
     sum_all lm w (map (\<lambda>h. the (st_txs st h)) hs) = Inr (snd s)"

lemma weight_walk:
  assumes "graph_ok forward st" and "st_txs st r = Some root" and "weights_total lm"
  shows "\<exists>acc hs. bfs_run forward fst (weight_body lm stop) True (st, weight (vertex_base root)) root = Some (Inr (st, acc)) \<and>
    distinct hs \<and> set hs \<subseteq> reached forward st True r \<and> summed lm st (weight (vertex_base root)) (st, acc) hs \<and>
    (set hs = reached forward st True r \<or> fl_less stop acc)"
proof -
  let ?w = "weight (vertex_base root)"
  define Q where "Q s \<longleftrightarrow> (\<exists>hs. distinct hs \<and> set hs \<subseteq> reached forward st True r \<and> summed lm st ?w s hs \<and>
    (set hs = reached forward st True r \<or> fl_less stop (snd s)))" for s
  define J where "J s hs \<longleftrightarrow> distinct hs \<and> summed lm st ?w s hs" for s hs
  have "\<exists>s'. bfs_run forward fst (weight_body lm stop) True (st, ?w) root = Some (Inr s') \<and> Q s'"
  proof (rule bfs.walk_all_rule [where J = J and st = st and r = r, OF assms(1,2)])
    fix s vs v
    assume j: "J s vs" and v: "st_txs st (vhash v) = Some v" and n: "vhash v \<notin> set vs"
      and sub: "set vs \<subseteq> reached forward st True r" and re: "vhash v \<in> reached forward st True r"
      and o: "True \<longrightarrow> (\<forall>h \<in> set vs. item_key forward (the (st_txs st h)) \<le> item_key forward v)"
    obtain acc where s: "s = (st, acc)" using j by (cases s) (auto simp: J_def summed_def)
    obtain acc' where a: "sum_weights lm acc (weight (vertex_base v)) = Inr acc'" using assms(3) by (auto simp: weights_total_def)
    have "summed lm st ?w (st, acc') (vs @ [vhash v])"
      using j v o a s by (auto simp: J_def summed_def sum_all_snoc sorted_append item_key_def forward_def time_of_def)
    then have "J (st, acc') (vs @ [vhash v])" "fl_less stop acc' \<Longrightarrow> Q (st, acc')"
      using j n sub re unfolding J_def Q_def by (auto intro!: exI [of _ "vs @ [vhash v]"])
    then show "\<exists>s'. weight_body lm stop s v = Some (Inr (Next s')) \<and> J s' (vs @ [vhash v]) \<or>
        weight_body lm stop s v = Some (Inr (Break s')) \<and> Q s'"
      using a s by (cases "fl_less stop acc'") (auto simp: weight_body_def)
  next
    show "J (st, ?w) []" by (simp add: J_def summed_def sum_all_def)
  qed (auto simp: J_def Q_def summed_def)
  then show ?thesis by (fastforce simp: Q_def summed_def)
qed

lemma update_weight_ok:
  assumes "graph_ok forward st" and "st_txs st h = Some v" and "weights_total lm"
  shows "\<exists>w. update_accumulated_weight lm stop st v = Some (Inr (upd_st h (\<lambda>m. m\<lparr>accumulated_weight := w\<rparr>) st))"
proof -
  have hash: "the_hash v = Inr h" using assms(1,2) by (simp add: graph_ok_def the_hash_def)
  have same: "upd_st h (\<lambda>m. m\<lparr>accumulated_weight := accumulated_weight (st_meta st h)\<rparr>) st = st" by (simp add: upd_st_def)
  obtain acc where "bfs_run forward fst (weight_body lm stop) True (st, weight (vertex_base v)) v = Some (Inr (st, acc))"
    using weight_walk [OF assms] by blast
  then show ?thesis using hash same [symmetric] by (auto simp: update_accumulated_weight_def)
qed

text \<open>
  C31: the accumulated weight of a transaction is its weight summed up with those of all that depend
  on it, directly or not, each counted once, in the order of their timestamps. The computation always
  ends; with a stop value it may leave out the newest ones, but then the weight is above that value.
  An addition of weights is taken to succeed. A recorded weight above the stop value is left as it is.
\<close>

theorem accumulated_weight_exact:
  assumes "graph_ok forward st" and "st_txs st h = Some v" and "weights_total lm"
    and "\<not> fl_less stop (accumulated_weight (st_meta st h))"
  shows "\<exists>w us. update_accumulated_weight lm stop st v = Some (Inr (upd_st h (\<lambda>m. m\<lparr>accumulated_weight := w\<rparr>) st)) \<and>
    distinct us \<and> sorted (map vtimestamp us) \<and> set us \<subseteq> reached_vertices forward st True h \<and>
    sum_all lm (weight (vertex_base v)) us = Inr w \<and>
    (set us = reached_vertices forward st True h \<or> fl_less stop w) \<and>
    (stop = INFINITY \<longrightarrow> set us = reached_vertices forward st True h)"
proof -
  have hash: "the_hash v = Inr h" using assms(1,2) by (simp add: graph_ok_def the_hash_def)
  obtain w hs where w: "bfs_run forward fst (weight_body lm stop) True (st, weight (vertex_base v)) v = Some (Inr (st, w))"
    "distinct hs" "set hs \<subseteq> reached forward st True h" "summed lm st (weight (vertex_base v)) (st, w) hs"
    "set hs = reached forward st True h \<or> fl_less stop w"
    using weight_walk [OF assms(1-3)] by blast
  define us where "us = map (\<lambda>k. the (st_txs st k)) hs"
  have stored: "st_txs st k = Some (the (st_txs st k))" if "k \<in> set hs" for k
    using w(4) that by (auto simp: summed_def)
  have "inj_on (\<lambda>k. the (st_txs st k)) (set hs)"
    using stored assms(1) unfolding inj_on_def graph_ok_def by (metis option.inject)
  then have d: "distinct us" using w(2) by (simp add: us_def distinct_map)
  have s: "sorted (map vtimestamp us)" "sum_all lm (weight (vertex_base v)) us = Inr w"
    using w(4) by (auto simp: summed_def us_def time_of_def [abs_def] comp_def)
  have sub: "set us \<subseteq> reached_vertices forward st True h"
    using w(3) stored by (auto simp: us_def reached_vertices_def)
  have all: "set us = reached_vertices forward st True h" if "set hs = reached forward st True h"
    using stored that by (auto simp: us_def reached_vertices_def image_iff) (metis option.sel)
  have "update_accumulated_weight lm stop st v = Some (Inr (upd_st h (\<lambda>m. m\<lparr>accumulated_weight := w\<rparr>) st))"
    using hash w(1) assms(4) by (simp add: update_accumulated_weight_def)
  then show ?thesis using d s sub all w(5) not_above_INFINITY by blast
qed

subsection \<open>The graph and the indices when metadata changes\<close>

lemma same_graph_upd_st:
  assumes "children (f (st_meta st h)) = children (st_meta st h)" and "spent_outputs (f (st_meta st h)) = spent_outputs (st_meta st h)"
  shows "same_graph st (upd_st h f st)"
  using assms by (simp add: same_graph_def)

lemma same_graph_dag_ok: "same_graph st st' \<Longrightarrow> dag_ok st' \<longleftrightarrow> dag_ok st"
  by (simp add: same_graph_def dag_ok_def)

lemma same_graph_im_inv:
  assumes "same_graph st st'"
  shows "im_inv libs st' K im \<longleftrightarrow> im_inv libs st K im"
proof -
  have t: "time_of st' = time_of st" and c: "\<And>h. children (st_meta st' h) = children (st_meta st h)"
    using assms by (simp_all add: same_graph_def time_of_def fun_eq_iff)
  have "spec_map st' K = spec_map st K"
    by (simp add: fun_eq_iff spec_map_def spec_interval_def first_child_def child_times_def t c)
  then show ?thesis by (simp add: im_inv_def tips_inv_def t)
qed

lemma nbs_same_graph: "same_graph st st' \<Longrightarrow> nbs cfg st' h = nbs cfg st h"
  using neighbors_same_graph [of st st'] by (simp only: nbs_def) (simp add: same_graph_def)

lemma same_graph_graph_ok: "same_graph st st' \<Longrightarrow> graph_ok cfg st' \<longleftrightarrow> graph_ok cfg st"
  using nbs_same_graph [of st st' cfg] by (simp add: graph_ok_def same_graph_def)

text \<open>The executed transactions, and that the index of transactions holds them.\<close>

definition exec_txs :: "storage \<Rightarrow> bytes set" where
  "exec_txs st = {h. \<exists>v. st_txs st h = Some v \<and> \<not> is_block v \<and> voided_by (st_meta st h) = {}}"

definition tx_index_ok :: "('t, 'l) index_libs \<Rightarrow> ('t, 'l) node \<Rightarrow> bool" where
  "tx_index_ok libs nd \<longleftrightarrow> with_index (nd_cache nd) \<and> im_inv libs (nd_st nd) (exec_txs (nd_st nd)) (tx_index (nd_cache nd))"

text \<open>A transaction that has just been voided is taken out of the index.\<close>

lemma void_in_index:
  assumes "libs_ok libs" and "dag_ok st" and "tx_index_ok libs nd" and "same_graph (nd_st nd) st" and "tokens_index (nd_cache nd) = None"
    and "st_txs st h = Some v" and "\<not> is_block v" and "voided_by (st_meta st h) \<noteq> {}"
    and "\<forall>k. k \<noteq> h \<longrightarrow> voided_by (st_meta st k) = voided_by (meta_of nd k)"
  shows "\<exists>c'. del_from_cache libs st True (nd_cache nd) v = Inr c' \<and>
    c' = (nd_cache nd)\<lparr>tx_index := tx_index c', cache_tx_count := cache_tx_count (nd_cache nd) - 1\<rparr> \<and>
    im_inv libs st (exec_txs st) (tx_index c')"
proof -
  let ?K = "exec_txs (nd_st nd)"
  have txs: "st_txs st = st_txs (nd_st nd)" using assms(4) by (simp add: same_graph_def)
  have K: "?K - {h} = exec_txs st" using assms(8,9) by (auto simp: exec_txs_def txs)
  have i: "with_index (nd_cache nd)" "im_inv libs st ?K (tx_index (nd_cache nd))"
    using assms(3) by (simp_all add: tx_index_ok_def same_graph_im_inv [OF assms(4)])
  have "index_scope st (is_block v) (?K - {h}) v"
    unfolding K using assms(7) by (auto simp: index_scope_def exec_txs_def)
  then obtain im where im: "im_del_tx libs st True (tx_index (nd_cache nd)) v = Inr im" "im_inv libs st (?K - {h}) im"
    using im_del [OF assms(1,2) i(2) assms(6)] by blast
  then show ?thesis using i(1) assms(5,7) K by (simp add: del_from_cache_def on_option_def Let_def)
qed

subsection \<open>Voiding a transaction and its descendants\<close>

definition newly_voided :: "bytes \<Rightarrow> bytes set \<Rightarrow> storage \<Rightarrow> bytes \<Rightarrow> bytes set" where
  "newly_voided vh D st d = voided_by (st_meta st d) \<union>
     (if d \<in> D then insert vh (if conflict_with (st_meta st d) \<noteq> [] then {d} else {}) else {})"

text \<open>The conflicts that the walk asks to be looked at again: those of executed descendants.\<close>

definition reopened :: "bytes \<Rightarrow> bytes set \<Rightarrow> storage \<Rightarrow> bytes set" where
  "reopened h D st = (\<Union>d \<in> {d \<in> D. d \<noteq> h \<and> voided_by (st_meta st d) = {}}. set (conflict_with (st_meta st d)))"

text \<open>The state of the walk after it has been to \<open>vs\<close>.\<close>

definition voiding ::
  "('t, 'l) index_libs \<Rightarrow> bytes \<Rightarrow> bytes \<Rightarrow> ('t, 'l) node \<Rightarrow> bytes list \<Rightarrow> ('t, 'l) node \<times> vertex list \<Rightarrow> bool" where
  "voiding libs h vh nd vs s \<longleftrightarrow> same_graph (nd_st nd) (nd_st (fst s)) \<and> tx_index_ok libs (fst s) \<and>
     (\<forall>d. voided_by (meta_of (fst s) d) = newly_voided vh (set vs) (nd_st nd) d) \<and>
     (\<forall>d. conflict_with (meta_of (fst s) d) = conflict_with (meta_of nd d)) \<and>
     nd_cache (fst s) = (nd_cache nd)\<lparr>tx_index := tx_index (nd_cache (fst s)),
       cache_tx_count := cache_tx_count (nd_cache nd) - int (length vs)\<rparr> \<and>
     vhash ` set (snd s) = reopened h (set vs) (nd_st nd)"

definition conflicts_stored :: "storage \<Rightarrow> bool" where
  "conflicts_stored st \<longleftrightarrow> (\<forall>d. set (conflict_with (st_meta st d)) \<subseteq> dom (st_txs st))"

lemma load_all:
  assumes "graph_ok cfg st" and "set hs \<subseteq> dom (st_txs st)"
  shows "\<exists>vs. mapE (get_transaction st) hs = Inr vs \<and> vhash ` set vs = set hs"
  using assms(2)
proof (induction hs)
  case (Cons h hs)
  then obtain v vs where "st_txs st h = Some v" "mapE (get_transaction st) hs = Inr vs" "vhash ` set vs = set hs" by auto
  moreover have "vhash v = h" "get_transaction st h = Inr v"
    using assms(1) calculation(1) by (simp_all add: graph_ok_def get_transaction_def)
  ultimately show ?case by auto
qed simp

lemma conflicts_loaded:
  assumes "graph_ok cfg st" and "set (conflict_with m) \<subseteq> dom (st_txs st)"
  shows "\<exists>cs. (if P \<and> conflict_with m \<noteq> [] \<and> Q then mapE (get_transaction st) (conflict_with m) else Inr []) = Inr cs \<and>
    vhash ` set cs = (if P \<and> Q then set (conflict_with m) else {})"
  using load_all [OF assms] by (cases "P \<and> conflict_with m \<noteq> [] \<and> Q") auto

lemma reweighed:
  assumes "graph_ok forward (nd_st nd)" and "st_txs (nd_st nd) d = Some v" and "weights_total lm"
  shows "\<exists>st. (if c then bindR (update_accumulated_weight lm INFINITY (nd_st nd) v) (\<lambda>st. Some (Inr (nd\<lparr>nd_st := st\<rparr>)))
      else Some (Inr nd)) = Some (Inr (nd\<lparr>nd_st := st\<rparr>)) \<and> same_graph (nd_st nd) st \<and>
    (\<forall>k. voided_by (st_meta st k) = voided_by (meta_of nd k) \<and> conflict_with (st_meta st k) = conflict_with (meta_of nd k))"
proof (cases c)
  case True
  obtain w where "update_accumulated_weight lm INFINITY (nd_st nd) v = Some (Inr (upd_st d (\<lambda>m. m\<lparr>accumulated_weight := w\<rparr>) (nd_st nd)))"
    using update_weight_ok [OF assms] by blast
  then show ?thesis using True
    by (intro exI [of _ "upd_st d (\<lambda>m. m\<lparr>accumulated_weight := w\<rparr>) (nd_st nd)"]) (simp add: same_graph_upd_st)
qed (auto intro!: exI [of _ "nd_st nd"])

lemma reopened_snoc:
  "d \<notin> set vs \<Longrightarrow> reopened h (set (vs @ [d])) st =
    reopened h (set vs) st \<union> (if d \<noteq> h \<and> voided_by (st_meta st d) = {} then set (conflict_with (st_meta st d)) else {})"
  by (auto simp: reopened_def)

lemma add_voided_step:
  assumes "libs_ok (ce_libs ce)" and "dag_ok (nd_st nd)" and "graph_ok forward (nd_st nd)" and "weights_total (env_libm (ce_env ce))"
    and "conflicts_stored (nd_st nd)" and "tokens_index (nd_cache nd) = None"
    and "voiding (ce_libs ce) h vh nd vs (nd1, cl)" and "st_txs (nd_st nd) d = Some v" and "d \<notin> set vs" and "\<not> is_block v"
    and "vh \<notin> voided_by (meta_of nd d)"
  shows "\<exists>s'. add_voided_body ce rec h vh (nd1, cl) v = Some (Inr (Next s')) \<and> voiding (ce_libs ce) h vh nd (vs @ [d]) s'"
proof -
  have sg: "same_graph (nd_st nd) (nd_st nd1)" and ix: "tx_index_ok (ce_libs ce) nd1"
    and vo: "\<And>k. voided_by (meta_of nd1 k) = newly_voided vh (set vs) (nd_st nd) k"
    and co: "\<And>k. conflict_with (meta_of nd1 k) = conflict_with (meta_of nd k)"
    and ca: "nd_cache nd1 = (nd_cache nd)\<lparr>tx_index := tx_index (nd_cache nd1), cache_tx_count := cache_tx_count (nd_cache nd) - int (length vs)\<rparr>"
    and cl: "vhash ` set cl = reopened h (set vs) (nd_st nd)"
    using assms(7) by (simp_all add: voiding_def)
  have hash: "the_hash v = Inr d" using assms(2,8) by (simp add: dag_ok_def the_hash_def)
  have txs: "st_txs (nd_st nd1) = st_txs (nd_st nd)" using sg by (simp add: same_graph_def)
  have d1: "voided_by (meta_of nd1 d) = voided_by (meta_of nd d)" using vo assms(9) by (simp add: newly_voided_def)
  define m where "m = meta_of nd1 d"
  define nd2 where "nd2 = upd_meta d (\<lambda>m. m\<lparr>voided_by := insert vh (voided_by m) \<union> (if conflict_with m \<noteq> [] then {d} else {})\<rparr>) nd1"
  have g1: "graph_ok forward (nd_st nd1)" using assms(3) by (simp add: same_graph_graph_ok [OF sg])
  have sg2: "same_graph (nd_st nd1) (nd_st nd2)" by (simp add: nd2_def upd_meta_def same_graph_upd_st)
  obtain cs where cs: "(if d \<noteq> h \<and> conflict_with m \<noteq> [] \<and> voided_by m = {} then mapE (get_transaction (nd_st nd1)) (conflict_with m) else Inr []) = Inr cs"
    "vhash ` set cs = (if d \<noteq> h \<and> voided_by m = {} then set (conflict_with m) else {})"
    using conflicts_loaded [OF g1, of m "d \<noteq> h" "voided_by m = {}"] assms(5) co by (auto simp: conflicts_stored_def txs m_def)
  have "graph_ok forward (nd_st nd2)" "st_txs (nd_st nd2) d = Some v"
    using g1 assms(8) sg2 txs by (simp_all add: same_graph_graph_ok [OF sg2] same_graph_def)
  from reweighed [OF this assms(4), of "conflict_with m \<noteq> []"] obtain st3 where
    st3: "(if conflict_with m \<noteq> []
        then bindR (update_accumulated_weight (env_libm (ce_env ce)) INFINITY (nd_st nd2) v) (\<lambda>st. Some (Inr (nd2\<lparr>nd_st := st\<rparr>)))
        else Some (Inr nd2)) = Some (Inr (nd2\<lparr>nd_st := st3\<rparr>))"
    "same_graph (nd_st nd2) st3" "\<And>k. voided_by (st_meta st3 k) = voided_by (meta_of nd2 k)"
    "\<And>k. conflict_with (st_meta st3 k) = conflict_with (meta_of nd2 k)" by blast
  have sg3: "same_graph (nd_st nd1) st3" "same_graph (nd_st nd) st3"
    using same_graph_trans [OF sg2 st3(2)] same_graph_trans [OF sg] by blast+
  have vo3: "voided_by (st_meta st3 k) = newly_voided vh (set (vs @ [d])) (nd_st nd) k"
    and co3: "conflict_with (st_meta st3 k) = conflict_with (meta_of nd k)" for k
    using st3(3,4) vo co d1 by (auto simp: nd2_def upd_meta_def newly_voided_def)
  have dag3: "dag_ok st3" "st_txs st3 d = Some v" using assms(2,8) same_graph_dag_ok [OF sg3(2)] sg3(2) by (simp_all add: same_graph_def)
  have "voided_by (st_meta st3 d) \<noteq> {}" "\<forall>k. k \<noteq> d \<longrightarrow> voided_by (st_meta st3 k) = voided_by (meta_of nd1 k)"
    unfolding vo3 vo by (auto simp: newly_voided_def)
  moreover have "tokens_index (nd_cache nd1) = None" using assms(6) by (subst ca) simp
  ultimately obtain c' where c': "del_from_cache (ce_libs ce) st3 True (nd_cache nd1) v = Inr c'"
    "c' = (nd_cache nd1)\<lparr>tx_index := tx_index c', cache_tx_count := cache_tx_count (nd_cache nd1) - 1\<rparr>"
    "im_inv (ce_libs ce) st3 (exec_txs st3) (tx_index c')"
    using void_in_index [OF assms(1) dag3(1) ix sg3(1) _ dag3(2) assms(10)] by blast
  have n: "cache_tx_count (nd_cache nd1) - 1 = cache_tx_count (nd_cache nd) - int (length (vs @ [d]))" by (subst ca) simp
  have e: "(nd_cache nd1)\<lparr>tx_index := t, cache_tx_count := n\<rparr> = (nd_cache nd)\<lparr>tx_index := t, cache_tx_count := n\<rparr>" for t n
    by (subst ca) simp
  have cc: "c' = (nd_cache nd)\<lparr>tx_index := tx_index c', cache_tx_count := cache_tx_count (nd_cache nd) - int (length (vs @ [d]))\<rparr>"
    using c'(2) unfolding e n .
  have wi: "with_index c'" using ix by (subst c'(2)) (simp add: tx_index_ok_def)
  have "guardE (vh \<notin> voided_by m) (PyE AssertionError) = Inr ()" "nd_cache nd2 = nd_cache nd1"
    using assms(11) d1 by (simp_all add: m_def nd2_def upd_meta_def)
  then have "add_voided_body ce rec h vh (nd1, cl) v = Some (Inr (Next (nd2\<lparr>nd_st := st3, nd_cache := c'\<rparr>, cl @ cs)))"
    unfolding add_voided_body_def
    by (simp only: prod.case hash bindR_simps assms(10) if_False m_def [symmetric] Let_def cs(1) nd2_def [symmetric] st3(1))
      (simp add: c'(1))
  moreover have "voiding (ce_libs ce) h vh nd (vs @ [d]) (nd2\<lparr>nd_st := st3, nd_cache := c'\<rparr>, cl @ cs)"
    unfolding voiding_def fst_conv snd_conv set_append image_Un cl cs(2) reopened_snoc [OF assms(9), unfolded set_append]
    using sg3(2) wi c'(3) cc vo3 co3 d1 co by (simp add: tx_index_ok_def m_def)
  ultimately show ?thesis by blast
qed

text \<open>What a node must be for the voiding to go through.\<close>

definition voidable :: "('t, 'l) consensus_env \<Rightarrow> ('t, 'l) node \<Rightarrow> bool" where
  "voidable ce nd \<longleftrightarrow> libs_ok (ce_libs ce) \<and> weights_total (env_libm (ce_env ce)) \<and> dag_ok (nd_st nd) \<and>
     graph_ok forward (nd_st nd) \<and> conflicts_stored (nd_st nd) \<and> tx_index_ok (ce_libs ce) nd \<and> tokens_index (nd_cache nd) = None"

definition descendants :: "storage \<Rightarrow> bytes \<Rightarrow> bytes set" where
  "descendants st h = reached forward st False h"

definition txs_without :: "bytes \<Rightarrow> storage \<Rightarrow> bytes set \<Rightarrow> bool" where
  "txs_without vh st D \<longleftrightarrow> (\<forall>d \<in> D. \<exists>u. st_txs st d = Some u \<and> \<not> is_block u \<and> vh \<notin> voided_by (st_meta st d))"

lemma add_voided_walk:
  assumes "voidable ce nd" and "st_txs (nd_st nd) h = Some v" and "txs_without vh (nd_st nd) (descendants (nd_st nd) h)"
  shows "\<exists>s vs. bfs_run forward (nd_st \<circ> fst) (add_voided_body ce rec h vh) False (nd, []) v = Some (Inr s) \<and>
    voiding (ce_libs ce) h vh nd vs s \<and> distinct vs \<and> set vs = descendants (nd_st nd) h"
proof -
  have c: "libs_ok (ce_libs ce)" "dag_ok (nd_st nd)" "graph_ok forward (nd_st nd)" "weights_total (env_libm (ce_env ce))"
    "conflicts_stored (nd_st nd)" "tokens_index (nd_cache nd) = None" "tx_index_ok (ce_libs ce) nd"
    using assms(1) by (simp_all add: voidable_def)
  define Q where "Q s \<longleftrightarrow> (\<exists>vs. voiding (ce_libs ce) h vh nd vs s \<and> distinct vs \<and> set vs = descendants (nd_st nd) h)" for s
  have "\<exists>s'. bfs_run forward (nd_st \<circ> fst) (add_voided_body ce rec h vh) False (nd, []) v = Some (Inr s') \<and> Q s'"
  proof (rule bfs.walk_all_rule [where J = "\<lambda>s vs. voiding (ce_libs ce) h vh nd vs s" and st = "nd_st nd" and r = h, OF c(3) assms(2)])
    fix s vs u
    assume j: "voiding (ce_libs ce) h vh nd vs s" and u: "st_txs (nd_st nd) (vhash u) = Some u" "vhash u \<notin> set vs"
      and re: "vhash u \<in> reached forward (nd_st nd) False h"
    have "\<not> is_block u" "vh \<notin> voided_by (meta_of nd (vhash u))"
      using assms(3) re u(1) by (auto simp: txs_without_def descendants_def)
    then show "\<exists>s'. add_voided_body ce rec h vh s u = Some (Inr (Next s')) \<and> voiding (ce_libs ce) h vh nd (vs @ [vhash u]) s' \<or>
        add_voided_body ce rec h vh s u = Some (Inr (Break s')) \<and> Q s'"
      using add_voided_step [OF c(1-6), of h vh vs "fst s" "snd s" "vhash u" u rec] j u by auto
  next
    show "voiding (ce_libs ce) h vh nd [] (nd, [])" using c(7) by (simp add: voiding_def newly_voided_def reopened_def)
  next
    fix s vs
    assume "voiding (ce_libs ce) h vh nd vs s" "distinct vs" "set vs = reached forward (nd_st nd) False h"
    then show "Q s" unfolding Q_def descendants_def by blast
  qed (simp_all add: voiding_def)
  then show ?thesis by (auto simp: Q_def)
qed

lemma exec_after_void:
  assumes "finite (dom (st_txs st))" and "st_txs st' = st_txs st" and "\<forall>d. voided_by (st_meta st' d) = newly_voided vh D st d"
    and "txs_without vh st D"
  shows "int (card (exec_txs st)) - int (card D) = int (card (exec_txs st')) - int (card {d \<in> D. voided_by (st_meta st d) \<noteq> {}})"
proof -
  have "exec_txs st \<subseteq> dom (st_txs st)" "D \<subseteq> dom (st_txs st)" using assms(4) by (auto simp: exec_txs_def txs_without_def)
  then have f: "finite (exec_txs st)" "finite D" using assms(1) finite_subset by blast+
  have e: "exec_txs st' = exec_txs st - {d \<in> D. voided_by (st_meta st d) = {}}"
    using assms(3) by (auto simp: exec_txs_def assms(2) newly_voided_def)
  have "{d \<in> D. voided_by (st_meta st d) = {}} \<subseteq> exec_txs st" using assms(4) by (auto simp: exec_txs_def txs_without_def)
  then have "int (card (exec_txs st')) = int (card (exec_txs st)) - int (card {d \<in> D. voided_by (st_meta st d) = {}})"
    unfolding e using f by (simp add: card_Diff_subset card_mono of_nat_diff)
  moreover have "D = {d \<in> D. voided_by (st_meta st d) = {}} \<union> {d \<in> D. voided_by (st_meta st d) \<noteq> {}}" by auto
  then have "card D = card {d \<in> D. voided_by (st_meta st d) = {}} + card {d \<in> D. voided_by (st_meta st d) \<noteq> {}}"
    using f(2) by (metis (no_types, lifting) card_Un_disjoint disjoint_iff finite_Un mem_Collect_eq)
  ultimately show ?thesis by simp
qed

text \<open>
  C28: voiding a transaction marks it and everything that depends on it, and nothing else, as voided by
  the given hash, the ones with conflicts also by themselves. The walk ends, the index of transactions
  holds exactly the executed ones afterwards, and the conflicts of the transactions that were executed
  before are looked at again. The counter of transactions, however, falls short of the index by
  the number of dependents that had been voided already. Everything that depends on the transaction is
  a transaction not yet voided by the hash.
\<close>

theorem add_voided_by_exact:
  assumes "voidable ce nd" and "st_txs (nd_st nd) h = Some v" and "txs_without vh (nd_st nd) (descendants (nd_st nd) h)"
    and "cache_tx_count (nd_cache nd) = int (card (exec_txs (nd_st nd)))"
  shows "\<exists>nd1 check_list. tx_add_voided_by ce rec nd v vh = bindR (check_all rec nd1 check_list) (\<lambda>nd2. Some (Inr (True, nd2))) \<and>
    same_graph (nd_st nd) (nd_st nd1) \<and>
    (\<forall>d. voided_by (meta_of nd1 d) = newly_voided vh (descendants (nd_st nd) h) (nd_st nd) d) \<and>
    tx_index_ok (ce_libs ce) nd1 \<and> vhash ` set check_list = reopened h (descendants (nd_st nd) h) (nd_st nd) \<and>
    get_tx_count (nd_cache nd1) = Inr (int (card (exec_txs (nd_st nd1))) -
      int (card {d \<in> descendants (nd_st nd) h. voided_by (meta_of nd d) \<noteq> {}}))"
proof -
  obtain nd1 cl vs where w: "bfs_run forward (nd_st \<circ> fst) (add_voided_body ce rec h vh) False (nd, []) v = Some (Inr (nd1, cl))"
    "voiding (ce_libs ce) h vh nd vs (nd1, cl)" "distinct vs" "set vs = descendants (nd_st nd) h"
    using add_voided_walk [OF assms(1-3), of rec] by auto
  have i: "same_graph (nd_st nd) (nd_st nd1)" "\<forall>d. voided_by (meta_of nd1 d) = newly_voided vh (descendants (nd_st nd) h) (nd_st nd) d"
    "tx_index_ok (ce_libs ce) nd1" "vhash ` set cl = reopened h (descendants (nd_st nd) h) (nd_st nd)"
    and ca: "nd_cache nd1 = (nd_cache nd)\<lparr>tx_index := tx_index (nd_cache nd1), cache_tx_count := cache_tx_count (nd_cache nd) - int (length vs)\<rparr>"
    using w(2) by (simp_all add: voiding_def w(4))
  have "cache_tx_count (nd_cache nd1) = int (card (exec_txs (nd_st nd))) - int (card (descendants (nd_st nd) h))"
    using distinct_card [OF w(3)] assms(4) w(4) by (subst ca) simp
  also have "\<dots> = int (card (exec_txs (nd_st nd1))) - int (card {d \<in> descendants (nd_st nd) h. voided_by (meta_of nd d) \<noteq> {}})"
    using assms(1,3) i(1,2) by (intro exec_after_void) (simp_all add: voidable_def graph_ok_def same_graph_def)
  finally have "get_tx_count (nd_cache nd1) = Inr (int (card (exec_txs (nd_st nd1))) -
      int (card {d \<in> descendants (nd_st nd) h. voided_by (meta_of nd d) \<noteq> {}}))"
    using i(3) by (simp add: get_tx_count_def tx_index_ok_def)
  moreover have "the_hash v = Inr h" "vh \<notin> voided_by (meta_of nd h)"
    using assms by (auto simp: voidable_def dag_ok_def the_hash_def txs_without_def descendants_def reached_def)
  then have "tx_add_voided_by ce rec nd v vh = bindR (check_all rec nd1 cl) (\<lambda>nd2. Some (Inr (True, nd2)))"
    using w(1) by (simp add: tx_add_voided_by_def)
  ultimately show ?thesis using i by blast
qed

subsection \<open>An example\<close>

text \<open>Two transactions spend the same output; the second is voided.\<close>

definition duel_storage :: storage where
  "duel_storage = \<lparr>st_txs = [[2] \<mapsto> spender 2 20 [([1], 0)], [3] \<mapsto> spender 3 30 [([1], 0)]],
     st_meta = (\<lambda>h. (new_meta (Some h) 0 0)\<lparr>conflict_with := (if h = [2] then [[3]] else if h = [3] then [[2]] else []),
       voided_by := (if h = [3] then {[3]} else {})\<rparr>), st_best_tips = None\<rparr>"

definition duel_index :: "bytes \<Rightarrow> (interval list, index_element list) indexes_manager" where
  "duel_index h = \<lparr>im_tips = \<lparr>tips_tree = [\<lparr>iv_begin = time_of duel_storage h, iv_end = None, iv_data = h\<rparr>],
      tx_last_interval = [(h, \<lparr>iv_begin = time_of duel_storage h, iv_end = None, iv_data = h\<rparr>)]\<rparr>,
     im_txs = [(time_of duel_storage h, h)]\<rparr>"

definition duel_node :: "(interval list, index_element list) node" where
  "duel_node = \<lparr>nd_st = duel_storage, nd_cache = sample_cache\<lparr>tx_index := duel_index [2], all_index := duel_index [3]\<rparr>\<rparr>"

definition duel_env :: "(interval list, index_element list) consensus_env" where
  "duel_env = \<lparr>ce_env = sample_env, ce_libs = list_libs, ce_order = (\<lambda>_. [])\<rparr>"

lemma duel_storage_txs:
  "st_txs duel_storage h = (if h = [3] then Some (spender 3 30 [([1], 0)]) else if h = [2] then Some (spender 2 20 [([1], 0)]) else None)"
  by (simp add: duel_storage_def)

lemma duel_storage_meta:
  "children (st_meta duel_storage h) = []" "spent_outputs (st_meta duel_storage h) = []"
  "voided_by (st_meta duel_storage h) = (if h = [3] then {[3]} else {})"
  "conflict_with (st_meta duel_storage h) = (if h = [2] then [[3]] else if h = [3] then [[2]] else [])"
  by (simp_all add: duel_storage_def new_meta_def)

lemma spender_simps: "tx_hash (vertex_base (spender b t ops)) = Some [b]" "vtimestamp (spender b t ops) = t"
    "parents (vertex_base (spender b t ops)) = []" "\<not> is_block (spender b t ops)"
  by (simp_all add: spender_def base_transaction.defs)

lemma duel_graph: "graph_ok forward duel_storage" "nbs forward duel_storage h = []"
proof -
  show n: "nbs forward duel_storage h = []" for h
    by (auto simp: nbs_def neighbors_def forward_def duel_storage_meta the_hash_def of_option_def split: option.splits sum.splits)
  have "dom (st_txs duel_storage) = {[2], [3]}" by (auto simp: duel_storage_def)
  then show "graph_ok forward duel_storage"
    using n by (auto simp: graph_ok_def duel_storage_txs spender_simps split: if_splits)
qed

lemma duel_descendants: "descendants duel_storage h = {h}"
proof -
  have "edges forward duel_storage = {}" by (simp add: edges_def duel_graph(2))
  then show ?thesis by (simp add: descendants_def reached_def)
qed

lemma duel_index_inv: "h \<in> {[2], [3]} \<Longrightarrow> im_inv list_libs duel_storage {h} (duel_index h)"
  by (auto simp: im_inv_def duel_index_def list_libs_def txs_inv_def tips_inv_def tips_content_def spec_map_def spec_interval_def
      first_child_def child_times_def list_tree_def list_skl_def ran_def duel_storage_meta)

lemma duel_exec: "exec_txs duel_storage = {[2]}"
  by (auto simp: exec_txs_def duel_storage_txs duel_storage_meta spender_simps split: if_splits)

lemma duel_dag: "dag_ok duel_storage"
  by (auto simp: dag_ok_def duel_storage_txs duel_storage_meta spender_simps split: if_splits)

lemma sample_weights_total: "weights_total (env_libm sample_env)"
  by (simp add: weights_total_def sum_weights_def aux_calc_weight_def sample_env_def libm.defs Let_def)

lemma duel_voidable: "voidable duel_env duel_node"
  by (auto simp: voidable_def duel_env_def duel_node_def list_libs_ok sample_weights_total duel_dag duel_graph conflicts_stored_def
      duel_storage_meta duel_storage_txs tx_index_ok_def duel_exec duel_index_inv sample_cache_def split: if_splits)

theorem accumulated_weight_exact_witness:
  "\<exists>w. update_accumulated_weight (env_libm sample_env) INFINITY duel_storage (spender 2 20 [([1], 0)]) =
      Some (Inr (upd_st [2] (\<lambda>m. m\<lparr>accumulated_weight := w\<rparr>) duel_storage))"
  using accumulated_weight_exact [OF duel_graph(1) _ sample_weights_total not_above_INFINITY, of "[2]" "spender 2 20 [([1], 0)]"]
  by (auto simp: duel_storage_txs)

theorem add_voided_by_exact_witness:
  "\<exists>nd1. tx_add_voided_by duel_env (run_calls duel_env 0) duel_node (spender 2 20 [([1], 0)]) [2] = Some (Inr (True, nd1)) \<and>
    voided_by (meta_of nd1 [2]) = {[2]} \<and> get_tx_count (nd_cache nd1) = Inr (int (card (exec_txs (nd_st nd1))))"
proof -
  have "nd_st duel_node = duel_storage" "cache_tx_count (nd_cache duel_node) = 1" by (simp_all add: duel_node_def sample_cache_def)
  then obtain nd1 cl where "tx_add_voided_by duel_env (run_calls duel_env 0) duel_node (spender 2 20 [([1], 0)]) [2] =
      bindR (check_all (run_calls duel_env 0) nd1 cl) (\<lambda>nd2. Some (Inr (True, nd2)))"
    "voided_by (meta_of nd1 [2]) = {[2]}" "vhash ` set cl = {}" "get_tx_count (nd_cache nd1) = Inr (int (card (exec_txs (nd_st nd1))))"
    using add_voided_by_exact [OF duel_voidable, of "[2]" "spender 2 20 [([1], 0)]" "[2]" "run_calls duel_env 0"]
    by (auto simp: duel_descendants duel_exec txs_without_def duel_storage_txs duel_storage_meta spender_simps newly_voided_def reopened_def)
  then show ?thesis by (simp add: check_all_def)
qed

end
