(* ===== verification/Unvoiding_Rules.thy ===== *)
theory Unvoiding_Rules
  imports Voiding_Rules
begin

text \<open>
  The way back: what taking a hash out of \<^verbatim>\<open>voided_by\<close> does to everything that depends on a
  transaction, and what this means for conflicts.
\<close>

subsection \<open>Taking a hash back\<close>

text \<open>The indices hold the blocks \<open>B\<close>, the executed transactions and the vertices \<open>A\<close>; there are no optional ones.\<close>

definition indexed_node :: "('t, 'l) index_libs \<Rightarrow> bytes set \<Rightarrow> bytes set \<Rightarrow> ('t, 'l) node \<Rightarrow> bool" where
  "indexed_node libs B A nd \<longleftrightarrow> cache_inv libs (nd_st nd) B (exec_txs (nd_st nd)) A (nd_cache nd) \<and>
     wallet_index (nd_cache nd) = None \<and> tokens_index (nd_cache nd) = None"

lemma same_graph_cache_inv: "same_graph st st' \<Longrightarrow> cache_inv libs st' B T A c \<longleftrightarrow> cache_inv libs st B T A c"
  by (simp add: cache_inv_def same_graph_im_inv)

lemma exec_txs_stored: "graph_ok cfg st \<Longrightarrow> stored st (exec_txs st)"
  by (auto simp: stored_def exec_txs_def graph_ok_def intro: rev_finite_subset)

definition unvoiding ::
  "('t, 'l) index_libs \<Rightarrow> bytes set \<Rightarrow> bytes set \<Rightarrow> bytes \<Rightarrow> ('t, 'l) node \<Rightarrow> bytes list \<Rightarrow> ('t, 'l) node \<times> vertex list \<Rightarrow> bool" where
  "unvoiding libs B A vh nd vs s \<longleftrightarrow> st_txs (nd_st (fst s)) = st_txs (nd_st nd) \<and> indexed_node libs B A (fst s) \<and>
     (\<forall>d. meta_of (fst s) d = (meta_of nd d)\<lparr>voided_by := voided_by (meta_of nd d) - (if d \<in> set vs then {vh} else {})\<rparr>) \<and>
     vhash ` set (snd s) = {d \<in> set vs. voided_by (meta_of nd d) - {vh} = {d}} \<and> filter (\<lambda>x. \<not> is_block x) (snd s) = snd s"

lemma unvoiding_same_graph: "unvoiding libs B A vh nd vs s \<Longrightarrow> same_graph (nd_st nd) (nd_st (fst s))"
  by (simp add: unvoiding_def same_graph_def)

text \<open>A transaction of which the last hash has been taken back is put in the indices again.\<close>

lemma unvoid_in_index:
  assumes "libs_ok libs" and "dag_ok st" and "graph_ok forward st" and "indexed_node libs B A nd" and "same_graph (nd_st nd) st"
    and "st_txs st d = Some v" and "\<not> is_block v" and "voided_by (st_meta st d) = {}" and "d \<in> A"
    and "\<forall>k. k \<noteq> d \<longrightarrow> voided_by (st_meta st k) = voided_by (meta_of nd k)" and "stored st B" and "stored st A"
  shows "\<exists>c'. add_to_cache env libs st (nd_cache nd) v = Inr c' \<and> indexed_node libs B A \<lparr>nd_st = st, nd_cache = c'\<rparr>"
proof -
  let ?T = "exec_txs (nd_st nd)"
  have ci: "cache_inv libs st B ?T A (nd_cache nd)" using assms(4) by (simp add: indexed_node_def same_graph_cache_inv [OF assms(5)])
  have txs: "st_txs st = st_txs (nd_st nd)" using assms(5) by (simp add: same_graph_def)
  have e: "insert d ?T = exec_txs st"
  proof (rule set_eqI)
    fix k
    show "k \<in> insert d ?T \<longleftrightarrow> k \<in> exec_txs st" using assms(6-8,10) by (cases "k = d") (simp_all add: exec_txs_def txs)
  qed
  have "stored st ?T" using exec_txs_stored [OF assms(3)] unfolding e [symmetric] by (simp add: stored_def)
  moreover have "on_option f None = Inr None" for f :: "'x \<Rightarrow> 'x result" by (simp add: on_option_def)
  ultimately show ?thesis
    using add_to_cache_inv [OF assms(1,2) ci assms(6,11) _ assms(12), of env None None] assms(4,7,9) e
    by (auto simp: indexed_node_def on_option_def insert_absorb)
qed

lemma remove_voided_step:
  assumes "libs_ok (ce_libs ce)" and "dag_ok (nd_st nd)" and "graph_ok forward (nd_st nd)" and "stored (nd_st nd) B" and "stored (nd_st nd) A"
    and "unvoiding (ce_libs ce) B A vh nd vs (nd1, cl)" and "st_txs (nd_st nd) d = Some v" and "d \<notin> set vs" and "\<not> is_block v"
    and "vh \<in> voided_by (meta_of nd d)" and "d \<in> A"
  shows "\<exists>s'. remove_voided_body ce vh (nd1, cl) v = Some (Inr (Next s')) \<and> unvoiding (ce_libs ce) B A vh nd (vs @ [d]) s'"
proof -
  have ix: "indexed_node (ce_libs ce) B A nd1" and txs: "st_txs (nd_st nd1) = st_txs (nd_st nd)"
    and me: "\<And>k. meta_of nd1 k = (meta_of nd k)\<lparr>voided_by := voided_by (meta_of nd k) - (if k \<in> set vs then {vh} else {})\<rparr>"
    and cl: "vhash ` set cl = {k \<in> set vs. voided_by (meta_of nd k) - {vh} = {k}}" "filter (\<lambda>x. \<not> is_block x) cl = cl"
    using assms(6) by (simp_all add: unvoiding_def)
  have hash: "the_hash v = Inr d" "vhash v = d" using assms(2,7) by (simp_all add: dag_ok_def the_hash_def)
  define nd2 where "nd2 = upd_meta d (\<lambda>m. m\<lparr>voided_by := voided_by m - {vh}\<rparr>) nd1"
  define cl2 where "cl2 = (if voided_by (meta_of nd2 d) = {d} then cl @ [v] else cl)"
  have me2: "meta_of nd2 k = (meta_of nd k)\<lparr>voided_by := voided_by (meta_of nd k) - (if k \<in> set (vs @ [d]) then {vh} else {})\<rparr>" for k
    using me assms(8) by (simp add: nd2_def upd_meta_def)
  have txs2: "st_txs (nd_st nd2) = st_txs (nd_st nd)" "nd_cache nd2 = nd_cache nd1" by (simp_all add: nd2_def upd_meta_def txs)
  have cl2: "vhash ` set cl2 = {k \<in> set (vs @ [d]). voided_by (meta_of nd k) - {vh} = {k}}" "filter (\<lambda>x. \<not> is_block x) cl2 = cl2"
    using cl hash(2) me2 [of d] assms(8,9) by (auto simp: cl2_def)
  have sg: "same_graph (nd_st nd1) (nd_st nd2)" "same_graph (nd_st nd) (nd_st nd2)"
    using me me2 txs txs2 by (simp_all add: same_graph_def)
  have body: "remove_voided_body ce vh (nd1, cl) v =
      (if voided_by (meta_of nd2 d) = {} then
         bindR (Some (add_to_cache (ce_env ce) (ce_libs ce) (nd_st nd2) (nd_cache nd2) v)) (\<lambda>c. Some (Inr (Next (nd2\<lparr>nd_cache := c\<rparr>, cl2))))
       else Some (Inr (Next (nd2, cl2))))"
    using hash(1) me [of d] assms(8,10) by (simp add: remove_voided_body_def Let_def nd2_def [symmetric] cl2_def)
  show ?thesis
  proof (cases "voided_by (meta_of nd2 d) = {}")
    case True
    have "\<forall>k. k \<noteq> d \<longrightarrow> voided_by (meta_of nd2 k) = voided_by (meta_of nd1 k)" by (simp add: nd2_def upd_meta_def)
    moreover have "dag_ok (nd_st nd2)" "graph_ok forward (nd_st nd2)" "stored (nd_st nd2) B" "stored (nd_st nd2) A" "st_txs (nd_st nd2) d = Some v"
      using assms(2-5,7) txs2(1) by (simp_all add: same_graph_dag_ok [OF sg(2)] same_graph_graph_ok [OF sg(2)] stored_def)
    ultimately obtain c' where "add_to_cache (ce_env ce) (ce_libs ce) (nd_st nd2) (nd_cache nd1) v = Inr c'"
      "indexed_node (ce_libs ce) B A \<lparr>nd_st = nd_st nd2, nd_cache = c'\<rparr>"
      using unvoid_in_index [OF assms(1) _ _ ix sg(1) _ assms(9) True assms(11)] by blast
    then show ?thesis unfolding body using True txs2 me2 cl2 by (simp add: unvoiding_def indexed_node_def)
  next
    case False
    have "exec_txs (nd_st nd2) = exec_txs (nd_st nd1)"
      using False me2 me assms(8,10) by (auto simp: exec_txs_def txs txs2(1)) 
    then have "indexed_node (ce_libs ce) B A nd2" using ix txs2(2) by (simp add: indexed_node_def same_graph_cache_inv [OF sg(1)])
    then show ?thesis unfolding body using False txs2 me2 cl2 by (simp add: unvoiding_def)
  qed
qed

definition unvoidable :: "('t, 'l) consensus_env \<Rightarrow> bytes set \<Rightarrow> bytes set \<Rightarrow> ('t, 'l) node \<Rightarrow> bool" where
  "unvoidable ce B A nd \<longleftrightarrow> libs_ok (ce_libs ce) \<and> dag_ok (nd_st nd) \<and> graph_ok forward (nd_st nd) \<and>
     indexed_node (ce_libs ce) B A nd \<and> stored (nd_st nd) B \<and> stored (nd_st nd) A"

definition txs_with :: "bytes \<Rightarrow> storage \<Rightarrow> bytes set \<Rightarrow> bool" where
  "txs_with vh st D \<longleftrightarrow> (\<forall>d \<in> D. \<exists>u. st_txs st d = Some u \<and> \<not> is_block u \<and> vh \<in> voided_by (st_meta st d))"

lemma remove_voided_walk:
  assumes "unvoidable ce B A nd" and "st_txs (nd_st nd) h = Some v"
    and "txs_with vh (nd_st nd) (descendants (nd_st nd) h)" and "descendants (nd_st nd) h \<subseteq> A"
  shows "\<exists>s vs. bfs_run forward (nd_st \<circ> fst) (remove_voided_body ce vh) False (nd, []) v = Some (Inr s) \<and>
    unvoiding (ce_libs ce) B A vh nd vs s \<and> set vs = descendants (nd_st nd) h"
proof -
  have c: "libs_ok (ce_libs ce)" "dag_ok (nd_st nd)" "graph_ok forward (nd_st nd)" "stored (nd_st nd) B" "stored (nd_st nd) A"
    "indexed_node (ce_libs ce) B A nd" using assms(1) by (simp_all add: unvoidable_def)
  define Q where "Q s \<longleftrightarrow> (\<exists>vs. unvoiding (ce_libs ce) B A vh nd vs s \<and> set vs = descendants (nd_st nd) h)" for s
  have "\<exists>s'. bfs_run forward (nd_st \<circ> fst) (remove_voided_body ce vh) False (nd, []) v = Some (Inr s') \<and> Q s'"
  proof (rule bfs.walk_all_rule [where J = "\<lambda>s vs. unvoiding (ce_libs ce) B A vh nd vs s" and st = "nd_st nd" and r = h, OF c(3) assms(2)])
    fix s vs u
    assume j: "unvoiding (ce_libs ce) B A vh nd vs s" and u: "st_txs (nd_st nd) (vhash u) = Some u" "vhash u \<notin> set vs"
      and re: "vhash u \<in> reached forward (nd_st nd) False h"
    have "\<not> is_block u" "vh \<in> voided_by (meta_of nd (vhash u))" "vhash u \<in> A"
      using assms(3,4) re u(1) by (auto simp: txs_with_def descendants_def)
    then show "\<exists>s'. remove_voided_body ce vh s u = Some (Inr (Next s')) \<and> unvoiding (ce_libs ce) B A vh nd (vs @ [vhash u]) s' \<or>
        remove_voided_body ce vh s u = Some (Inr (Break s')) \<and> Q s'"
      using remove_voided_step [OF c(1-5), of vh vs "fst s" "snd s" "vhash u" u] j u by auto
  next
    fix s vs
    assume "unvoiding (ce_libs ce) B A vh nd vs s" "set vs = reached forward (nd_st nd) False h"
    then show "Q s" unfolding Q_def descendants_def by blast
  next
    show "unvoiding (ce_libs ce) B A vh nd [] (nd, [])" using c(6) by (simp add: unvoiding_def)
  qed (simp_all add: unvoiding_same_graph)
  then show ?thesis by (auto simp: Q_def)
qed

lemma remove_voided_by_state:
  assumes "unvoidable ce B A nd" and "st_txs (nd_st nd) h = Some v"
    and "txs_with vh (nd_st nd) (descendants (nd_st nd) h)" and "descendants (nd_st nd) h \<subseteq> A"
  shows "\<exists>nd1 check_list. tx_remove_voided_by ce rec nd v vh = bindR (check_all rec nd1 check_list) (\<lambda>nd2. Some (Inr (True, nd2))) \<and>
    st_txs (nd_st nd1) = st_txs (nd_st nd) \<and> indexed_node (ce_libs ce) B A nd1 \<and>
    (\<forall>d. meta_of nd1 d = (meta_of nd d)\<lparr>voided_by := voided_by (meta_of nd d) - (if d \<in> descendants (nd_st nd) h then {vh} else {})\<rparr>) \<and>
    vhash ` set check_list = {d \<in> descendants (nd_st nd) h. voided_by (meta_of nd d) - {vh} = {d}}"
proof -
  obtain nd1 cl vs where w: "bfs_run forward (nd_st \<circ> fst) (remove_voided_body ce vh) False (nd, []) v = Some (Inr (nd1, cl))"
    "unvoiding (ce_libs ce) B A vh nd vs (nd1, cl)" "set vs = descendants (nd_st nd) h"
    using remove_voided_walk [OF assms] by auto
  have u: "st_txs (nd_st nd1) = st_txs (nd_st nd)" "indexed_node (ce_libs ce) B A nd1"
    "\<forall>d. meta_of nd1 d = (meta_of nd d)\<lparr>voided_by := voided_by (meta_of nd d) - (if d \<in> descendants (nd_st nd) h then {vh} else {})\<rparr>"
    "vhash ` set cl = {d \<in> descendants (nd_st nd) h. voided_by (meta_of nd d) - {vh} = {d}}" "filter (\<lambda>x. \<not> is_block x) cl = cl"
    using w(2) by (simp_all add: unvoiding_def w(3))
  have "h \<in> descendants (nd_st nd) h" by (simp add: descendants_def reached_def)
  then have h: "the_hash v = Inr h" "vh \<in> voided_by (meta_of nd h)"
    using assms(1,2,3) by (auto simp: unvoidable_def dag_ok_def the_hash_def txs_with_def)
  have "tx_remove_voided_by ce rec nd v vh = bindR (check_all rec nd1 cl) (\<lambda>nd2. Some (Inr (True, nd2)))"
    using h w(1) u(5) by (simp add: tx_remove_voided_by_def)
  then show ?thesis using u by blast
qed

text \<open>
  C29: taking back a hash that everything depending on a transaction carries removes it there and
  nowhere else and changes no other metadata. The walk ends, the transactions that are left without any
  hash are in the index again and counted, and exactly those left with their own hash alone are handed to
  the resolution of conflicts. No optional index is kept.
\<close>

theorem remove_voided_by_exact:
  assumes "unvoidable ce B A nd" and "st_txs (nd_st nd) h = Some v"
    and "txs_with vh (nd_st nd) (descendants (nd_st nd) h)" and "descendants (nd_st nd) h \<subseteq> A"
  shows "\<exists>nd1 check_list. tx_remove_voided_by ce rec nd v vh = bindR (check_all rec nd1 check_list) (\<lambda>nd2. Some (Inr (True, nd2))) \<and>
    (\<forall>d. meta_of nd1 d = (meta_of nd d)\<lparr>voided_by := voided_by (meta_of nd d) - (if d \<in> descendants (nd_st nd) h then {vh} else {})\<rparr>) \<and>
    cache_inv (ce_libs ce) (nd_st nd1) B (exec_txs (nd_st nd1)) A (nd_cache nd1) \<and>
    vhash ` set check_list = {d \<in> descendants (nd_st nd) h. voided_by (meta_of nd d) - {vh} = {d}}"
  using remove_voided_by_state [OF assms, of rec] unfolding indexed_node_def by blast

subsection \<open>Two transactions in conflict\<close>

definition only_voided_by :: "bytes set \<Rightarrow> storage \<Rightarrow> bytes set \<Rightarrow> bool" where
  "only_voided_by W st D \<longleftrightarrow> (\<forall>d \<in> D. \<exists>u. st_txs st d = Some u \<and> \<not> is_block u \<and> voided_by (st_meta st d) = W)"

lemma voids_executed:
  assumes "voidable ce nd" and "st_txs (nd_st nd) c = Some u" and "only_voided_by {} (nd_st nd) (descendants (nd_st nd) c)"
    and "indexed_node (ce_libs ce) B A nd" and "\<forall>d \<in> descendants (nd_st nd) c - {c}. conflict_with (meta_of nd d) = []"
  shows "\<exists>nd1. run_calls ce (Suc n) (AddVoidedBy u c) nd = Some (Inr nd1) \<and> same_graph (nd_st nd) (nd_st nd1) \<and>
    indexed_node (ce_libs ce) B A nd1 \<and> (\<forall>d. conflict_with (meta_of nd1 d) = conflict_with (meta_of nd d)) \<and>
    (\<forall>d. voided_by (meta_of nd1 d) = (if d \<in> descendants (nd_st nd) c then {c} else voided_by (meta_of nd d)))"
proof -
  let ?D = "descendants (nd_st nd) c"
  have wo: "txs_without c (nd_st nd) ?D" and e: "{d \<in> ?D. voided_by (meta_of nd d) \<noteq> {}} = {}"
    using assms(3) by (fastforce simp: only_voided_by_def txs_without_def)+
  obtain nd1 cl vs where w: "bfs_run forward (nd_st \<circ> fst) (add_voided_body ce (run_calls ce n) c c) False (nd, []) u = Some (Inr (nd1, cl))"
    "voiding (ce_libs ce) c c nd vs (nd1, cl)" "distinct vs" "set vs = ?D"
    using add_voided_walk [OF assms(1,2) wo, of "run_calls ce n"] by auto
  have i: "same_graph (nd_st nd) (nd_st nd1)" "\<forall>d. voided_by (meta_of nd1 d) = newly_voided c ?D (nd_st nd) d"
    "tx_index_ok (ce_libs ce) nd1" "vhash ` set cl = reopened c ?D (nd_st nd)" "\<forall>d. conflict_with (meta_of nd1 d) = conflict_with (meta_of nd d)"
    and ca: "nd_cache nd1 = (nd_cache nd)\<lparr>tx_index := tx_index (nd_cache nd1), cache_tx_count := cache_tx_count (nd_cache nd) - int (length vs)\<rparr>"
    using w(2) by (simp_all add: voiding_def w(4))
  have "reopened c ?D (nd_st nd) = {}" using assms(5) by (auto simp: reopened_def)
  then have cl: "cl = []" using i(4) by simp
  have v: "voided_by (meta_of nd1 d) = (if d \<in> ?D then {c} else voided_by (meta_of nd d))" for d
    using assms(3,5) i(2) by (auto simp: newly_voided_def only_voided_by_def)
  have "int (card (exec_txs (nd_st nd))) - int (card ?D) = int (card (exec_txs (nd_st nd1)))"
    using exec_after_void [of "nd_st nd" "nd_st nd1" c ?D] assms(1) i(1,2) wo
    by (simp add: voidable_def graph_ok_def same_graph_def e)
  then have "indexed_node (ce_libs ce) B A nd1" using assms(4) i(3) distinct_card [OF w(3)]
    unfolding indexed_node_def by (subst ca, subst ca, subst ca) (simp add: cache_inv_def tx_index_ok_def same_graph_im_inv [OF i(1)] w(4))
  moreover have "the_hash u = Inr c" "c \<notin> voided_by (meta_of nd c)"
    using assms(1,2) wo by (auto simp: voidable_def dag_ok_def the_hash_def txs_without_def descendants_def reached_def)
  then have "run_calls ce (Suc n) (AddVoidedBy u c) nd = Some (Inr nd1)"
    using w(1) by (simp add: run_call_def tx_add_voided_by_def cl check_all_def)
  ultimately show ?thesis using i v by blast
qed

lemma executes_voided:
  assumes "unvoidable ce B A nd" and "st_txs (nd_st nd) h = Some v" and "only_voided_by {h} (nd_st nd) (descendants (nd_st nd) h)"
    and "descendants (nd_st nd) h \<subseteq> A"
  shows "\<exists>nd1. run_calls ce (Suc n) (RemoveVoidedBy v h) nd = Some (Inr nd1) \<and> indexed_node (ce_libs ce) B A nd1 \<and>
    (\<forall>d. voided_by (meta_of nd1 d) = (if d \<in> descendants (nd_st nd) h then {} else voided_by (meta_of nd d)))"
proof -
  have "txs_with h (nd_st nd) (descendants (nd_st nd) h)" using assms(3) by (fastforce simp: only_voided_by_def txs_with_def)
  then obtain nd1 cl where r: "tx_remove_voided_by ce (run_calls ce n) nd v h = bindR (check_all (run_calls ce n) nd1 cl) (\<lambda>nd2. Some (Inr (True, nd2)))"
    "indexed_node (ce_libs ce) B A nd1"
    "\<forall>d. meta_of nd1 d = (meta_of nd d)\<lparr>voided_by := voided_by (meta_of nd d) - (if d \<in> descendants (nd_st nd) h then {h} else {})\<rparr>"
    "vhash ` set cl = {d \<in> descendants (nd_st nd) h. voided_by (meta_of nd d) - {h} = {d}}"
    using remove_voided_by_state [OF assms(1,2) _ assms(4), of h "run_calls ce n"] by blast
  have e: "voided_by (meta_of nd d) = {h}" if "d \<in> descendants (nd_st nd) h" for d using assms(3) that by (auto simp: only_voided_by_def)
  then have "{d \<in> descendants (nd_st nd) h. voided_by (meta_of nd d) - {h} = {d}} = {}" by (simp cong: conj_cong)
  then have "vhash ` set cl = {}" unfolding r(4) .
  then have "cl = []" by simp
  then show ?thesis using r(1-3) e by (simp add: run_call_def check_all_def)
qed

text \<open>
  An executed transaction \<open>c\<close> and a transaction \<open>h\<close> that has just been voided by itself, in conflict with
  each other; what depends on them has no conflicts of its own.
\<close>

definition duel :: "('t, 'l) consensus_env \<Rightarrow> bytes set \<Rightarrow> bytes set \<Rightarrow> ('t, 'l) node \<Rightarrow> bytes \<Rightarrow> bytes \<Rightarrow> bool" where
  "duel ce B A nd h c \<longleftrightarrow> voidable ce nd \<and> unvoidable ce B A nd \<and>
     conflict_with (meta_of nd h) = [c] \<and> conflict_with (meta_of nd c) \<noteq> [] \<and>
     only_voided_by {h} (nd_st nd) (descendants (nd_st nd) h) \<and> only_voided_by {} (nd_st nd) (descendants (nd_st nd) c) \<and>
     (\<forall>d \<in> descendants (nd_st nd) c - {c}. conflict_with (meta_of nd d) = []) \<and> descendants (nd_st nd) h \<subseteq> A"

lemma root_descends: "h \<in> descendants st h"
  by (simp add: descendants_def reached_def)

lemma same_graph_descendants: "same_graph st st' \<Longrightarrow> descendants st' h = descendants st h"
  by (simp add: descendants_def reached_def edges_def nbs_same_graph)

lemma duel_weighed:
  assumes "duel ce B A nd h c"
  shows "duel ce B A (nd\<lparr>nd_st := upd_st c (\<lambda>m. m\<lparr>accumulated_weight := w\<rparr>) (nd_st nd)\<rparr>) h c"
proof -
  let ?st = "upd_st c (\<lambda>m. m\<lparr>accumulated_weight := w\<rparr>) (nd_st nd)"
  have sg: "same_graph (nd_st nd) ?st" by (simp add: same_graph_upd_st)
  have m: "voided_by (st_meta ?st d) = voided_by (meta_of nd d)" "conflict_with (st_meta ?st d) = conflict_with (meta_of nd d)"
    "st_txs ?st = st_txs (nd_st nd)" for d by simp_all
  have x: "exec_txs ?st = exec_txs (nd_st nd)" unfolding exec_txs_def m ..
  have n: "nd_st (nd\<lparr>nd_st := ?st\<rparr>) = ?st" "nd_cache (nd\<lparr>nd_st := ?st\<rparr>) = nd_cache nd" by simp_all
  show ?thesis using assms
    unfolding duel_def voidable_def unvoidable_def tx_index_ok_def indexed_node_def conflicts_stored_def only_voided_by_def stored_def
    by (simp only: n x m same_graph_descendants [OF sg] same_graph_dag_ok [OF sg] same_graph_graph_ok [OF sg]
        same_graph_im_inv [OF sg] same_graph_cache_inv [OF sg]) blast
qed

lemma same_graph_voidable:
  assumes "voidable ce nd" and "same_graph (nd_st nd) (nd_st nd1)" and "indexed_node (ce_libs ce) B A nd1"
    and "\<forall>d. conflict_with (meta_of nd1 d) = conflict_with (meta_of nd d)" and "stored (nd_st nd) B" and "stored (nd_st nd) A"
  shows "voidable ce nd1 \<and> unvoidable ce B A nd1"
  using assms
  by (simp add: voidable_def unvoidable_def tx_index_ok_def indexed_node_def cache_inv_def conflicts_stored_def stored_def
      same_graph_dag_ok [OF assms(2)] same_graph_graph_ok [OF assms(2)]) (simp add: same_graph_def)

text \<open>The loser is voided first, then, unless it is a tie, the winner is executed.\<close>

lemma duel_settled:
  assumes "duel ce B A nd h c" and "st_txs (nd_st nd) h = Some v" and "st_txs (nd_st nd) c = Some u"
  shows "\<exists>nd1. foldR (tx_mark_as_voided (run_calls ce (Suc n))) nd [u] = Some (Inr nd1) \<and> indexed_node (ce_libs ce) B A nd1 \<and>
    (\<forall>d. voided_by (meta_of nd1 d) = (if d \<in> descendants (nd_st nd) c then {c} else voided_by (meta_of nd d))) \<and>
    (\<exists>nd2. mark_as_winner (run_calls ce (Suc n)) nd1 v = Some (Inr nd2) \<and> indexed_node (ce_libs ce) B A nd2 \<and>
      (\<forall>d. voided_by (meta_of nd2 d) = (if d \<in> descendants (nd_st nd) c then {c}
         else if d \<in> descendants (nd_st nd) h then {} else voided_by (meta_of nd d))))"
proof -
  have d: "voidable ce nd" "indexed_node (ce_libs ce) B A nd" "stored (nd_st nd) B" "stored (nd_st nd) A"
    "conflict_with (meta_of nd h) = [c]" "conflict_with (meta_of nd c) \<noteq> []"
    "only_voided_by {h} (nd_st nd) (descendants (nd_st nd) h)" "only_voided_by {} (nd_st nd) (descendants (nd_st nd) c)"
    "\<forall>d \<in> descendants (nd_st nd) c - {c}. conflict_with (meta_of nd d) = []" "descendants (nd_st nd) h \<subseteq> A"
    using assms(1) by (simp_all add: duel_def unvoidable_def)
  have hash: "the_hash v = Inr h" "the_hash u = Inr c" using assms(2,3) d(1) by (simp_all add: voidable_def dag_ok_def the_hash_def)
  have "voided_by (meta_of nd c) = {}" using d(8) root_descends by (auto simp: only_voided_by_def)
  moreover obtain nd1 where n1: "run_calls ce (Suc n) (AddVoidedBy u c) nd = Some (Inr nd1)" "same_graph (nd_st nd) (nd_st nd1)"
    "indexed_node (ce_libs ce) B A nd1" "\<forall>d. conflict_with (meta_of nd1 d) = conflict_with (meta_of nd d)"
    "\<forall>d. voided_by (meta_of nd1 d) = (if d \<in> descendants (nd_st nd) c then {c} else voided_by (meta_of nd d))"
    using voids_executed [OF d(1) assms(3) d(8,2,9), of n] by blast
  ultimately have f: "foldR (tx_mark_as_voided (run_calls ce (Suc n))) nd [u] = Some (Inr nd1)"
    using hash(2) d(6) by (simp add: tx_mark_as_voided_def Let_def del: run_calls.simps)
  have disj: "d \<notin> descendants (nd_st nd) c" if "d \<in> descendants (nd_st nd) h" for d
    using d(7,8) that by (fastforce simp: only_voided_by_def)
  have "st_txs (nd_st nd1) = st_txs (nd_st nd)" using n1(2) by (simp add: same_graph_def)
  then have "only_voided_by {h} (nd_st nd1) (descendants (nd_st nd1) h)" "st_txs (nd_st nd1) h = Some v" "descendants (nd_st nd1) h \<subseteq> A"
    using d(7,10) n1(5) disj assms(2) by (simp_all add: only_voided_by_def same_graph_descendants [OF n1(2)])
  then obtain nd2 where n2: "run_calls ce (Suc n) (RemoveVoidedBy v h) nd1 = Some (Inr nd2)" "indexed_node (ce_libs ce) B A nd2"
    "\<forall>d. voided_by (meta_of nd2 d) = (if d \<in> descendants (nd_st nd1) h then {} else voided_by (meta_of nd1 d))"
    using executes_voided [OF conjunct2 [OF same_graph_voidable [OF d(1) n1(2,3,4) d(3,4)]], of h v n] by blast
  have "mark_as_winner (run_calls ce (Suc n)) nd1 v = Some (Inr nd2)"
    using hash(1) n2(1) n1(4) d(5) by (simp add: mark_as_winner_def del: run_calls.simps)
  moreover have "\<forall>d. voided_by (meta_of nd2 d) = (if d \<in> descendants (nd_st nd) c then {c}
         else if d \<in> descendants (nd_st nd) h then {} else voided_by (meta_of nd d))"
    using n2(3) n1(5) disj by (simp add: same_graph_descendants [OF n1(2)])
  ultimately show ?thesis using f n1(3,5) n2(2) by blast
qed

definition fl_tie :: "float64 \<Rightarrow> float64 \<Rightarrow> bool" where
  "fl_tie a b \<longleftrightarrow> fl_less (fl_abs (fl_sub a b)) WEIGHT_TOL"

definition fl_loses :: "float64 \<Rightarrow> float64 \<Rightarrow> bool" where
  "fl_loses a b \<longleftrightarrow> \<not> fl_tie b a \<and> fl_less 0 (fl_sub b a)"

text \<open>
  C27: the resolution of a conflict between an executed transaction \<open>c\<close> and a transaction \<open>h\<close> that is voided
  only by itself. The accumulated weight of \<open>c\<close> is brought up to date and compared with the one of \<open>h\<close>. When \<open>c\<close> is
  heavier nothing is voided or executed. Otherwise \<open>c\<close> and all that depends on it are voided by \<open>c\<close>; in a tie
  that leaves both voided, and when \<open>h\<close> is heavier \<open>h\<close> and all that depends on it are executed. The
  calls end, at depth one, and the indices hold exactly the executed transactions afterwards.
\<close>

theorem conflict_resolved:
  assumes "duel ce B A nd h c" and "st_txs (nd_st nd) h = Some v" and "st_txs (nd_st nd) c = Some u"
  shows "\<exists>w nd'. (let a = accumulated_weight (meta_of nd h) in
    update_accumulated_weight (env_libm (ce_env ce)) a (nd_st nd) u = Some (Inr (upd_st c (\<lambda>m. m\<lparr>accumulated_weight := w\<rparr>) (nd_st nd))) \<and>
    check_conflicts ce (run_calls ce (Suc n)) nd v = Some (Inr nd') \<and> indexed_node (ce_libs ce) B A nd' \<and>
    (\<forall>d. voided_by (meta_of nd' d) =
      (if d \<in> descendants (nd_st nd) c \<and> \<not> fl_loses a w then {c}
       else if d \<in> descendants (nd_st nd) h \<and> \<not> fl_loses a w \<and> \<not> fl_tie w a then {}
       else voided_by (meta_of nd d))))"
proof -
  define a where "a = accumulated_weight (meta_of nd h)"
  have d: "graph_ok forward (nd_st nd)" "weights_total (env_libm (ce_env ce))" "conflict_with (meta_of nd h) = [c]" "dag_ok (nd_st nd)"
    "voided_by (meta_of nd h) = {h}" "voided_by (meta_of nd c) = {}" "indexed_node (ce_libs ce) B A nd"
    using assms(1) root_descends [of h "nd_st nd"] root_descends [of c "nd_st nd"]
    by (auto simp: duel_def voidable_def unvoidable_def only_voided_by_def)
  have hash: "the_hash v = Inr h" "the_hash u = Inr c" "vhash u = c" "h \<noteq> c"
    using assms(2,3) d by (auto simp: dag_ok_def the_hash_def)
  obtain w where w: "update_accumulated_weight (env_libm (ce_env ce)) a (nd_st nd) u =
      Some (Inr (upd_st c (\<lambda>m. m\<lparr>accumulated_weight := w\<rparr>) (nd_st nd)))"
    using update_weight_ok [OF d(1) assms(3) d(2)] by blast
  define nd1 where "nd1 = nd\<lparr>nd_st := upd_st c (\<lambda>m. m\<lparr>accumulated_weight := w\<rparr>) (nd_st nd)\<rparr>"
  have duel1: "duel ce B A nd1 h c" unfolding nd1_def by (rule duel_weighed [OF assms(1)])
  have n1: "st_txs (nd_st nd1) = st_txs (nd_st nd)" "voided_by (meta_of nd1 d) = voided_by (meta_of nd d)"
    "descendants (nd_st nd1) k = descendants (nd_st nd) k" "indexed_node (ce_libs ce) B A nd1" for d k
    using duel1 by (simp_all add: nd1_def duel_def unvoidable_def same_graph_descendants same_graph_upd_st)
  obtain nd2 nd3 where s: "foldR (tx_mark_as_voided (run_calls ce (Suc n))) nd1 [u] = Some (Inr nd2)" "indexed_node (ce_libs ce) B A nd2"
    "\<forall>d. voided_by (meta_of nd2 d) = (if d \<in> descendants (nd_st nd) c then {c} else voided_by (meta_of nd d))"
    "mark_as_winner (run_calls ce (Suc n)) nd2 v = Some (Inr nd3)" "indexed_node (ce_libs ce) B A nd3"
    "\<forall>d. voided_by (meta_of nd3 d) = (if d \<in> descendants (nd_st nd) c then {c}
       else if d \<in> descendants (nd_st nd) h then {} else voided_by (meta_of nd d))"
    using duel_settled [OF duel1, of v u n] assms(2,3) unfolding n1 by blast
  have "conflict_candidates (nd_st nd) h = Inr [u]" using d(3,6) hash assms(3) by (simp add: conflict_candidates_def get_transaction_def)
  moreover have "beats_voided (nd_st nd) h [u]" using d(6) hash(3) by (simp add: beats_voided_def)
  moreover have "compare_executed (env_libm (ce_env ce)) h nd [] [u] =
      Some (Inr (\<not> fl_loses a w, if fl_tie w a then [u] else [], nd1))"
    using hash d(6) w by (simp add: a_def [symmetric] nd1_def Let_def fl_tie_def fl_loses_def upd_st_def)
  ultimately have "check_conflicts ce (run_calls ce (Suc n)) nd v =
      (if fl_loses a w then Some (Inr nd1) else if fl_tie w a then Some (Inr nd2) else Some (Inr nd3))"
    using hash(1) d(5) s(1,4) by (simp add: check_conflicts_def del: run_calls.simps foldR.simps)
  moreover have "fl_loses a w \<Longrightarrow> \<not> fl_tie w a" by (simp add: fl_loses_def)
  ultimately show ?thesis using w s n1(2,4) unfolding a_def [symmetric] Let_def
    by (intro exI [of _ w] exI [of _ "if fl_loses a w then nd1 else if fl_tie w a then nd2 else nd3"]) simp
qed

subsection \<open>What the resolution overlooks\<close>

lemma stored_the_hash: "graph_ok cfg st \<Longrightarrow> st_txs st k = Some x \<Longrightarrow> the_hash x = Inr k \<and> vhash x = k"
  by (simp add: graph_ok_def the_hash_def)

lemma no_candidates:
  assumes "graph_ok cfg st" and "\<forall>c \<in> set (conflict_with (st_meta st h)). c \<noteq> h \<and> only_voided_by {c} st {c}"
  shows "conflict_candidates st h = Inr []"
proof -
  have "\<exists>vs. mapE (get_transaction st) ks = Inr vs \<and> mapE (\<lambda>tx. bindE (the_hash tx) (\<lambda>ch. Inr (ch, tx))) vs = Inr (zip ks vs)"
    if "\<forall>c \<in> set ks. c \<noteq> h \<and> only_voided_by {c} st {c}" for ks
    using that
  proof (induction ks)
    case (Cons k ks)
    obtain u where "st_txs st k = Some u" using Cons.prems by (auto simp: only_voided_by_def)
    then have "get_transaction st k = Inr u" "the_hash u = Inr k" using stored_the_hash [OF assms(1)] by (simp_all add: get_transaction_def)
    then show ?case using Cons by auto
  qed simp
  then obtain vs where "mapE (get_transaction st) (conflict_with (st_meta st h)) = Inr vs"
    "mapE (\<lambda>tx. bindE (the_hash tx) (\<lambda>ch. Inr (ch, tx))) vs = Inr (zip (conflict_with (st_meta st h)) vs)" using assms(2) by blast
  moreover have "\<not> (voided_by (st_meta st c) = {} \<or> voided_by (st_meta st c) = {h})" if "(c, x) \<in> set (zip (conflict_with (st_meta st h)) vs)" for c x
    using assms(2) set_zip_leftD [OF that] by (auto simp: only_voided_by_def)
  ultimately show ?thesis by (auto simp: conflict_candidates_def filter_empty_conv)
qed

text \<open>
  C34: competitors that are voided only by themselves, as two that tied are, take no part in the
  resolution: whatever the accumulated weights, a transaction voided only by itself whose
  competitors are all voided by themselves is executed, with all that depends on it, and they stay voided.
\<close>

theorem self_voided_not_compared:
  assumes "unvoidable ce B A nd" and "st_txs (nd_st nd) h = Some v" and "only_voided_by {h} (nd_st nd) (descendants (nd_st nd) h)"
    and "descendants (nd_st nd) h \<subseteq> A" and "conflict_with (meta_of nd h) \<noteq> []"
    and "\<forall>c \<in> set (conflict_with (meta_of nd h)). c \<noteq> h \<and> only_voided_by {c} (nd_st nd) {c}"
  shows "\<exists>nd'. check_conflicts ce (run_calls ce (Suc n)) nd v = Some (Inr nd') \<and>
    (\<forall>d. voided_by (meta_of nd' d) = (if d \<in> descendants (nd_st nd) h then {} else voided_by (meta_of nd d)))"
proof -
  have "graph_ok forward (nd_st nd)" "dag_ok (nd_st nd)" using assms(1) by (simp_all add: unvoidable_def)
  then have g: "graph_ok forward (nd_st nd)" "the_hash v = Inr h" using assms(2) by (simp_all add: dag_ok_def the_hash_def)
  have own: "voided_by (meta_of nd h) = {h}" using assms(3) root_descends [of h "nd_st nd"] by (auto simp: only_voided_by_def)
  have "conflict_candidates (nd_st nd) h = Inr []" by (rule no_candidates [OF g(1) assms(6)])
  moreover obtain nd1 where "run_calls ce (Suc n) (RemoveVoidedBy v h) nd = Some (Inr nd1)"
    "\<forall>d. voided_by (meta_of nd1 d) = (if d \<in> descendants (nd_st nd) h then {} else voided_by (meta_of nd d))"
    using executes_voided [OF assms(1-4), of n] by blast
  ultimately show ?thesis using g(2) own assms(5)
    by (simp add: check_conflicts_def beats_voided_def mark_as_winner_def del: run_calls.simps)
qed

text \<open>
  C35: a dependent transaction with a conflict of its own is voided by itself as well, but this is not passed on:
  a transaction that depends on it and was not voided by it before is not voided by it afterwards
  either, although it depends on a voided conflict.
\<close>

theorem own_void_not_inherited:
  assumes "voidable ce nd" and "st_txs (nd_st nd) h = Some v" and "txs_without vh (nd_st nd) (descendants (nd_st nd) h)"
    and "d \<in> descendants (nd_st nd) h" and "conflict_with (meta_of nd d) \<noteq> []" and "(d, e) \<in> edges forward (nd_st nd)"
    and "d \<notin> voided_by (meta_of nd e)" and "d \<noteq> vh"
  shows "\<exists>nd1 check_list. tx_add_voided_by ce rec nd v vh = bindR (check_all rec nd1 check_list) (\<lambda>nd2. Some (Inr (True, nd2))) \<and>
    {vh, d} \<subseteq> voided_by (meta_of nd1 d) \<and> vh \<in> voided_by (meta_of nd1 e) \<and> d \<notin> voided_by (meta_of nd1 e)"
proof -
  obtain nd1 cl vs where w: "bfs_run forward (nd_st \<circ> fst) (add_voided_body ce rec h vh) False (nd, []) v = Some (Inr (nd1, cl))"
    "voiding (ce_libs ce) h vh nd vs (nd1, cl)" "set vs = descendants (nd_st nd) h"
    using add_voided_walk [OF assms(1-3), of rec] by auto
  have "graph_ok forward (nd_st nd)" using assms(1) by (simp add: voidable_def)
  then have "d \<noteq> e" using edges_key [of forward "nd_st nd" d e] assms(6) by fastforce
  moreover have "e \<in> descendants (nd_st nd) h" using assms(4,6) by (auto simp: descendants_def reached_def intro: rtrancl_into_rtrancl)
  ultimately have "{vh, d} \<subseteq> voided_by (meta_of nd1 d)" "vh \<in> voided_by (meta_of nd1 e)" "d \<notin> voided_by (meta_of nd1 e)"
    using w(2) assms(4,5,7,8) by (auto simp: voiding_def newly_voided_def w(3))
  moreover have "the_hash v = Inr h" "vh \<notin> voided_by (meta_of nd h)"
    using assms(1-3) root_descends [of h "nd_st nd"] by (auto simp: voidable_def dag_ok_def the_hash_def txs_without_def)
  then have "tx_add_voided_by ce rec nd v vh = bindR (check_all rec nd1 cl) (\<lambda>nd2. Some (Inr (True, nd2)))"
    using w(1) by (simp add: tx_add_voided_by_def)
  ultimately show ?thesis by blast
qed

subsection \<open>An example\<close>

lemma duel_unvoidable: "unvoidable duel_env {} {[3]} duel_node"
  by (simp add: unvoidable_def duel_env_def duel_node_def list_libs_ok duel_dag duel_graph indexed_node_def duel_exec cache_inv_def
      duel_index_inv sample_cache_def im_inv_new [OF list_libs_ok] stored_def) (simp add: duel_storage_def)

lemma duel_st: "nd_st duel_node = duel_storage"
  by (simp add: duel_node_def)

theorem remove_voided_by_exact_witness:
  "\<exists>nd1. tx_remove_voided_by duel_env (run_calls duel_env 0) duel_node (spender 3 30 [([1], 0)]) [3] = Some (Inr (True, nd1)) \<and>
    voided_by (meta_of nd1 [3]) = {}"
proof -
  have none: "{d \<in> {[3]}. voided_by (st_meta duel_storage d) - {[3]} = {d}} = {}" by (auto simp: duel_storage_meta)
  obtain nd1 cl where "tx_remove_voided_by duel_env (run_calls duel_env 0) duel_node (spender 3 30 [([1], 0)]) [3] =
      bindR (check_all (run_calls duel_env 0) nd1 cl) (\<lambda>nd2. Some (Inr (True, nd2)))"
    "voided_by (meta_of nd1 [3]) = {}" "vhash ` set cl = {}"
    using remove_voided_by_exact [OF duel_unvoidable, of "[3]" "spender 3 30 [([1], 0)]" "[3]" "run_calls duel_env 0"]
    unfolding duel_st duel_descendants none
    by (auto simp: txs_with_def duel_storage_txs duel_storage_meta spender_simps simp del: run_calls.simps)
  then show ?thesis by (simp add: check_all_def)
qed

lemma duel_sample: "duel duel_env {} {[3]} duel_node [3] [2]"
  by (simp add: duel_def duel_voidable duel_unvoidable duel_descendants duel_storage_meta only_voided_by_def duel_storage_txs spender_simps duel_st)

theorem conflict_resolved_witness:
  "\<exists>nd'. check_conflicts duel_env (run_calls duel_env 1) duel_node (spender 3 30 [([1], 0)]) = Some (Inr nd') \<and>
    indexed_node list_libs {} {[3]} nd'"
  using conflict_resolved [OF duel_sample, of "spender 3 30 [([1], 0)]" "spender 2 20 [([1], 0)]" 0]
  by (auto simp: Let_def duel_st duel_storage_txs duel_env_def)

text \<open>Both have been voided, as after a tie.\<close>

definition tied_node :: "(interval list, index_element list) node" where
  "tied_node = \<lparr>nd_st = upd_st [2] (\<lambda>m. m\<lparr>voided_by := {[2]}\<rparr>) duel_storage,
     nd_cache = sample_cache\<lparr>tx_index := new_indexes_manager list_libs, all_index := duel_index [3], cache_tx_count := 0\<rparr>\<rparr>"

lemma tied_graph: "same_graph duel_storage (nd_st tied_node)"
  by (simp add: tied_node_def same_graph_upd_st)

lemma tied_meta: "voided_by (meta_of tied_node h) = (if h \<in> {[2], [3]} then {h} else {})"
    "conflict_with (meta_of tied_node h) = conflict_with (st_meta duel_storage h)" "st_txs (nd_st tied_node) = st_txs duel_storage"
    "descendants (nd_st tied_node) h = {h}"
  by (simp_all add: duel_storage_meta same_graph_descendants [OF tied_graph] duel_descendants) (simp_all add: tied_node_def duel_storage_meta)

lemma tied_unvoidable: "unvoidable duel_env {} {[3]} tied_node"
proof -
  have "exec_txs (nd_st tied_node) = {}" by (auto simp: exec_txs_def tied_meta duel_storage_txs)
  moreover have "im_inv list_libs (nd_st tied_node) {[3]} (duel_index [3])" by (simp add: same_graph_im_inv [OF tied_graph] duel_index_inv)
  ultimately show ?thesis
    by (simp add: unvoidable_def duel_env_def list_libs_ok indexed_node_def cache_inv_def stored_def tied_meta(3) duel_storage_txs
        same_graph_dag_ok [OF tied_graph] same_graph_graph_ok [OF tied_graph] duel_dag duel_graph)
      (simp add: tied_node_def sample_cache_def im_inv_new [OF list_libs_ok] duel_storage_txs dom_def)
qed

theorem self_voided_not_compared_witness:
  "\<exists>nd'. check_conflicts duel_env (run_calls duel_env 1) tied_node (spender 3 30 [([1], 0)]) = Some (Inr nd') \<and>
    voided_by (meta_of nd' [3]) = {} \<and> voided_by (meta_of nd' [2]) = {[2]}"
  using self_voided_not_compared [OF tied_unvoidable, of "[3]" "spender 3 30 [([1], 0)]" 0]
  by (auto simp: tied_meta only_voided_by_def duel_storage_txs duel_storage_meta spender_simps)

text \<open>A transaction with a conflict, and one that depends on it; all are voided by something else.\<close>

definition chain_storage :: storage where
  "chain_storage = \<lparr>st_txs = [[1] \<mapsto> tips_vertex 1 10 [], [2] \<mapsto> tips_vertex 2 20 [[1]], [3] \<mapsto> tips_vertex 3 30 []],
     st_meta = (\<lambda>h. (new_meta (Some h) 0 0)\<lparr>children := (if h = [1] then [[2]] else []), voided_by := {[9]},
       conflict_with := (if h = [1] then [[3]] else if h = [3] then [[1]] else [])\<rparr>), st_best_tips = None\<rparr>"

definition chain_node :: "(interval list, index_element list) node" where
  "chain_node = \<lparr>nd_st = chain_storage, nd_cache = sample_cache\<lparr>tx_index := new_indexes_manager list_libs\<rparr>\<rparr>"

lemma tips_vertex_simps: "tx_hash (vertex_base (tips_vertex b t ps)) = Some [b]" "vtimestamp (tips_vertex b t ps) = t"
    "parents (vertex_base (tips_vertex b t ps)) = ps" "\<not> is_block (tips_vertex b t ps)"
  by (simp_all add: tips_vertex_def base_transaction.defs)

lemma chain_txs: "st_txs chain_storage h = (if h = [3] then Some (tips_vertex 3 30 []) else if h = [2] then Some (tips_vertex 2 20 [[1]])
    else if h = [1] then Some (tips_vertex 1 10 []) else None)"
  by (simp add: chain_storage_def)

lemma chain_meta: "children (st_meta chain_storage h) = (if h = [1] then [[2]] else [])" "spent_outputs (st_meta chain_storage h) = []"
    "voided_by (st_meta chain_storage h) = {[9]}"
    "conflict_with (st_meta chain_storage h) = (if h = [1] then [[3]] else if h = [3] then [[1]] else [])"
  by (simp_all add: chain_storage_def new_meta_def)

lemma chain_nbs: "nbs forward chain_storage h = (if h = [1] then [[2]] else [])"
  by (auto simp: nbs_def neighbors_def forward_def chain_meta chain_txs the_hash_def of_option_def tips_vertex_simps)

lemma chain_graph: "graph_ok forward chain_storage"
proof -
  have "dom (st_txs chain_storage) = {[1], [2], [3]}" by (auto simp: chain_storage_def)
  moreover have "tx_hash (vertex_base v) = Some h \<and>
      (\<forall>n \<in> set (nbs forward chain_storage h). \<exists>u. st_txs chain_storage n = Some u \<and> item_key forward v < item_key forward u)"
    if "st_txs chain_storage h = Some v" for h v
  proof -
    have "h = [1] \<and> v = tips_vertex 1 10 [] \<or> h = [2] \<and> v = tips_vertex 2 20 [[1]] \<or> h = [3] \<and> v = tips_vertex 3 30 []"
      using that by (simp add: chain_txs split: if_splits)
    moreover have "item_key forward u = vtimestamp u" for u by (simp add: item_key_def forward_def)
    ultimately show ?thesis by (elim disjE) (simp_all add: chain_nbs chain_txs tips_vertex_simps)
  qed
  ultimately show ?thesis by (simp add: graph_ok_def)
qed

lemma chain_descendants: "descendants chain_storage [1] = {[1], [2]}"
proof -
  have e: "edges forward chain_storage = {([1], [2])}" by (auto simp: edges_def chain_nbs split: if_splits)
  have "(edges forward chain_storage)\<^sup>* `` {[1]} = {[1], [2]}"
  proof
    have "(edges forward chain_storage)\<^sup>* `` {[1], [2]} = {[1], [2]}" by (rule Image_closed_trancl) (auto simp: e)
    then show "(edges forward chain_storage)\<^sup>* `` {[1]} \<subseteq> {[1], [2]}" by blast
    show "{[1], [2]} \<subseteq> (edges forward chain_storage)\<^sup>* `` {[1]}" using e by blast
  qed
  then show ?thesis by (simp add: descendants_def reached_def)
qed

lemma chain_voidable: "voidable duel_env chain_node"
proof -
  have "exec_txs chain_storage = {}" by (simp add: exec_txs_def chain_meta)
  moreover have "dag_ok chain_storage" by (auto simp: dag_ok_def chain_txs chain_meta tips_vertex_simps split: if_splits)
  ultimately show ?thesis
    by (auto simp: voidable_def duel_env_def chain_node_def list_libs_ok sample_weights_total chain_graph conflicts_stored_def
        chain_meta chain_txs tx_index_ok_def im_inv_new [OF list_libs_ok] sample_cache_def split: if_splits)
qed

theorem own_void_not_inherited_witness:
  "\<exists>nd1 cl. tx_add_voided_by duel_env (run_calls duel_env 0) chain_node (tips_vertex 1 10 []) [8] =
      bindR (check_all (run_calls duel_env 0) nd1 cl) (\<lambda>nd2. Some (Inr (True, nd2))) \<and>
    [1] \<in> voided_by (meta_of nd1 [1]) \<and> [1] \<notin> voided_by (meta_of nd1 [2])"
proof -
  have st: "nd_st chain_node = chain_storage" by (simp add: chain_node_def)
  have "txs_without [8] chain_storage {[1], [2]}" "([1], [2]) \<in> edges forward chain_storage"
    by (simp_all add: txs_without_def chain_txs chain_meta tips_vertex_simps edges_def chain_nbs)
  then show ?thesis
    using own_void_not_inherited [OF chain_voidable, of "[1]" "tips_vertex 1 10 []" "[8]" "[1]" "[2]" "run_calls duel_env 0"]
    unfolding st by (fastforce simp: chain_descendants chain_txs chain_meta simp del: run_calls.simps)
qed

end
