(* ===== verification/Block_Rules.thy ===== *)
theory Block_Rules
  imports Unvoiding_Rules
begin

text \<open>
  Chains of blocks: the fork point is always found, and voiding a side chain marks exactly its blocks.
\<close>

subsection \<open>The fork point\<close>

text \<open>The first parent of a block is an older block, and a block without parents is in the best chain.\<close>

definition chain_ok :: "storage \<Rightarrow> bool" where
  "chain_ok st \<longleftrightarrow> (\<forall>h v. st_txs st h = Some v \<longrightarrow> tx_hash (vertex_base v) = Some h \<and> 0 \<le> vtimestamp v) \<and>
     (\<forall>h v. st_txs st h = Some v \<longrightarrow> is_block v \<longrightarrow> parents (vertex_base v) = [] \<longrightarrow> voided_by (st_meta st h) = {}) \<and>
     (\<forall>h v p ps. st_txs st h = Some v \<longrightarrow> is_block v \<longrightarrow> parents (vertex_base v) = p # ps \<longrightarrow>
        (\<exists>u. st_txs st p = Some u \<and> is_block u \<and> vtimestamp u < vtimestamp v))"

lemma chain_stored: "chain_ok st \<Longrightarrow> st_txs st h = Some v \<Longrightarrow> the_hash v = Inr h \<and> get_transaction st h = Inr v \<and> 0 \<le> vtimestamp v"
  by (simp add: chain_ok_def the_hash_def get_transaction_def)

lemma chain_parent:
  assumes "chain_ok st" and "st_txs st h = Some v" and "is_block v" and "parents (vertex_base v) = p # ps"
  obtains u where "st_txs st p = Some u" and "is_block u" and "vtimestamp u < vtimestamp v"
  using assms unfolding chain_ok_def by blast

lemma chain_start:
  assumes "chain_ok st" and "st_txs st h = Some v" and "is_block v" and "voided_by (st_meta st h) \<noteq> {}"
  obtains p ps where "parents (vertex_base v) = p # ps"
proof (cases "parents (vertex_base v)")
  case Nil
  then have "voided_by (st_meta st h) = {}" using assms(1-3) unfolding chain_ok_def by blast
  then show ?thesis using assms(4) by simp
qed

definition block_parent :: "storage \<Rightarrow> bytes \<Rightarrow> bytes \<Rightarrow> bool" where
  "block_parent st h p \<longleftrightarrow> (\<exists>v ps. st_txs st h = Some v \<and> is_block v \<and> parents (vertex_base v) = p # ps)"

definition voided_step :: "storage \<Rightarrow> (bytes \<times> bytes) set" where
  "voided_step st = {(h, p). block_parent st h p \<and> voided_by (st_meta st h) \<noteq> {}}"

lemma first_parent_found:
  assumes "chain_ok st" and "st_txs st h = Some v" and "is_block v"
  shows "\<exists>f u. first_parent_loop st h = Some (Inr u) \<and> st_txs st f = Some u \<and> is_block u \<and> voided_by (st_meta st f) = {} \<and>
    (h, f) \<in> (voided_step st)\<^sup>*"
  using assms(2,3)
proof (induction "nat (vtimestamp v)" arbitrary: h v rule: less_induct)
  case less
  have hash: "the_hash v = Inr h" "get_transaction st h = Inr v" "0 \<le> vtimestamp v"
    using chain_stored [OF assms(1) less.prems(1)] by simp_all
  show ?case
  proof (cases "voided_by (st_meta st h) = {}")
    case True
    then have "first_parent_loop st h = Some (Inr v)" using hash less.prems(2) by (subst first_parent_loop.simps) simp
    then show ?thesis using True less.prems by blast
  next
    case False
    obtain p ps u where p: "parents (vertex_base v) = p # ps" "st_txs st p = Some u" "is_block u" "vtimestamp u < vtimestamp v"
      using chain_start [OF assms(1) less.prems False] chain_parent [OF assms(1) less.prems] by metis
    have "first_parent_loop st h = first_parent_loop st p"
      using hash less.prems(2) False p(1) by (subst first_parent_loop.simps) (simp add: get_block_parent_hash_def py_nth_def)
    moreover have "(h, p) \<in> voided_step st" using p(1) less.prems False by (auto simp: voided_step_def block_parent_def)
    moreover have "nat (vtimestamp u) < nat (vtimestamp v)" using p(4) chain_stored [OF assms(1) p(2)] by simp
    ultimately show ?thesis using less.hyps [OF _ p(2,3)] by (metis converse_rtrancl_into_rtrancl)
  qed
qed

text \<open>
  C32: the search for the place where a side chain left the best chain always ends, without an error, at a
  stored block that is not voided, and all blocks between the given one and that block are voided.
\<close>

theorem fork_point_found:
  assumes "chain_ok st" and "st_txs st h = Some v" and "is_block v" and "block_parent st h p"
  shows "\<exists>f u. find_first_parent_in_best_chain st v = Some (Inr u) \<and> st_txs st f = Some u \<and> is_block u \<and>
    voided_by (st_meta st f) = {} \<and> (p, f) \<in> (voided_step st)\<^sup>*"
proof -
  obtain ps where p: "parents (vertex_base v) = p # ps" using assms(2,4) by (auto simp: block_parent_def)
  then obtain u where "st_txs st p = Some u" "is_block u" using chain_parent [OF assms(1-3)] by blast
  from first_parent_found [OF assms(1) this] show ?thesis
    by (simp add: find_first_parent_in_best_chain_def p get_block_parent_hash_def py_nth_def)
qed

subsection \<open>The markers of confirmed transactions\<close>

text \<open>The transactions that are marked as confirmed first by a block and reached from it through such transactions.\<close>

definition marked :: "storage \<Rightarrow> bytes \<Rightarrow> bytes \<Rightarrow> bool" where
  "marked st h k \<longleftrightarrow> (\<exists>v. st_txs st k = Some v \<and> \<not> is_block v) \<and> first_block (st_meta st k) = Some h"

definition marked_from :: "storage \<Rightarrow> bytes \<Rightarrow> bytes set" where
  "marked_from st h = {k. (h, k) \<in> {(a, b) \<in> edges confirmed st. marked st h b}\<^sup>+}"

definition unmarked :: "('t, 'l) node \<Rightarrow> bytes set \<Rightarrow> ('t, 'l) node \<Rightarrow> bool" where
  "unmarked nd C nd' \<longleftrightarrow> st_txs (nd_st nd') = st_txs (nd_st nd) \<and> nd_cache nd' = nd_cache nd \<and>
     st_best_tips (nd_st nd') = st_best_tips (nd_st nd) \<and>
     (\<forall>d. meta_of nd' d = (meta_of nd d)\<lparr>first_block := (if d \<in> C then None else first_block (meta_of nd d))\<rparr>)"

lemma unmarked_same_graph: "unmarked nd C nd' \<Longrightarrow> same_graph (nd_st nd) (nd_st nd')"
  by (simp add: unmarked_def same_graph_def)

lemma unmark_step:
  assumes "unmarked nd C nd'" and "tx_hash (vertex_base v) = Some k" and "st_txs (nd_st nd) k = Some v" and "k \<notin> C"
  shows "\<exists>x. unmark_body h nd' v = Some (Inr x) \<and>
    (if marked (nd_st nd) h k then \<exists>s'. x = Next s' \<and> unmarked nd (insert k C) s' else x = Skip nd')"
  using assms by (auto simp: unmark_body_def marked_def unmarked_def the_hash_def upd_meta_def)

lemma marked_closed:
  assumes "\<forall>e \<in> insert h C. set (nbs confirmed st e) \<subseteq> V \<union> {h}" and "C = {k \<in> V. marked st h k}" and "\<not> marked st h h"
  shows "marked_from st h \<subseteq> C"
proof
  fix k
  assume "k \<in> marked_from st h"
  then have "(h, k) \<in> {(a, b) \<in> edges confirmed st. marked st h b}\<^sup>+" by (simp add: marked_from_def)
  then show "k \<in> C"
  proof (induction rule: trancl_induct)
    case (base y)
    then show ?case using assms by (auto simp: edges_def)
  next
    case (step y z)
    then show ?case using assms by (auto simp: edges_def)
  qed
qed

lemma marked_from_step:
  assumes "e \<in> insert h (marked_from st h)" and "k \<in> set (nbs confirmed st e)" and "marked st h k"
  shows "k \<in> marked_from st h"
proof -
  have "(e, k) \<in> {(a, b) \<in> edges confirmed st. marked st h b}" using assms(2,3) by (simp add: edges_def)
  then show ?thesis using assms(1) by (auto simp: marked_from_def intro: trancl_into_trancl)
qed

lemma remove_markers:
  assumes "graph_ok confirmed (nd_st nd)" and "st_txs (nd_st nd) h = Some v" and "is_block v"
  shows "\<exists>nd'. remove_first_block_markers nd v = Some (Inr nd') \<and> unmarked nd (marked_from (nd_st nd) h) nd'"
proof -
  let ?st = "nd_st nd"
  define C where "C vs = {k \<in> set vs. marked ?st h k}" for vs
  have C: "C (vs @ [k]) = (if marked ?st h k then insert k (C vs) else C vs)" for vs k by (auto simp: C_def)
  define I where "I nd' vs E \<longleftrightarrow> unmarked nd (C vs) nd' \<and> E = insert h (C vs) \<and> C vs \<subseteq> marked_from ?st h"
    for nd' :: "('a, 'b) node" and vs E
  have nm: "\<not> marked ?st h h" using assms(2,3) by (simp add: marked_def)
  have hash: "the_hash v = Inr h" using stored_the_hash [OF assms(1,2)] by simp
  have "\<exists>s'. bfs_run confirmed nd_st (unmark_body h) True nd v = Some (Inr s') \<and> unmarked nd (marked_from ?st h) s'"
  proof (rule bfs.walk_run_rule [where I = I and st = ?st and r = h and Q = "unmarked nd (marked_from ?st h)", OF assms(1,2)])
    fix s vs E u
    assume i: "I s vs E" and u: "st_txs ?st (vhash u) = Some u" "vhash u \<notin> set vs"
      and e: "\<not> True \<and> vhash u = h \<or> (\<exists>e \<in> E. vhash u \<in> set (nbs confirmed ?st e))"
    have uh: "tx_hash (vertex_base u) = Some (vhash u)" using assms(1) u(1) unfolding graph_ok_def by blast
    have "vhash u \<in> marked_from ?st h" if "marked ?st h (vhash u)" using e i that by (auto simp: I_def intro: marked_from_step)
    moreover have "unmarked nd (C vs) s" "vhash u \<notin> C vs" using i u(2) by (simp_all add: I_def C_def)
    ultimately show "\<exists>x. unmark_body h s u = Some (Inr x) \<and>
        (case x of Next s' \<Rightarrow> I s' (vs @ [vhash u]) (insert (vhash u) E) | Skip s' \<Rightarrow> I s' (vs @ [vhash u]) E
         | Break s' \<Rightarrow> unmarked nd (marked_from ?st h) s')"
      using unmark_step [OF _ uh u(1), where C = "C vs" and nd' = s and h = h] i by (cases "marked ?st h (vhash u)") (auto simp: I_def C)
  next
    fix s vs E
    assume i: "I s vs E" and c: "\<forall>e \<in> E. set (nbs confirmed ?st e) \<subseteq> set vs \<union> {h}"
    have "marked_from ?st h \<subseteq> C vs" by (rule marked_closed [where V = "set vs"]) (use i c nm in \<open>simp_all add: I_def C_def\<close>)
    then show "unmarked nd (marked_from ?st h) s" using i by (auto simp: I_def dest: subset_antisym)
  next
    show "I nd [] (if True then {h} else {})" by (simp add: I_def unmarked_def C_def)
  qed (auto simp: I_def intro: unmarked_same_graph)
  then show ?thesis using hash by (simp add: remove_first_block_markers_def)
qed

subsection \<open>Voiding a side chain\<close>

text \<open>The blocks of the chain that ends in a block and are newer than a timestamp.\<close>

definition chain_above :: "storage \<Rightarrow> int \<Rightarrow> bytes \<Rightarrow> bytes set" where
  "chain_above st t h = {k. (h, k) \<in> {(a, b). block_parent st a b}\<^sup>* \<and> t < time_of st k}"

lemma chain_above_old:
  assumes "chain_ok st" and "st_txs st h = Some v" and "is_block v" and "vtimestamp v \<le> t"
  shows "chain_above st t h = {}"
proof -
  have "(\<exists>u. st_txs st k = Some u \<and> is_block u) \<and> time_of st k \<le> t" if "(h, k) \<in> {(a, b). block_parent st a b}\<^sup>*" for k
    using that
  proof (induction rule: rtrancl_induct)
    case base
    then show ?case using assms(2-4) by (simp add: time_of_def)
  next
    case (step y z)
    then obtain u ps where u: "st_txs st y = Some u" "is_block u" "parents (vertex_base u) = z # ps" by (auto simp: block_parent_def)
    obtain w where "st_txs st z = Some w" "is_block w" "vtimestamp w < vtimestamp u" by (rule chain_parent [OF assms(1) u])
    then show ?case using u(1) step.IH by (simp add: time_of_def)
  qed
  then show ?thesis by (fastforce simp: chain_above_def)
qed

lemma chain_above_step:
  assumes "st_txs st h = Some v" and "is_block v" and "parents (vertex_base v) = p # ps" and "t < vtimestamp v"
  shows "chain_above st t h = insert h (chain_above st t p)"
proof -
  have "block_parent st h k \<longleftrightarrow> k = p" for k using assms(1-3) by (auto simp: block_parent_def)
  then have "(h, k) \<in> {(a, b). block_parent st a b}\<^sup>* \<longleftrightarrow> k = h \<or> (p, k) \<in> {(a, b). block_parent st a b}\<^sup>*" for k
    by (auto elim: converse_rtranclE intro: converse_rtrancl_into_rtrancl)
  then show ?thesis using assms(1,4) by (auto simp: chain_above_def time_of_def)
qed

text \<open>What a loop over the side chain may change: hashes of voided blocks are added, markers are taken away.\<close>

definition chain_voided :: "('t, 'l) node \<Rightarrow> bytes set \<Rightarrow> ('t, 'l) node \<Rightarrow> bool" where
  "chain_voided nd D nd' \<longleftrightarrow> st_txs (nd_st nd') = st_txs (nd_st nd) \<and> nd_cache nd' = nd_cache nd \<and>
     st_best_tips (nd_st nd') = st_best_tips (nd_st nd) \<and>
     (\<exists>C. (\<forall>d \<in> C. first_block (meta_of nd d) \<in> Some ` D) \<and>
       (\<forall>d. meta_of nd' d = (meta_of nd d)\<lparr>voided_by := voided_by (meta_of nd d) \<union> (if d \<in> D then {d} else {}),
          first_block := (if d \<in> C then None else first_block (meta_of nd d))\<rparr>))"

lemma void_block:
  assumes "graph_ok confirmed (nd_st nd)" and "st_txs (nd_st nd) h = Some v" and "is_block v" and "spent_outputs (meta_of nd h) = []"
  shows "\<exists>nd'. blk_mark_as_voided rec False nd v = Some (Inr nd') \<and> chain_voided nd {h} nd'"
proof -
  obtain nd1 where n1: "remove_first_block_markers nd v = Some (Inr nd1)" "unmarked nd (marked_from (nd_st nd) h) nd1"
    using remove_markers [OF assms(1-3)] by blast
  have m: "first_block (meta_of nd k) = Some h" if "k \<in> marked_from (nd_st nd) h" for k
    using that by (auto simp: marked_from_def marked_def elim: tranclE)
  have hash: "the_hash v = Inr h" using stored_the_hash [OF assms(1,2)] by simp
  let ?nd2 = "upd_meta h (\<lambda>m. m\<lparr>voided_by := insert h (voided_by m)\<rparr>) nd1"
  have s: "spent_outputs (meta_of nd1 h) = []" using n1(2) assms(4) by (simp add: unmarked_def)
  have "blk_mark_as_voided rec False nd v = Some (Inr (if h \<in> voided_by (meta_of nd1 h) then nd1 else ?nd2))"
    using n1(1) hash s by (simp add: blk_mark_as_voided_def blk_add_voided_by_def for_spenders_def upd_meta_def)
  moreover have "chain_voided nd {h} (if h \<in> voided_by (meta_of nd1 h) then nd1 else ?nd2)"
    unfolding chain_voided_def using n1(2) m
    by (intro conjI exI [of _ "marked_from (nd_st nd) h"]) (auto simp: unmarked_def upd_meta_def insert_absorb)
  ultimately show ?thesis by blast
qed

lemma chain_voided_trans:
  assumes "chain_voided nd D nd1" and "chain_voided nd1 D' nd2"
  shows "chain_voided nd (D \<union> D') nd2"
proof -
  obtain C C' where c: "\<forall>d \<in> C. first_block (meta_of nd d) \<in> Some ` D" "\<forall>d \<in> C'. first_block (meta_of nd1 d) \<in> Some ` D'"
    "\<forall>d. meta_of nd1 d = (meta_of nd d)\<lparr>voided_by := voided_by (meta_of nd d) \<union> (if d \<in> D then {d} else {}),
       first_block := (if d \<in> C then None else first_block (meta_of nd d))\<rparr>"
    "\<forall>d. meta_of nd2 d = (meta_of nd1 d)\<lparr>voided_by := voided_by (meta_of nd1 d) \<union> (if d \<in> D' then {d} else {}),
       first_block := (if d \<in> C' then None else first_block (meta_of nd1 d))\<rparr>"
    using assms unfolding chain_voided_def by blast
  have "\<forall>d \<in> C \<union> C'. first_block (meta_of nd d) \<in> Some ` (D \<union> D')" using c(1,2,3) by (auto split: if_splits)
  moreover have "\<forall>d. meta_of nd2 d = (meta_of nd d)\<lparr>voided_by := voided_by (meta_of nd d) \<union> (if d \<in> D \<union> D' then {d} else {}),
       first_block := (if d \<in> C \<union> C' then None else first_block (meta_of nd d))\<rparr>"
    using c(3,4) by auto
  ultimately show ?thesis using assms unfolding chain_voided_def by auto
qed

lemma chain_voided_frame:
  assumes "chain_voided nd D nd'"
  shows "same_graph (nd_st nd) (nd_st nd')" and "block_parent (nd_st nd') = block_parent (nd_st nd)"
    and "chain_above (nd_st nd') t h = chain_above (nd_st nd) t h" and "spent_outputs (meta_of nd' d) = spent_outputs (meta_of nd d)"
  using assms by (auto simp: chain_voided_def same_graph_def block_parent_def chain_above_def time_of_def fun_eq_iff)

lemma chain_voided_ok:
  assumes "chain_voided nd D nd'" and "chain_ok (nd_st nd)" and "\<forall>d \<in> D. \<exists>p. block_parent (nd_st nd) d p"
  shows "chain_ok (nd_st nd')"
proof -
  have t: "st_txs (nd_st nd') = st_txs (nd_st nd)" and v: "\<And>d. d \<notin> D \<Longrightarrow> voided_by (meta_of nd' d) = voided_by (meta_of nd d)"
    using assms(1) by (auto simp: chain_voided_def)
  have "voided_by (meta_of nd' h) = {}" if "st_txs (nd_st nd) h = Some v" "is_block v" "parents (vertex_base v) = []" for h v
  proof -
    have "h \<notin> D" using assms(3) that by (auto simp: block_parent_def)
    then show ?thesis using v assms(2) that unfolding chain_ok_def by blast
  qed
  then show ?thesis using assms(2) unfolding chain_ok_def t by blast
qed

lemma void_chain_block:
  assumes "graph_ok confirmed (nd_st nd)" and "st_txs (nd_st nd) h = Some v" and "is_block v" and "spent_outputs (meta_of nd h) = []"
  shows "\<exists>nd'. (if h \<in> voided_by (meta_of nd h) then Some (Inr nd) else blk_mark_as_voided rec False nd v) = Some (Inr nd') \<and> chain_voided nd {h} nd'"
proof (cases "h \<in> voided_by (meta_of nd h)")
  case True
  then have "chain_voided nd {h} nd" by (auto simp: chain_voided_def insert_absorb intro!: exI [of _ "{}"])
  then show ?thesis using True by simp
qed (use void_block [OF assms] in simp)

text \<open>Blocks with a parent, all of which lead back to the fork.\<close>

lemma void_chain:
  assumes "graph_ok confirmed (nd_st nd)" and "chain_ok (nd_st nd)" and "st_txs (nd_st nd) h = Some v" and "is_block v"
    and "\<forall>k \<in> chain_above (nd_st nd) t h. spent_outputs (meta_of nd k) = [] \<and> (\<exists>p. block_parent (nd_st nd) k p)"
  shows "\<exists>nd'. void_chain_loop rec t nd v = Some (Inr nd') \<and> chain_voided nd (chain_above (nd_st nd) t h) nd'"
  using assms
proof (induction "nat (vtimestamp v)" arbitrary: h v nd rule: less_induct)
  case less
  show ?case
  proof (cases "vtimestamp v \<le> t")
    case True
    then have "chain_above (nd_st nd) t h = {}" using chain_above_old less.prems(2-4) by blast
    moreover have "chain_voided nd {} nd" by (auto simp: chain_voided_def intro!: exI [of _ "{}"])
    ultimately show ?thesis using True by (auto simp: void_chain_loop.simps [of rec t nd v])
  next
    case False
    then have "h \<in> chain_above (nd_st nd) t h" using less.prems(3) by (simp add: chain_above_def time_of_def)
    then obtain p ps where p: "parents (vertex_base v) = p # ps" and so: "spent_outputs (meta_of nd h) = []"
      using less.prems(3,5) by (fastforce simp: block_parent_def)
    obtain u where u: "st_txs (nd_st nd) p = Some u" "is_block u" "vtimestamp u < vtimestamp v"
      by (rule chain_parent [OF less.prems(2,3,4) p])
    obtain nd1 where n1: "(if h \<in> voided_by (meta_of nd h) then Some (Inr nd) else blk_mark_as_voided rec False nd v) = Some (Inr nd1)"
      "chain_voided nd {h} nd1" using void_chain_block [OF less.prems(1,3,4) so] by blast
    note f = chain_voided_frame [OF n1(2)]
    have ca: "chain_above (nd_st nd) t h = insert h (chain_above (nd_st nd) t p)"
      using chain_above_step [OF less.prems(3,4) p] False by simp
    have s1: "st_txs (nd_st nd1) = st_txs (nd_st nd)" using n1(2) by (simp add: chain_voided_def)
    have "chain_ok (nd_st nd1)" using chain_voided_ok [OF n1(2) less.prems(2)] less.prems(3,4) p by (auto simp: block_parent_def)
    moreover have "\<forall>k \<in> chain_above (nd_st nd1) t p. spent_outputs (meta_of nd1 k) = [] \<and> (\<exists>p. block_parent (nd_st nd1) k p)"
      using less.prems(5) unfolding f ca by blast
    moreover have "nat (vtimestamp u) < nat (vtimestamp v)" using u(3) chain_stored [OF less.prems(2) u(1)] by simp
    moreover have "graph_ok confirmed (nd_st nd1)" using less.prems(1) by (simp add: same_graph_graph_ok [OF f(1)])
    ultimately obtain nd2 where n2: "void_chain_loop rec t nd1 u = Some (Inr nd2)" "chain_voided nd1 (chain_above (nd_st nd) t p) nd2"
      using less.hyps [of u nd1 p] u s1 unfolding f by auto
    have "get_block_parent (nd_st nd1) v = Inr u" "the_hash v = Inr h"
      using p u(1,2) s1 chain_stored [OF less.prems(2,3)] by (simp_all add: get_block_parent_def get_block_parent_hash_def py_nth_def get_transaction_def)
    then have "void_chain_loop rec t nd v = Some (Inr nd2)"
      using False n1(1) n2(1) by (subst void_chain_loop.simps) simp
    then show ?thesis using chain_voided_trans [OF n1(2) n2(2)] unfolding ca by auto
  qed
qed

lemma void_chains:
  assumes "graph_ok confirmed (nd_st nd)" and "chain_ok (nd_st nd)"
    and "\<forall>v \<in> set heads. st_txs (nd_st nd) (vhash v) = Some v \<and> is_block v"
    and "\<forall>k \<in> (\<Union>v \<in> set heads. chain_above (nd_st nd) t (vhash v)). spent_outputs (meta_of nd k) = [] \<and> (\<exists>p. block_parent (nd_st nd) k p)"
  shows "\<exists>nd'. foldR (void_chain_loop rec t) nd heads = Some (Inr nd') \<and>
    chain_voided nd (\<Union>v \<in> set heads. chain_above (nd_st nd) t (vhash v)) nd'"
  using assms
proof (induction heads arbitrary: nd)
  case Nil
  show ?case by (auto simp: chain_voided_def intro!: exI [of _ "{}"])
next
  case (Cons v heads)
  obtain nd1 where n1: "void_chain_loop rec t nd v = Some (Inr nd1)" "chain_voided nd (chain_above (nd_st nd) t (vhash v)) nd1"
    using void_chain [OF Cons.prems(1,2), of "vhash v" v t rec] Cons.prems(3,4) by auto
  note f = chain_voided_frame [OF n1(2)]
  have "st_txs (nd_st nd1) = st_txs (nd_st nd)" using f(1) by (simp add: same_graph_def)
  moreover have "chain_ok (nd_st nd1)" using chain_voided_ok [OF n1(2) Cons.prems(2)] Cons.prems(4) by auto
  moreover have "graph_ok confirmed (nd_st nd1)" using Cons.prems(1) by (simp add: same_graph_graph_ok [OF f(1)])
  ultimately obtain nd2 where n2: "foldR (void_chain_loop rec t) nd1 heads = Some (Inr nd2)"
    "chain_voided nd1 (\<Union>v \<in> set heads. chain_above (nd_st nd) t (vhash v)) nd2"
    using Cons.IH [of nd1] Cons.prems(3,4) unfolding f by auto
  then show ?case using n1(1) chain_voided_trans [OF n1(2) n2(2)] by simp
qed


subsection \<open>An example\<close>

text \<open>Two blocks on top of the first one; the second is voided.\<close>

definition chain_block :: "byte \<Rightarrow> int \<Rightarrow> bytes list \<Rightarrow> vertex" where
  "chain_block b t ps = VBlock \<lparr>nonce = 0, timestamp = t, version = 0, weight = 0, inputs = [], outputs = [],
     parents = ps, tx_hash = Some [b], blk_data = []\<rparr>"

definition fork_storage :: storage where
  "fork_storage = \<lparr>st_txs = [[1] \<mapsto> chain_block 1 10 [], [2] \<mapsto> chain_block 2 20 [[1]], [3] \<mapsto> chain_block 3 21 [[1]]],
     st_meta = (\<lambda>h. (new_meta (Some h) 0 0)\<lparr>voided_by := (if h = [3] then {[3]} else {})\<rparr>), st_best_tips = None\<rparr>"

lemma chain_block_simps: "tx_hash (vertex_base (chain_block b t ps)) = Some [b]" "vtimestamp (chain_block b t ps) = t"
    "parents (vertex_base (chain_block b t ps)) = ps" "is_block (chain_block b t ps)" "inputs (vertex_base (chain_block b t ps)) = []"
    "the_hash (chain_block b t ps) = Inr [b]"
  by (simp_all add: chain_block_def base_transaction.defs the_hash_def)

lemma fork_txs: "st_txs fork_storage h = (if h = [3] then Some (chain_block 3 21 [[1]]) else if h = [2] then Some (chain_block 2 20 [[1]])
    else if h = [1] then Some (chain_block 1 10 []) else None)"
  by (simp add: fork_storage_def)

lemma fork_cases: "st_txs fork_storage h = Some v \<Longrightarrow> h = [1] \<and> v = chain_block 1 10 [] \<or> h = [2] \<and> v = chain_block 2 20 [[1]] \<or>
    h = [3] \<and> v = chain_block 3 21 [[1]]"
  by (simp add: fork_txs split: if_splits)

lemma fork_meta: "voided_by (st_meta fork_storage h) = (if h = [3] then {[3]} else {})" "spent_outputs (st_meta fork_storage h) = []"
  by (simp_all add: fork_storage_def new_meta_def)

lemma fork_chain_ok: "chain_ok fork_storage"
  unfolding chain_ok_def by (auto dest!: fork_cases simp: chain_block_simps fork_meta fork_txs)

lemma fork_graph_ok: "graph_ok confirmed fork_storage"
proof -
  have n: "nbs confirmed fork_storage h = (if h \<in> {[2], [3]} then [[1]] else [])" for h
    by (simp add: nbs_def neighbors_def confirmed_def fork_txs chain_block_simps)
  have k: "item_key confirmed u = - vtimestamp u" for u by (simp add: item_key_def confirmed_def)
  have "dom (st_txs fork_storage) = {[1], [2], [3]}" by (auto simp: fork_storage_def)
  then show ?thesis unfolding graph_ok_def n k by (auto dest!: fork_cases simp: chain_block_simps fork_txs)
qed

lemma fork_first_parent: "find_first_parent_in_best_chain fork_storage (chain_block 3 21 [[1]]) = Some (Inr (chain_block 1 10 []))"
  by (simp add: find_first_parent_in_best_chain_def chain_block_simps get_block_parent_hash_def py_nth_def
      first_parent_loop.simps [of fork_storage "[1]"] get_transaction_def fork_txs fork_meta)

theorem fork_point_found_witness:
  "\<exists>f u. find_first_parent_in_best_chain fork_storage (chain_block 3 21 [[1]]) = Some (Inr u) \<and> st_txs fork_storage f = Some u \<and>
    voided_by (st_meta fork_storage f) = {} \<and> ([1], f) \<in> (voided_step fork_storage)\<^sup>*"
proof -
  have "st_txs fork_storage [3] = Some (chain_block 3 21 [[1]])" "block_parent fork_storage [3] [1]"
    by (simp_all add: fork_txs block_parent_def chain_block_simps)
  from fork_point_found [OF fork_chain_ok this(1) chain_block_simps(4) this(2)] show ?thesis by blast
qed


end
