(* ===== verification/Spec2Isabelle.thy ===== *)
theory Spec2Isabelle
  imports Token_Creation_Format Block_Format Script_Spend Script_Nano Verify_Rules Difficulty Rewards Topological_Sort Tips_Index Tokens_Index
    Block_Rules
begin

text \<open>
  A verification library for the Hathor full node (\<^verbatim>\<open>src/hathor\<close>).
\<close>

end
